(* ===== verification/Prelude.thy ===== *)
theory Prelude
  imports Main "HOL-Library.Sublist" "HOL-Library.Char_ord" "HOL-Library.List_Lexorder"
begin

text \<open>
  What every other theory shares: the collections of framing and invariant lemmas, Go's loop
  forms as combinators over an explicit state (a range loop that stops at the first error,
  a range loop that collects, the endless page loop), the part of Go's \<open>strings\<close> and
  \<open>strconv\<close> packages the program calls, and the lemmas about them. A Go string is a list of
  bytes, so it is a \<open>string\<close> (a list of 8-bit characters) here and its order is the
  byte order Go compares with.
\<close>

named_theorems frame_intros
named_theorems inv_intros

section \<open>Loops\<close>

text \<open>
  \<open>for _, x := range xs { if err := f(x); err != nil { return err } }\<close>, where a call may also
  not return (\<open>None\<close>).
\<close>

fun for_each :: "('a \<Rightarrow> 's \<Rightarrow> (('e + unit) \<times> 's) option) \<Rightarrow> 'a list \<Rightarrow> 's \<Rightarrow> (('e + unit) \<times> 's) option"
where
  "for_each f [] s = Some (Inr (), s)"
| "for_each f (x # xs) s =
     (case f x s of
        None \<Rightarrow> None
      | Some (Inl e, s1) \<Rightarrow> Some (Inl e, s1)
      | Some (Inr _, s1) \<Rightarrow> for_each f xs s1)"

text \<open>The same loop when each call yields a value that is appended to a slice.\<close>

fun collect_each :: "('a \<Rightarrow> 's \<Rightarrow> (('e + 'b) \<times> 's)) \<Rightarrow> 'a list \<Rightarrow> 's \<Rightarrow> (('e + 'b list) \<times> 's)"
where
  "collect_each f [] s = (Inr [], s)"
| "collect_each f (x # xs) s =
     (case f x s of
        (Inl e, s1) \<Rightarrow> (Inl e, s1)
      | (Inr y, s1) \<Rightarrow>
          (case collect_each f xs s1 of
             (Inl e, s2) \<Rightarrow> (Inl e, s2)
           | (Inr ys, s2) \<Rightarrow> (Inr (y # ys), s2)))"

text \<open>
  \<open>for page := 1; ; page++ { body }\<close>: the body either leaves the loop with a result
  (\<open>return\<close>, \<open>break\<close>) or goes on with new values of the variables declared outside it.
  \<open>None\<close> is a loop that never leaves.
\<close>

datatype ('r, 'st) step = Return 'r | Next 'st

partial_function (option) for_pages :: "(nat \<Rightarrow> 'st \<Rightarrow> ('r, 'st) step) \<Rightarrow> nat \<Rightarrow> 'st \<Rightarrow> 'r option"
where
  "for_pages body page st =
     (case body page st of
        Return r \<Rightarrow> Some r
      | Next st' \<Rightarrow> for_pages body (Suc page) st')"

text \<open>For evaluation: the loop goes on only once the step is known.\<close>

fun after_step :: "(nat \<Rightarrow> 'st \<Rightarrow> ('r, 'st) step) \<Rightarrow> nat \<Rightarrow> ('r, 'st) step \<Rightarrow> 'r option" where
  "after_step body page (Return r) = Some r"
| "after_step body page (Next st) = for_pages body (Suc page) st"

lemma for_pages_code [code]: "for_pages body page st = after_step body page (body page st)"
  by (subst for_pages.simps) (cases "body page st"; simp)

lemma for_pages_Return: "body page st = Return r \<Longrightarrow> for_pages body page st = Some r"
  by (subst for_pages.simps) simp

lemma for_pages_Next: "body page st = Next st' \<Longrightarrow> for_pages body page st = for_pages body (Suc page) st'"
  by (subst for_pages.simps) simp

text \<open>An invariant of the loop variables holds of the returned value's origin.\<close>

lemma for_pages_invariant:
  fixes body :: "nat \<Rightarrow> 'st \<Rightarrow> ('r, 'st) step"
  assumes ret: "for_pages body page st = Some r"
    and init: "I st"
    and next_step: "\<And>p st st'. I st \<Longrightarrow> body p st = Next st' \<Longrightarrow> I st'"
    and result: "\<And>p st r. I st \<Longrightarrow> body p st = Return r \<Longrightarrow> P r"
  shows "P r"
proof -
  have "body = body \<longrightarrow> I st \<longrightarrow> P r"
  proof (rule for_pages.raw_induct [where P = "\<lambda>b page st r. b = body \<longrightarrow> I st \<longrightarrow> P r", OF _ ret], intro impI)
    fix f :: "(nat \<Rightarrow> 'st \<Rightarrow> ('r, 'st) step) \<Rightarrow> nat \<Rightarrow> 'st \<Rightarrow> 'r option" and b p s r
    assume IH: "\<And>b p s r. f b p s = Some r \<Longrightarrow> b = body \<longrightarrow> I s \<longrightarrow> P r"
      and eq: "(case b p s of Return r \<Rightarrow> Some r | Next st' \<Rightarrow> f b (Suc p) st') = Some r"
      and b: "b = body" and I: "I s"
    show "P r"
    proof (cases "b p s")
      case (Return x)
      with eq b I result show ?thesis by auto
    next
      case (Next s')
      with eq have "f b (Suc p) s' = Some r" by simp
      with Next b I next_step IH show ?thesis by blast
    qed
  qed
  with init show ?thesis by simp
qed


text \<open>
  The loop leaves within \<open>n\<close> more pages when some measure of its variables says so: the
  termination argument every page loop of the program uses.
\<close>

lemma for_pages_returns:
  fixes body :: "nat \<Rightarrow> 'st \<Rightarrow> ('r, 'st) step"
  assumes stops: "\<And>st. \<exists>r. body (page + n) st = Return r"
  shows "\<exists>r. for_pages body page st = Some r"
  using stops
proof (induction n arbitrary: page st)
  case 0
  then obtain r where "body page st = Return r" by fastforce
  then show ?case using for_pages_Return by metis
next
  case (Suc n)
  show ?case
  proof (cases "body page st")
    case (Return r)
    then show ?thesis using for_pages_Return by metis
  next
    case (Next st')
    from Suc.prems have "\<And>st. \<exists>r. body (Suc page + n) st = Return r" by simp
    then have "\<exists>r. for_pages body (Suc page) st' = Some r" by (rule Suc.IH)
    with Next show ?thesis by (metis for_pages_Next)
  qed
qed

section \<open>Strings\<close>

text \<open>\<open>strings.HasPrefix\<close>, \<open>strings.HasSuffix\<close>, \<open>strings.TrimSuffix\<close>.\<close>

definition has_prefix :: "string \<Rightarrow> string \<Rightarrow> bool" where
  "has_prefix s p \<longleftrightarrow> take (length p) s = p"

definition has_suffix :: "string \<Rightarrow> string \<Rightarrow> bool" where
  "has_suffix s p \<longleftrightarrow> length p \<le> length s \<and> drop (length s - length p) s = p"

definition trim_suffix :: "string \<Rightarrow> string \<Rightarrow> string" where
  "trim_suffix s p = (if has_suffix s p then take (length s - length p) s else s)"

lemma has_prefix_iff: "has_prefix s p \<longleftrightarrow> (\<exists>u. s = p @ u)"
  unfolding has_prefix_def by (metis append_eq_conv_conj append_take_drop_id)

lemma has_suffix_iff: "has_suffix s p \<longleftrightarrow> (\<exists>u. s = u @ p)"
proof
  assume "has_suffix s p"
  then have "s = take (length s - length p) s @ p"
    unfolding has_suffix_def by (metis append_take_drop_id)
  then show "\<exists>u. s = u @ p" ..
next
  assume "\<exists>u. s = u @ p"
  then show "has_suffix s p" by (auto simp: has_suffix_def)
qed

lemma has_prefix_append [simp]: "has_prefix (p @ u) p"
  by (auto simp: has_prefix_iff)

lemma has_suffix_append [simp]: "has_suffix (u @ p) p"
  by (auto simp: has_suffix_iff)

lemma trim_suffix_append [simp]: "trim_suffix (u @ p) p = u"
  by (simp add: trim_suffix_def)

lemma trim_suffix_restore: "has_suffix s p \<Longrightarrow> trim_suffix s p @ p = s"
  by (auto simp: has_suffix_iff)

text \<open>\<open>strings.Split\<close> with a one-byte separator, and \<open>strings.Join\<close>.\<close>

fun split_on :: "char \<Rightarrow> string \<Rightarrow> string list" where
  "split_on c [] = [[]]"
| "split_on c (x # xs) =
     (if x = c then [] # split_on c xs
      else (case split_on c xs of [] \<Rightarrow> [[x]] | w # ws \<Rightarrow> (x # w) # ws))"

fun join_with :: "string \<Rightarrow> string list \<Rightarrow> string" where
  "join_with sep [] = []"
| "join_with sep [w] = w"
| "join_with sep (w # v # ws) = w @ sep @ join_with sep (v # ws)"

lemma split_on_not_Nil [simp]: "split_on c s \<noteq> []"
  by (cases s) (auto split: list.splits)

lemma split_on_free: "c \<notin> set s \<Longrightarrow> split_on c s = [s]"
  by (induction s) auto

lemma split_on_append: "split_on c (u @ c # v) = split_on c u @ split_on c v"
proof (induction u)
  case Nil
  then show ?case by simp
next
  case (Cons x u)
  then show ?case by (cases "split_on c u") auto
qed

lemma join_split [simp]: "join_with [c] (split_on c s) = s"
proof (induction s)
  case Nil
  then show ?case by simp
next
  case (Cons x s)
  then show ?case
    by (cases "split_on c s" rule: remdups_adj.cases) (auto split: list.splits)
qed

lemma split_join: "ws \<noteq> [] \<Longrightarrow> \<forall>w \<in> set ws. c \<notin> set w \<Longrightarrow> split_on c (join_with [c] ws) = ws"
proof (induction "[c]" ws rule: join_with.induct)
  case (3 w v ws)
  then show ?case by (simp add: split_on_append split_on_free)
qed (auto simp: split_on_free)

lemma split_on_no_sep: "w \<in> set (split_on c s) \<Longrightarrow> c \<notin> set w"
proof (induction s arbitrary: w)
  case (Cons x s)
  then show ?case by (cases "split_on c s") (auto split: if_splits)
qed auto

lemma join_with_append:
  "us \<noteq> [] \<Longrightarrow> vs \<noteq> [] \<Longrightarrow> join_with sep (us @ vs) = join_with sep us @ sep @ join_with sep vs"
proof (induction sep us rule: join_with.induct)
  case (2 sep w)
  then show ?case by (cases vs) auto
qed auto

text \<open>A suffix with no separator in it is added to the last component.\<close>

lemma split_on_append_free:
  "c \<notin> set v \<Longrightarrow> split_on c (u @ v) = butlast (split_on c u) @ [last (split_on c u) @ v]"
proof (induction u)
  case Nil
  then show ?case by (simp add: split_on_free)
next
  case (Cons x u)
  obtain w ws where "split_on c u = w # ws"
    by (cases "split_on c u") auto
  with Cons show ?case by (cases ws) auto
qed

text \<open>
  \<open>strings.TrimSpace\<close> on ASCII white space; \<open>strings.EqualFold\<close> on ASCII letters.
\<close>

definition is_space :: "char \<Rightarrow> bool" where
  "is_space c \<longleftrightarrow> c \<in> {CHR ''\<newline>'', CHR 0x09, CHR 0x0B, CHR 0x0C, CHR 0x0D, CHR '' ''}"

definition trim_space :: "string \<Rightarrow> string" where
  "trim_space s = rev (dropWhile is_space (rev (dropWhile is_space s)))"

definition lower :: "char \<Rightarrow> char" where
  "lower c = (if 65 \<le> (of_char c :: nat) \<and> (of_char c :: nat) \<le> 90 then char_of ((of_char c :: nat) + 32) else c)"

definition equal_fold :: "string \<Rightarrow> string \<Rightarrow> bool" where
  "equal_fold s t \<longleftrightarrow> map lower s = map lower t"

text \<open>\<open>strconv.Itoa\<close>.\<close>

definition digit :: "nat \<Rightarrow> char" where
  "digit d = char_of (48 + d)"

fun show_nat :: "nat \<Rightarrow> string" where
  "show_nat n = (if n < 10 then [digit n] else show_nat (n div 10) @ [digit (n mod 10)])"

declare show_nat.simps [simp del]

text \<open>For evaluation: the recursion goes on only once the test is known.\<close>

fun show_digits :: "bool \<Rightarrow> nat \<Rightarrow> string" where
  "show_digits True n = [digit n]"
| "show_digits False n = show_nat (n div 10) @ [digit (n mod 10)]"

lemma show_nat_code [code]: "show_nat n = show_digits (n < 10) n"
  by (subst show_nat.simps) simp

definition itoa :: "int \<Rightarrow> string" where
  "itoa i = (if i < 0 then ''-'' @ show_nat (nat (- i)) else show_nat (nat i))"

fun read_nat :: "string \<Rightarrow> nat" where
  "read_nat s = foldl (\<lambda>n c. 10 * n + (of_char c - 48)) 0 s"

lemma of_char_digit: "d < 10 \<Longrightarrow> (of_char (digit d) :: nat) = 48 + d"
  by (simp add: digit_def of_char_of take_bit_eq_mod)

lemma read_show_nat: "read_nat (show_nat n) = n"
proof (induction n rule: show_nat.induct)
  case (1 n)
  show ?case
  proof (cases "n < 10")
    case True
    then show ?thesis by (subst show_nat.simps) (simp add: of_char_digit)
  next
    case False
    with 1 have "read_nat (show_nat (n div 10)) = n div 10" by simp
    with False show ?thesis by (subst show_nat.simps) (simp add: of_char_digit)
  qed
qed

lemma show_nat_inject [simp]: "show_nat m = show_nat n \<longleftrightarrow> m = n"
  by (metis read_show_nat)

lemma show_nat_digits: "c \<in> set (show_nat n) \<Longrightarrow> (of_char c :: nat) \<in> {48..57}"
proof (induction n rule: show_nat.induct)
  case (1 n)
  show ?case
  proof (cases "n < 10")
    case True
    with 1 show ?thesis by (subst (asm) (2) show_nat.simps) (auto simp: of_char_digit)
  next
    case False
    with 1 show ?thesis by (subst (asm) (2) show_nat.simps) (auto simp: of_char_digit)
  qed
qed

lemma show_nat_not_Nil [simp]: "show_nat n \<noteq> []"
  by (subst show_nat.simps) simp

lemma itoa_chars: "c \<in> set (itoa i) \<Longrightarrow> c = CHR ''-'' \<or> (of_char c :: nat) \<in> {48..57}"
  unfolding itoa_def using show_nat_digits by (auto split: if_splits)

lemma itoa_no_slash: "CHR ''/'' \<notin> set (itoa i)"
  using itoa_chars [of "CHR ''/''" i] by auto

lemma itoa_not_Nil [simp]: "itoa i \<noteq> []"
  by (simp add: itoa_def)

lemma itoa_inject [simp]: "itoa i = itoa j \<longleftrightarrow> i = j"
proof
  assume eq: "itoa i = itoa j"
  have minus: "CHR ''-'' \<notin> set (show_nat n)" for n
    using show_nat_digits [of "CHR ''-''" n] by auto
  then have "\<And>m n. ''-'' @ show_nat m \<noteq> show_nat n"
    by (metis append_Cons list.set_intros(1))
  with eq show "i = j"
    unfolding itoa_def by (auto split: if_splits) metis+
qed simp

end
