(* ===== verification/GoPath.thy ===== *)
theory GoPath
  imports Prelude
begin

text \<open>
  Go's \<open>path/filepath\<close> on Unix, as far as the program uses it: \<open>Clean\<close>, \<open>Join\<close>, \<open>Base\<close>,
  \<open>Dir\<close>, and the resolution of a path string to the list of component names the file system
  looks up. The main facts: cleaning never changes what a path resolves to, and joining a
  root with a path of plain names resolves below the root.
\<close>

type_synonym fpath = "string list"

definition is_rooted :: "string \<Rightarrow> bool" where
  "is_rooted s \<longleftrightarrow> has_prefix s ''/''"

text \<open>
  One component on the stack of components kept so far (last first): an empty one and a dot
  vanish, a dot-dot takes back the last real name, stays at the root of a rooted path, and is
  kept in front of a relative one.
\<close>

definition clean_step :: "bool \<Rightarrow> string \<Rightarrow> string list \<Rightarrow> string list" where
  "clean_step rooted c acc =
     (if c = [] \<or> c = ''.'' then acc
      else if c = ''..'' then
        (case acc of
           x # xs \<Rightarrow> if x \<noteq> ''..'' then xs else if rooted then acc else c # acc
         | [] \<Rightarrow> if rooted then [] else [c])
      else c # acc)"

definition clean_stack :: "bool \<Rightarrow> string list \<Rightarrow> string list \<Rightarrow> string list" where
  "clean_stack rooted cs acc = fold (clean_step rooted) cs acc"

definition fpclean :: "string \<Rightarrow> string" where
  "fpclean s =
     (if s = [] then ''.''
      else (let out = rev (clean_stack (is_rooted s) (split_on CHR ''/'' s) []) in
        if is_rooted s then ''/'' @ join_with ''/'' out
        else if out = [] then ''.'' else join_with ''/'' out))"

definition fpjoin :: "string list \<Rightarrow> string" where
  "fpjoin elems =
     (case dropWhile (\<lambda>e. e = []) elems of
        [] \<Rightarrow> []
      | es \<Rightarrow> fpclean (join_with ''/'' es))"

definition fpbase :: "string \<Rightarrow> string" where
  "fpbase s =
     (if s = [] then ''.''
      else (let t = rev (dropWhile (\<lambda>c. c = CHR ''/'') (rev s));
                b = rev (takeWhile (\<lambda>c. c \<noteq> CHR ''/'') (rev t))
            in if b = [] then ''/'' else b))"

definition fpdir :: "string \<Rightarrow> string" where
  "fpdir s = fpclean (rev (dropWhile (\<lambda>c. c \<noteq> CHR ''/'') (rev s)))"

text \<open>
  What the kernel looks up for a path string when the working directory is \<open>wd\<close> (a path
  through symbolic links is not followed: directories of the tree are real directories).
\<close>

definition resolve :: "fpath \<Rightarrow> string \<Rightarrow> fpath" where
  "resolve wd s =
     rev (clean_stack True (split_on CHR ''/'' s) (if is_rooted s then [] else rev wd))"

text \<open>A component that names a directory entry.\<close>

definition plain_name :: "string \<Rightarrow> bool" where
  "plain_name c \<longleftrightarrow> c \<noteq> [] \<and> c \<noteq> ''.'' \<and> c \<noteq> ''..'' \<and> CHR ''/'' \<notin> set c"

definition plain_path :: "fpath \<Rightarrow> bool" where
  "plain_path p \<longleftrightarrow> list_all plain_name p"

text \<open>A relative path string all of whose components name entries, such as \<open>group/repo\<close>.\<close>

definition plain_rel :: "string \<Rightarrow> bool" where
  "plain_rel s \<longleftrightarrow> plain_path (split_on CHR ''/'' s)"

section \<open>Stacks\<close>

lemma plain_path_simps [simp]:
  "plain_path []"
  "plain_path (c # cs) \<longleftrightarrow> plain_name c \<and> plain_path cs"
  "plain_path (xs @ ys) \<longleftrightarrow> plain_path xs \<and> plain_path ys"
  "plain_path (rev xs) \<longleftrightarrow> plain_path xs"
  by (auto simp: plain_path_def list_all_iff)

lemma clean_step_plain: "plain_name c \<Longrightarrow> clean_step r c acc = c # acc"
  by (auto simp: clean_step_def plain_name_def)

lemma clean_stack_simps [simp]:
  "clean_stack r [] acc = acc"
  "clean_stack r (c # cs) acc = clean_stack r cs (clean_step r c acc)"
  "clean_stack r (xs @ ys) acc = clean_stack r ys (clean_stack r xs acc)"
  by (simp_all add: clean_stack_def)

lemma clean_stack_plain: "plain_path cs \<Longrightarrow> clean_stack r cs acc = rev cs @ acc"
  by (induction cs arbitrary: acc) (auto simp: clean_step_plain)

lemma clean_step_True_plain:
  "plain_path acc \<Longrightarrow> CHR ''/'' \<notin> set c \<Longrightarrow> plain_path (clean_step True c acc)"
  by (auto simp: clean_step_def plain_name_def split: list.splits)

lemma clean_stack_True_plain:
  "plain_path acc \<Longrightarrow> \<forall>c \<in> set cs. CHR ''/'' \<notin> set c \<Longrightarrow> plain_path (clean_stack True cs acc)"
  by (induction cs arbitrary: acc) (auto intro: clean_step_True_plain)

lemma resolve_plain: "plain_path wd \<Longrightarrow> plain_path (resolve wd s)"
  unfolding resolve_def using clean_stack_True_plain split_on_no_sep by auto

text \<open>
  Cleaning a list of components and then resolving it is resolving it: the stack of a
  relative path keeps its leading dot-dots, which the resolution then consumes.
\<close>

definition kept :: "string list \<Rightarrow> bool" where
  "kept out \<longleftrightarrow> (\<forall>x \<in> set out. x \<noteq> [] \<and> x \<noteq> ''.'' \<and> CHR ''/'' \<notin> set x)"

lemma kept_step: "kept out \<Longrightarrow> CHR ''/'' \<notin> set c \<Longrightarrow> kept (clean_step r c out)"
  by (cases out) (auto simp: kept_def clean_step_def)

lemma kept_stack: "kept out \<Longrightarrow> \<forall>c \<in> set cs. CHR ''/'' \<notin> set c \<Longrightarrow> kept (clean_stack r cs out)"
  by (induction cs arbitrary: out) (auto intro: kept_step)

lemma clean_step_resolve:
  assumes "kept out"
  shows "clean_stack True (rev (clean_step False c out)) acc
       = clean_step True c (clean_stack True (rev out) acc)"
proof (cases "c = ''..''")
  case True
  show ?thesis
  proof (cases out)
    case Nil
    with True show ?thesis by (simp add: clean_step_def)
  next
    case (Cons x xs)
    with assms True show ?thesis
      by (cases "x = ''..''") (auto simp: clean_step_def kept_def)
  qed
next
  case False
  then show ?thesis by (auto simp: clean_step_def)
qed

lemma clean_stack_resolve:
  assumes "kept out" and "\<forall>c \<in> set cs. CHR ''/'' \<notin> set c"
  shows "clean_stack True (rev (clean_stack False cs out)) acc
       = clean_stack True cs (clean_stack True (rev out) acc)"
  using assms
proof (induction cs arbitrary: out)
  case Nil
  then show ?case by simp
next
  case (Cons c cs)
  then have "kept (clean_step False c out)" by (simp add: kept_step)
  with Cons show ?case by (simp add: clean_step_resolve)
qed

lemma clean_stack_rooted_idem:
  assumes "plain_path acc" "\<forall>c \<in> set cs. CHR ''/'' \<notin> set c"
  shows "clean_stack True (rev (clean_stack True cs acc)) [] = clean_stack True cs acc"
  using clean_stack_plain [of "rev (clean_stack True cs acc)" True "[]"] clean_stack_True_plain [OF assms]
  by simp

section \<open>Resolution of cleaned and joined paths\<close>

lemma is_rooted_simps [simp]:
  "\<not> is_rooted []"
  "is_rooted (c # s) \<longleftrightarrow> c = CHR ''/''"
  by (auto simp: is_rooted_def has_prefix_def)

lemma is_rooted_append: "s \<noteq> [] \<Longrightarrow> is_rooted (s @ t) = is_rooted s"
  by (cases s) auto

lemma split_slash_no_slash: "\<forall>c \<in> set (split_on CHR ''/'' s). CHR ''/'' \<notin> set c"
  using split_on_no_sep by blast

lemma split_join_slash:
  "kept out \<Longrightarrow> split_on CHR ''/'' (join_with ''/'' out) = (if out = [] then [[]] else out)"
  using split_join [of out "CHR ''/''"] by (auto simp: kept_def)

lemma not_rooted_join: "kept out \<Longrightarrow> \<not> is_rooted (join_with ''/'' out)"
proof (cases out rule: remdups_adj.cases)
  case (2 x)
  then show "kept out \<Longrightarrow> ?thesis" by (cases x) (auto simp: kept_def)
next
  case (3 x y xs)
  then show "kept out \<Longrightarrow> ?thesis" by (cases x) (auto simp: kept_def)
qed simp

lemma resolve_clean:
  assumes "s \<noteq> []"
  shows "resolve wd (fpclean s) = resolve wd s"
proof (cases "is_rooted s")
  case True
  let ?out = "clean_stack True (split_on CHR ''/'' s) []"
  have kept: "kept (rev ?out)"
    using kept_stack [of "[]" "split_on CHR ''/'' s" True] split_slash_no_slash by (simp add: kept_def)
  have c: "fpclean s = CHR ''/'' # join_with ''/'' (rev ?out)"
    using assms True by (simp add: fpclean_def Let_def)
  have "split_on CHR ''/'' (fpclean s) = [] # (if ?out = [] then [[]] else rev ?out)"
    using c split_join_slash [OF kept] by simp
  then have "resolve wd (fpclean s) = rev (clean_stack True (rev ?out) [])"
    using c by (simp add: resolve_def clean_step_def)
  also have "\<dots> = rev ?out"
    using clean_stack_rooted_idem [of "[]" "split_on CHR ''/'' s"] split_slash_no_slash by simp
  finally show ?thesis using True by (simp add: resolve_def)
next
  case False
  let ?out = "clean_stack False (split_on CHR ''/'' s) []"
  have kept: "kept (rev ?out)"
    using kept_stack [of "[]" "split_on CHR ''/'' s" False] split_slash_no_slash by (simp add: kept_def)
  have c: "fpclean s = (if ?out = [] then ''.'' else join_with ''/'' (rev ?out))"
    using assms False by (simp add: fpclean_def Let_def)
  have "\<not> is_rooted (fpclean s)" using c not_rooted_join [OF kept] by simp
  then have "resolve wd (fpclean s) = rev (clean_stack True (rev ?out) (rev wd))"
    using c split_join_slash [OF kept] by (simp add: resolve_def clean_step_def)
  also have "\<dots> = rev (clean_stack True (split_on CHR ''/'' s) (rev wd))"
    using clean_stack_resolve [of "[]" "split_on CHR ''/'' s"] split_slash_no_slash by (simp add: kept_def)
  finally show ?thesis using False by (simp add: resolve_def)
qed

lemma resolve_Nil [simp]: "resolve wd [] = wd"
  by (simp add: resolve_def clean_step_def)

text \<open>Joining a relative path to a root resolves it from where the root resolves to.\<close>

lemma resolve_fpjoin2:
  assumes "r \<noteq> []" and "\<not> is_rooted r"
  shows "resolve wd (fpjoin [d, r]) = rev (clean_stack True (split_on CHR ''/'' r) (rev (resolve wd d)))"
proof (cases "d = []")
  case True
  with assms show ?thesis by (simp add: fpjoin_def resolve_clean) (simp add: resolve_def)
next
  case False
  then have "resolve wd (fpjoin [d, r]) = resolve wd (d @ ''/'' @ r)"
    using resolve_clean [of "d @ ''/'' @ r"] by (simp add: fpjoin_def)
  with False show ?thesis
    by (simp add: resolve_def split_on_append is_rooted_append)
qed

lemma plain_rel_simps:
  assumes "plain_rel r"
  shows "r \<noteq> []" and "\<not> is_rooted r"
proof -
  show "r \<noteq> []" using assms by (auto simp: plain_rel_def plain_name_def)
  show "\<not> is_rooted r" using assms by (cases r) (auto simp: plain_rel_def plain_name_def split: if_splits)
qed

lemma resolve_fpjoin_plain:
  assumes "plain_rel r"
  shows "resolve wd (fpjoin [d, r]) = resolve wd d @ split_on CHR ''/'' r"
  using resolve_fpjoin2 [OF plain_rel_simps [OF assms]] assms
  by (simp add: plain_rel_def clean_stack_plain)

lemma plain_rel_single: "plain_name c \<Longrightarrow> plain_rel c"
  by (simp add: plain_rel_def plain_name_def split_on_free)

lemma resolve_fpjoin_name:
  "plain_name c \<Longrightarrow> resolve wd (fpjoin [d, c]) = resolve wd d @ [c]"
  using resolve_fpjoin_plain [OF plain_rel_single, of c wd d] by (simp add: plain_name_def split_on_free)

text \<open>Adding an extension to a plain relative path only changes its last component.\<close>

lemma plain_name_append: "plain_name c \<Longrightarrow> CHR ''/'' \<notin> set e \<Longrightarrow> length e > 2 \<Longrightarrow> plain_name (c @ e)"
  by (auto simp: plain_name_def append_eq_Cons_conv)

lemma split_on_ext:
  assumes "CHR ''/'' \<notin> set e"
  shows "split_on CHR ''/'' (r @ e) = butlast (split_on CHR ''/'' r) @ [last (split_on CHR ''/'' r) @ e]"
  by (rule split_on_append_free [OF assms])

lemma plain_rel_ext:
  assumes "plain_rel r" and "CHR ''/'' \<notin> set e" and "length e > 2"
  shows "plain_rel (r @ e)"
proof -
  have "split_on CHR ''/'' r = butlast (split_on CHR ''/'' r) @ [last (split_on CHR ''/'' r)]" by simp
  with assms(1) have "plain_path (butlast (split_on CHR ''/'' r))" "plain_name (last (split_on CHR ''/'' r))"
    unfolding plain_rel_def by (metis plain_path_simps(2,3))+
  then show ?thesis
    using assms(2,3) by (simp add: plain_rel_def split_on_ext plain_name_append)
qed


section \<open>Directories and their siblings\<close>

text \<open>A path string whose last component names an entry, as every mirror directory's does.\<close>

definition proper_dir :: "string \<Rightarrow> bool" where
  "proper_dir d \<longleftrightarrow> plain_name (last (split_on CHR ''/'' d))"

lemma resolve_last:
  assumes "proper_dir d"
  obtains R where "\<And>e. CHR ''/'' \<notin> set e \<Longrightarrow> e = [] \<or> length e > 2 \<Longrightarrow>
      resolve wd (d @ e) = R @ [last (split_on CHR ''/'' d) @ e]"
proof
  let ?l = "last (split_on CHR ''/'' d)"
  fix e :: string assume e: "CHR ''/'' \<notin> set e" "e = [] \<or> length e > 2"
  have pl: "plain_name (?l @ e)" using assms e plain_name_append by (auto simp: proper_dir_def)
  have "d \<noteq> []" using assms by (auto simp: proper_dir_def plain_name_def)
  then show "resolve wd (d @ e) =
      rev (clean_stack True (butlast (split_on CHR ''/'' d)) (if is_rooted d then [] else rev wd)) @ [?l @ e]"
    using split_on_ext [OF e(1), of d] by (simp add: resolve_def is_rooted_append clean_step_plain [OF pl])
qed

lemma proper_dir_not_root: "proper_dir d \<Longrightarrow> resolve wd d \<noteq> []"
  using resolve_last [of d wd "resolve wd d \<noteq> []"] by (metis append_is_Nil_conv append_self_conv empty_iff list.set(1) not_Cons_self2)

lemma sibling_parallel:
  assumes "proper_dir d" "CHR ''/'' \<notin> set e" "length e > 2"
  shows "resolve wd d \<parallel> resolve wd (d @ e)"
proof -
  obtain R where R: "\<And>e. CHR ''/'' \<notin> set e \<Longrightarrow> e = [] \<or> length e > 2 \<Longrightarrow>
      resolve wd (d @ e) = R @ [last (split_on CHR ''/'' d) @ e]"
    using resolve_last [OF assms(1)] by blast
  have "resolve wd d = R @ [last (split_on CHR ''/'' d)]" using R [of "[]"] by simp
  moreover have "e \<noteq> []" using assms(3) by auto
  ultimately show ?thesis using R [OF assms(2)] assms(3) by (auto simp: parallel_def)
qed

text \<open>Joining and cleaning keep a plain last component last.\<close>

lemma split_fpclean_last:
  assumes "s \<noteq> []" "plain_name (last (split_on CHR ''/'' s))"
  shows "last (split_on CHR ''/'' (fpclean s)) = last (split_on CHR ''/'' s)"
proof -
  let ?l = "last (split_on CHR ''/'' s)" and ?b = "is_rooted s"
  let ?st = "clean_stack ?b (split_on CHR ''/'' s) []"
  have "split_on CHR ''/'' s = butlast (split_on CHR ''/'' s) @ [?l]" by simp
  then have st: "?st = ?l # clean_stack ?b (butlast (split_on CHR ''/'' s)) []"
    by (metis assms(2) clean_stack_simps(1,2,3) clean_step_plain)
  have kept: "kept (rev ?st)"
    using kept_stack [of "[]" "split_on CHR ''/'' s" ?b] split_slash_no_slash by (simp add: kept_def)
  have "split_on CHR ''/'' (fpclean s) = (if ?b then [[]] else []) @ rev ?st"
    using assms(1) st split_join_slash [OF kept] by (auto simp: fpclean_def Let_def)
  then show ?thesis using st by simp
qed

lemma proper_dir_fpjoin:
  assumes "plain_name (last (split_on CHR ''/'' r))"
  shows "proper_dir (fpjoin [d, r])" and "last (split_on CHR ''/'' (fpjoin [d, r])) = last (split_on CHR ''/'' r)"
proof -
  have "r \<noteq> []" using assms by (auto simp: plain_name_def)
  then show *: "last (split_on CHR ''/'' (fpjoin [d, r])) = last (split_on CHR ''/'' r)"
    using assms split_fpclean_last [of r] split_fpclean_last [of "d @ ''/'' @ r"]
    by (simp add: fpjoin_def split_on_append)
  then show "proper_dir (fpjoin [d, r])" using assms by (simp add: proper_dir_def)
qed

lemma parallel_not_prefix: "a \<parallel> b \<Longrightarrow> \<not> prefix b (a @ q)" "a \<parallel> b \<Longrightarrow> \<not> prefix a (b @ q)"
  using prefix_same_cases [of a "a @ q" b] prefix_same_cases [of a "b @ q" b] by auto

lemma dropWhile_append_free: "\<forall>x \<in> set xs. P x \<Longrightarrow> ys = [] \<or> \<not> P (hd ys) \<Longrightarrow> takeWhile P (xs @ ys) = xs"
  by (induction xs) (cases ys, auto)

lemma last_split: "rev (takeWhile (\<lambda>c. c \<noteq> CHR ''/'') (rev s)) = last (split_on CHR ''/'' s)"
proof (induction s)
  case (Cons x s)
  show ?case
  proof (cases "CHR ''/'' \<in> set s")
    case True
    then have "takeWhile (\<lambda>c. c \<noteq> CHR ''/'') (rev s @ [x]) = takeWhile (\<lambda>c. c \<noteq> CHR ''/'') (rev s)"
      by (intro takeWhile_append1 [where x = "CHR ''/''"]) auto
    moreover obtain w v ws where "split_on CHR ''/'' s = w # v # ws"
    proof -
      obtain us vs where "s = us @ CHR ''/'' # vs" using True by (auto simp: in_set_conv_decomp)
      then have "length (split_on CHR ''/'' s) \<ge> 2"
        by (cases "split_on CHR ''/'' us"; cases "split_on CHR ''/'' vs") (simp_all add: split_on_append)
      then show ?thesis using that by (cases "split_on CHR ''/'' s" rule: remdups_adj.cases) auto
    qed
    ultimately show ?thesis using Cons by auto
  next
    case False
    then have "takeWhile (\<lambda>c. c \<noteq> CHR ''/'') (rev s) = rev s" by (auto simp: takeWhile_eq_all_conv)
    with False show ?thesis by (auto simp: split_on_free takeWhile_append)
  qed
qed simp

lemma fpbase_last:
  assumes "plain_name (last (split_on CHR ''/'' s))"
  shows "fpbase s = last (split_on CHR ''/'' s)"
proof -
  let ?l = "last (split_on CHR ''/'' s)"
  have l: "?l \<noteq> []" using assms by (simp add: plain_name_def)
  then have "takeWhile (\<lambda>c. c \<noteq> CHR ''/'') (rev s) \<noteq> []" by (simp add: last_split [symmetric])
  then obtain c cs where s: "rev s = c # cs" "c \<noteq> CHR ''/''" by (cases "rev s") (auto split: if_splits)
  then have "dropWhile (\<lambda>c. c = CHR ''/'') (rev s) = rev s" by simp
  moreover have "s \<noteq> []" using s by auto
  ultimately show ?thesis using l by (simp add: fpbase_def Let_def last_split)
qed

end
