(* ===== verification/FileSystem.thy ===== *)
theory FileSystem
  imports GoPath
begin

text \<open>
  The operating system the program runs on, as an explicit state: a tree of directories,
  files and symbolic links, the environment of the process, the commands it started and
  what it logged and printed. Every system call may fail: which ones do is a parameter of
  the machine (\<open>m_fault\<close>), so a theorem about the program holds for every pattern of
  failures, a full disk in the middle of a write and a directory that cannot be deleted
  included. The operations are the ones of Go's \<open>os\<close> package the program calls.
\<close>

section \<open>Errors\<close>

datatype oserr = ENOENT | EEXIST | ENOTDIR | EISDIR | ENOTEMPTY | EACCES | ENOSPC | EIO

text \<open>
  Go's error values: the sentinels of the program, the errors of what it calls, and
  \<open>fmt.Errorf("context: %w", err)\<close> as \<open>Wrap\<close>.
\<close>

datatype err =
    OsErr oserr
  | ErrMissingToken string
  | ErrAmbiguousToken
  | ErrTokenCommandFailed string
  | UnknownKindError string
  | ErrGitNotFound
  | ErrGitLFSNotFound
  | ErrBadMetadataKind string
  | ErrReleaseAssetTooLarge
  | ErrBadState string
  | ErrBadArchive string
  | ErrConfigRequired
  | ErrDestRequired
  | ErrConfigInitWritten
  | ErrConfigExists
  | ErrUnexpectedStatus int
  | ErrUnauthenticatedRedirect
  | ErrMissingRepoScope
  | ExitError nat
  | NotStarted
  | TransportError
  | DecodeError
  | UrlError
  | YamlError
  | EnvError
  | ReadError
  | Wrap string err

text \<open>\<open>errors.Is(err, target)\<close>: some error of the chain is the target.\<close>

fun err_is :: "err \<Rightarrow> err \<Rightarrow> bool" where
  "err_is (Wrap c e) t = (Wrap c e = t \<or> err_is e t)"
| "err_is e t = (e = t)"

section \<open>The state\<close>

datatype node = Dir | File string | Symlink string

text \<open>What a directory entry carries besides its content: what \<open>Lstat\<close> reports.\<close>

record attrs =
  a_mode :: nat
  a_mtime :: int
  a_uid :: nat
  a_gid :: nat
  a_uname :: string
  a_gname :: string

datatype syscall =
    SysStat fpath
  | SysReadDir fpath
  | SysMkdir fpath
  | SysUnlink fpath
  | SysRename fpath fpath
  | SysOpen fpath
  | SysWrite fpath
  | SysClose fpath
  | SysRead fpath
  | SysMkdirTemp

record machine =
  m_wd :: fpath
  m_environ :: "string list"
  m_lookpath :: "string \<Rightarrow> string option"
  m_attr :: "fpath \<Rightarrow> attrs"
  m_fault :: "syscall \<Rightarrow> oserr option"
  m_short :: "fpath \<Rightarrow> nat"
  m_stdin :: "err + string"

datatype level = LDebug | LInfo | LWarn | LError

text \<open>The levels of \<open>slog\<close> are ordered by severity.\<close>

fun severity :: "level \<Rightarrow> int" where
  "severity LDebug = -4"
| "severity LInfo = 0"
| "severity LWarn = 4"
| "severity LError = 8"

lemma severity_inject: "severity a = severity b \<longleftrightarrow> a = b"
  by (cases a; cases b) simp_all

instantiation level :: linorder
begin

definition less_eq_level :: "level \<Rightarrow> level \<Rightarrow> bool" where
  "less_eq_level a b \<longleftrightarrow> severity a \<le> severity b"

definition less_level :: "level \<Rightarrow> level \<Rightarrow> bool" where
  "less_level a b \<longleftrightarrow> severity a < severity b"

instance
  by standard (auto simp: less_eq_level_def less_level_def severity_inject [symmetric])

end

record logline =
  l_level :: level
  l_msg :: string
  l_path :: string

record command =
  c_prog :: string
  c_args :: "string list"
  c_dir :: string
  c_env :: "string list"

text \<open>An HTTP GET request the program sends, with the headers it sets.\<close>

record request =
  rq_url :: string
  rq_headers :: "(string \<times> string) list"

record os =
  os_tree :: "(fpath \<times> node) list"
  os_logs :: "logline list"
  os_out :: "string list"
  os_execs :: "command list"
  os_requests :: "request list"
  os_mach :: machine

definition look :: "os \<Rightarrow> fpath \<Rightarrow> node option" where
  "look s p = (if p = [] then Some Dir else map_of (os_tree s) p)"

definition fault :: "os \<Rightarrow> syscall \<Rightarrow> oserr option" where
  "fault s c = m_fault (os_mach s) c"

definition at_path :: "os \<Rightarrow> string \<Rightarrow> fpath" where
  "at_path s p = resolve (m_wd (os_mach s)) p"

definition put :: "fpath \<Rightarrow> node \<Rightarrow> os \<Rightarrow> os" where
  "put p n s = s\<lparr>os_tree := (p, n) # os_tree s\<rparr>"

definition keep :: "(fpath \<Rightarrow> bool) \<Rightarrow> os \<Rightarrow> os" where
  "keep P s = s\<lparr>os_tree := filter (\<lambda>e. P (fst e)) (os_tree s)\<rparr>"

definition log_at :: "level \<Rightarrow> string \<Rightarrow> string \<Rightarrow> os \<Rightarrow> os" where
  "log_at l m p s = s\<lparr>os_logs := os_logs s @ [\<lparr>l_level = l, l_msg = m, l_path = p\<rparr>]\<rparr>"

definition print :: "string \<Rightarrow> os \<Rightarrow> os" where
  "print line s = s\<lparr>os_out := os_out s @ [line]\<rparr>"

section \<open>System calls\<close>

text \<open>An absent path fails with ENOTDIR when something above it is not a directory.\<close>

definition absent_err :: "os \<Rightarrow> fpath \<Rightarrow> oserr" where
  "absent_err s p =
     (if list_ex (\<lambda>q. look s q \<noteq> None \<and> look s q \<noteq> Some Dir) (butlast (prefixes p)) then ENOTDIR else ENOENT)"

definition sys_stat :: "fpath \<Rightarrow> os \<Rightarrow> oserr + node" where
  "sys_stat p s =
     (case fault s (SysStat p) of
        Some e \<Rightarrow> Inl e
      | None \<Rightarrow> (case look s p of Some n \<Rightarrow> Inr n | None \<Rightarrow> Inl (absent_err s p)))"

text \<open>\<open>os.MkdirAll\<close>: every missing prefix becomes a directory.\<close>

definition sys_mkdir_all :: "fpath \<Rightarrow> os \<Rightarrow> (oserr + unit) \<times> os" where
  "sys_mkdir_all p s =
     (case fault s (SysMkdir p) of
        Some e \<Rightarrow> (Inl e, s)
      | None \<Rightarrow>
          if list_ex (\<lambda>q. look s q \<noteq> None \<and> look s q \<noteq> Some Dir) (prefixes p) then (Inl ENOTDIR, s)
          else (Inr (), s\<lparr>os_tree := map (\<lambda>q. (q, Dir)) (filter (\<lambda>q. look s q = None) (prefixes p)) @ os_tree s\<rparr>))"

text \<open>The entries at and below a path.\<close>

definition below :: "fpath \<Rightarrow> os \<Rightarrow> fpath list" where
  "below p s = filter (prefix p) (map fst (os_tree s))"

text \<open>
  \<open>os.RemoveAll\<close>: removes everything it can at and below the path; an entry whose removal
  fails stays, and so do the directories above it. Nothing there is not an error, unless the
  path leads through something that is not a directory.
\<close>

definition sys_remove_all :: "fpath \<Rightarrow> os \<Rightarrow> (oserr + unit) \<times> os" where
  "sys_remove_all p s =
     (let stuck = filter (\<lambda>q. fault s (SysUnlink q) \<noteq> None) (below p s)
      in (case stuck of
            [] \<Rightarrow> if below p s = [] \<and> absent_err s p = ENOTDIR then Inl ENOTDIR else Inr ()
          | q # _ \<Rightarrow> Inl (case fault s (SysUnlink q) of Some e \<Rightarrow> e | None \<Rightarrow> EIO),
          keep (\<lambda>q. \<not> prefix p q \<or> list_ex (prefix q) stuck) s))"

text \<open>\<open>os.Remove\<close>: a file, a link or an empty directory.\<close>

definition sys_remove :: "fpath \<Rightarrow> os \<Rightarrow> (oserr + unit) \<times> os" where
  "sys_remove p s =
     (case look s p of
        None \<Rightarrow> (Inl (absent_err s p), s)
      | Some _ \<Rightarrow>
          (case fault s (SysUnlink p) of
             Some e \<Rightarrow> (Inl e, s)
           | None \<Rightarrow>
               if list_ex (strict_prefix p) (below p s) then (Inl ENOTEMPTY, s)
               else (Inr (), keep (\<lambda>q. q \<noteq> p) s)))"

text \<open>
  \<open>os.Rename\<close>: refuses an existing directory as the target; otherwise everything at and
  below the old path moves to the new one.
\<close>

definition sys_rename :: "fpath \<Rightarrow> fpath \<Rightarrow> os \<Rightarrow> (oserr + unit) \<times> os" where
  "sys_rename p q s =
     (case look s p of
        None \<Rightarrow> (Inl (absent_err s p), s)
      | Some n \<Rightarrow>
          (case fault s (SysRename p q) of
             Some e \<Rightarrow> (Inl e, s)
           | None \<Rightarrow>
               if look s q = Some Dir then (Inl EEXIST, s)
               else if look s (butlast q) \<noteq> Some Dir then (Inl (absent_err s q), s)
               else if n = Dir \<and> look s q \<noteq> None then (Inl ENOTDIR, s)
               else if prefix p q then (Inl EIO, s)
               else (Inr (), s\<lparr>os_tree :=
                   map (\<lambda>(r, m). (q @ drop (length p) r, m)) (filter (\<lambda>e. prefix p (fst e)) (os_tree s))
                   @ filter (\<lambda>e. \<not> prefix p (fst e) \<and> \<not> prefix q (fst e)) (os_tree s)\<rparr>)))"

text \<open>
  Creating or truncating a file and writing it: the open can fail (nothing changes), the
  write can fail part of the way (the first \<open>m_short\<close> bytes are there), the close can fail
  (everything is there).
\<close>

definition sys_write_file :: "fpath \<Rightarrow> string \<Rightarrow> os \<Rightarrow> (oserr + unit) \<times> os" where
  "sys_write_file p d s =
     (if look s p = Some Dir then (Inl EISDIR, s)
      else if look s (butlast p) \<noteq> Some Dir then (Inl (absent_err s p), s)
      else (case fault s (SysOpen p) of
         Some e \<Rightarrow> (Inl e, s)
       | None \<Rightarrow>
           (case fault s (SysWrite p) of
              Some e \<Rightarrow> (Inl e, put p (File (take (m_short (os_mach s) p) d)) s)
            | None \<Rightarrow>
                (case fault s (SysClose p) of
                   Some e \<Rightarrow> (Inl e, put p (File d) s)
                 | None \<Rightarrow> (Inr (), put p (File d) s)))))"

text \<open>
  The same in two steps, for a file that is created first and filled as its content is
  produced: \<open>sys_create\<close> leaves it empty, \<open>sys_fill\<close> writes the rest and closes it.
\<close>

definition sys_create :: "fpath \<Rightarrow> os \<Rightarrow> (oserr + unit) \<times> os" where
  "sys_create p s =
     (if look s p = Some Dir then (Inl EISDIR, s)
      else if look s (butlast p) \<noteq> Some Dir then (Inl (absent_err s p), s)
      else (case fault s (SysOpen p) of
         Some e \<Rightarrow> (Inl e, s)
       | None \<Rightarrow> (Inr (), put p (File []) s)))"

definition sys_fill :: "fpath \<Rightarrow> string \<Rightarrow> os \<Rightarrow> (oserr + unit) \<times> os" where
  "sys_fill p d s =
     (case fault s (SysWrite p) of
        Some e \<Rightarrow> (Inl e, put p (File (take (m_short (os_mach s) p) d)) s)
      | None \<Rightarrow>
          (case fault s (SysClose p) of
             Some e \<Rightarrow> (Inl e, put p (File d) s)
           | None \<Rightarrow> (Inr (), put p (File d) s)))"

text \<open>\<open>os.MkdirTemp(\<dots>)\<close>: a fresh directory below the temporary directory.\<close>

definition sys_mkdir_temp :: "fpath \<Rightarrow> string \<Rightarrow> os \<Rightarrow> (oserr + fpath) \<times> os" where
  "sys_mkdir_temp tmp name s =
     (case fault s SysMkdirTemp of
        Some e \<Rightarrow> (Inl e, s)
      | None \<Rightarrow>
          if look s tmp \<noteq> Some Dir then (Inl (absent_err s (tmp @ [name])), s)
          else (case find (\<lambda>p. look s p = None \<and> below p s = [])
                       (map (\<lambda>n. tmp @ [name @ show_nat n]) [0..<Suc (length (os_tree s))]) of
             Some p \<Rightarrow> (Inr p, put p Dir s)
           | None \<Rightarrow> (Inl EEXIST, s)))"


section \<open>Lookups after each operation\<close>

lemma map_of_filter_key: "map_of (filter (\<lambda>e. P (fst e)) xs) q = (if P q then map_of xs q else None)"
  by (induction xs) auto

lemma look_Nil [simp]: "look s [] = Some Dir"
  by (simp add: look_def)

lemma look_put [simp]: "p \<noteq> [] \<Longrightarrow> look (put p n s) q = (if q = p then Some n else look s q)"
  by (simp add: look_def put_def)

lemma look_put_Nil [simp]: "look (put [] n s) = look s"
  by (auto simp: look_def put_def fun_eq_iff)

lemma look_keep [simp]: "look (keep P s) q = (if q = [] \<or> P q then look s q else None)"
  by (simp add: look_def keep_def map_of_filter_key)

lemma mach_simps [simp]:
  "os_mach (put p n s) = os_mach s"
  "os_mach (keep P s) = os_mach s"
  "os_mach (log_at l m x s) = os_mach s"
  "os_mach (print line s) = os_mach s"
  by (simp_all add: put_def keep_def log_at_def print_def)

lemma fault_simps [simp]:
  "fault (put p n s) c = fault s c"
  "fault (keep P s) c = fault s c"
  "fault (s\<lparr>os_tree := t\<rparr>) c = fault s c"
  by (simp_all add: fault_def)

lemma look_effects [simp]:
  "look (log_at l m x s) = look s"
  "look (print line s) = look s"
  "look (s\<lparr>os_execs := xs\<rparr>) = look s"
  "look (s\<lparr>os_logs := ls\<rparr>) = look s"
  "look (s\<lparr>os_requests := rs\<rparr>) = look s"
  by (auto simp: look_def log_at_def print_def fun_eq_iff)

lemma at_path_cong: "os_mach s' = os_mach s \<Longrightarrow> at_path s' p = at_path s p"
  by (simp add: at_path_def)

lemma at_path_effects [simp]:
  "at_path (log_at l m x s) p = at_path s p"
  "at_path (print line s) p = at_path s p"
  "at_path (put q n s) p = at_path s p"
  "at_path (keep P s) p = at_path s p"
  by (simp_all add: at_path_def)

lemma in_below: "q \<in> set (below p s) \<longleftrightarrow> prefix p q \<and> q \<in> fst ` set (os_tree s)"
  by (auto simp: below_def)

lemma look_in_tree: "p \<noteq> [] \<Longrightarrow> look s p \<noteq> None \<longleftrightarrow> p \<in> fst ` set (os_tree s)"
  by (simp add: look_def map_of_eq_None_iff)

lemma mkdir_all_ok:
  assumes "sys_mkdir_all p s = (Inr u, s')"
  shows "look s' q = (if prefix q p then Some Dir else look s q)"
proof -
  have all: "\<forall>q. prefix q p \<longrightarrow> look s q = None \<or> look s q = Some Dir"
    using assms by (auto simp: sys_mkdir_all_def list_ex_iff split: option.splits if_splits)
  have s': "s' = s\<lparr>os_tree := map (\<lambda>q. (q, Dir)) (filter (\<lambda>q. look s q = None) (prefixes p)) @ os_tree s\<rparr>"
    using assms by (auto simp: sys_mkdir_all_def split: option.splits if_splits)
  have m: "map_of (map (\<lambda>q. (q, Dir)) xs) q = (if q \<in> set xs then Some Dir else None)" for xs
    by (induction xs) auto
  show ?thesis
    using all unfolding s' look_def by (auto simp: m map_add_def look_def split: option.splits if_splits)
qed

lemma mkdir_all_mach [simp]: "sys_mkdir_all p s = (r, s') \<Longrightarrow> os_mach s' = os_mach s"
  by (auto simp: sys_mkdir_all_def split: option.splits if_splits)

lemma mkdir_all_err: "sys_mkdir_all p s = (Inl e, s') \<Longrightarrow> s' = s"
  by (auto simp: sys_mkdir_all_def split: option.splits if_splits)

lemma rename_err: "sys_rename p q s = (Inl e, s') \<Longrightarrow> s' = s"
  by (auto simp: sys_rename_def split: option.splits if_splits)

lemma map_of_move:
  "map_of (map (\<lambda>(r, m). (q @ drop (length p) r, m)) (filter (\<lambda>e. prefix p (fst e)) t)) r
   = (if prefix q r then map_of t (p @ drop (length q) r) else None)"
  by (induction t) (auto simp: prefix_def)

lemma rename_ok:
  assumes "sys_rename p q s = (Inr u, s')"
  shows "look s' r = (if prefix q r then look s (p @ drop (length q) r)
                      else if prefix p r then None else look s r)"
    and "look s p \<noteq> None" and "\<not> prefix p q" and "look s q \<noteq> Some Dir"
    and "look s (butlast q) = Some Dir" and "look s p = Some Dir \<Longrightarrow> look s q = None"
proof -
  show *: "look s p \<noteq> None" "\<not> prefix p q" "look s q \<noteq> Some Dir" "look s (butlast q) = Some Dir"
    "look s p = Some Dir \<Longrightarrow> look s q = None"
    using assms by (auto simp: sys_rename_def split: option.splits if_splits)
  have s': "s' = s\<lparr>os_tree :=
      map (\<lambda>(r, m). (q @ drop (length p) r, m)) (filter (\<lambda>e. prefix p (fst e)) (os_tree s))
      @ filter (\<lambda>e. \<not> prefix p (fst e) \<and> \<not> prefix q (fst e)) (os_tree s)\<rparr>"
    using assms by (auto simp: sys_rename_def split: option.splits if_splits)
  have "p \<noteq> []" using * by auto
  moreover have "q \<noteq> []" using * by auto
  ultimately show "look s' r = (if prefix q r then look s (p @ drop (length q) r)
                      else if prefix p r then None else look s r)"
    unfolding s' look_def
    by (auto simp: map_of_move map_add_def map_of_filter_key split: option.splits)
       (auto simp: map_of_filter_key [where P = "\<lambda>e. \<not> prefix p e \<and> \<not> prefix q e"])
qed

lemma rename_mach [simp]: "sys_rename p q s = (r, s') \<Longrightarrow> os_mach s' = os_mach s"
  by (auto simp: sys_rename_def split: option.splits if_splits)

lemma write_file_look:
  assumes "sys_write_file p d s = (r, s')"
  shows "q \<noteq> p \<Longrightarrow> look s' q = look s q"
    and "r = Inr u \<Longrightarrow> look s' p = Some (File d)"
    and "os_mach s' = os_mach s"
    and "s' = s \<or> (look s p \<noteq> Some Dir \<and> look s (butlast p) = Some Dir \<and> (\<exists>c. s' = put p (File c) s))"
proof -
  have p: "look s p \<noteq> Some Dir \<Longrightarrow> p \<noteq> []" by auto
  show "q \<noteq> p \<Longrightarrow> look s' q = look s q"
    using assms p by (auto simp: sys_write_file_def split: if_splits option.splits)
  show "os_mach s' = os_mach s"
    using assms by (auto simp: sys_write_file_def split: if_splits option.splits)
  show "s' = s \<or> (look s p \<noteq> Some Dir \<and> look s (butlast p) = Some Dir \<and> (\<exists>c. s' = put p (File c) s))"
    using assms by (auto simp: sys_write_file_def split: if_splits option.splits)
  show "r = Inr u \<Longrightarrow> look s' p = Some (File d)"
  proof -
    assume "r = Inr u"
    with assms have "look s p \<noteq> Some Dir" "s' = put p (File d) s"
      by (auto simp: sys_write_file_def split: if_splits option.splits)
    with p show ?thesis by simp
  qed
qed

lemma remove_ok:
  "sys_remove p s = (Inr u, s') \<Longrightarrow> p \<noteq> [] \<Longrightarrow> look s' q = (if q = p then None else look s q)"
  by (auto simp: sys_remove_def split: option.splits if_splits)

lemma remove_err: "sys_remove p s = (Inl e, s') \<Longrightarrow> s' = s"
  by (auto simp: sys_remove_def split: option.splits if_splits)

lemma remove_all_ok:
  assumes "sys_remove_all p s = (Inr u, s')" and "p \<noteq> []"
  shows "look s' q = (if prefix p q then None else look s q)"
proof -
  have "filter (\<lambda>q. fault s (SysUnlink q) \<noteq> None) (below p s) = []"
    using assms(1) by (auto simp: sys_remove_all_def Let_def split: list.splits)
  then have "s' = keep (\<lambda>q. \<not> prefix p q) s" using assms(1) by (simp add: sys_remove_all_def)
  with assms(2) show ?thesis by simp
qed

lemma remove_all_subset:
  "sys_remove_all p s = (r, s') \<Longrightarrow> look s' q = look s q \<or> (prefix p q \<and> look s' q = None)"
  by (auto simp: sys_remove_all_def Let_def split: if_splits)

section \<open>Confinement: what an operation may touch\<close>

text \<open>
  \<open>confined A s s'\<close>: from \<open>s\<close> to \<open>s'\<close>, nothing changed except at and below the paths of
  \<open>A\<close>, but for directories that were created where nothing was.
\<close>

definition confined :: "fpath set \<Rightarrow> os \<Rightarrow> os \<Rightarrow> bool" where
  "confined A s s' \<longleftrightarrow> os_mach s' = os_mach s \<and>
     (\<forall>q. (\<forall>p \<in> A. \<not> prefix p q) \<longrightarrow>
        look s' q = look s q \<or> (look s q = None \<and> look s' q = Some Dir))"

definition unchanged_but :: "fpath \<Rightarrow> os \<Rightarrow> os \<Rightarrow> bool" where
  "unchanged_but p s s' \<longleftrightarrow> (\<forall>q. q \<noteq> p \<longrightarrow> look s' q = look s q)"

lemma confined_refl [simp]: "confined A s s"
  by (simp add: confined_def)

lemma confined_trans: "confined A s s' \<Longrightarrow> confined A s' s'' \<Longrightarrow> confined A s s''"
  unfolding confined_def by (metis option.distinct(1))

lemma confined_mono: "confined A s s' \<Longrightarrow> \<forall>p \<in> A. \<exists>p' \<in> B. prefix p' p \<Longrightarrow> confined B s s'"
  unfolding confined_def by (meson prefix_order.trans)

lemma confined_subset: "confined A s s' \<Longrightarrow> A \<subseteq> B \<Longrightarrow> confined B s s'"
  unfolding confined_def by blast

lemma confined_mach: "confined A s s' \<Longrightarrow> os_mach s' = os_mach s"
  by (simp add: confined_def)

lemma confined_at: "confined A s s' \<Longrightarrow> at_path s' p = at_path s p"
  by (rule at_path_cong [OF confined_mach])

lemma confined_keeps:
  "confined A s s' \<Longrightarrow> look s q = Some n \<Longrightarrow> \<forall>p \<in> A. \<not> prefix p q \<Longrightarrow> look s' q = Some n"
  unfolding confined_def by (metis option.distinct(1))

lemma confined_effects [simp]:
  "confined A s (log_at l m x s') = confined A s s'"
  "confined A s (print line s') = confined A s s'"
  "confined A s (s'\<lparr>os_execs := xs\<rparr>) = confined A s s'"
  "confined A s (s'\<lparr>os_requests := rs\<rparr>) = confined A s s'"
  "confined A (s\<lparr>os_requests := rs\<rparr>) s' = confined A s s'"
  "confined A (log_at l m x s) s' = confined A s s'"
  "confined A (print line s) s' = confined A s s'"
  "confined A (s\<lparr>os_execs := xs\<rparr>) s' = confined A s s'"
  by (auto simp: confined_def)

lemma confined_mkdir_all [frame_intros]: "sys_mkdir_all p s = (r, s') \<Longrightarrow> confined A s s'"
proof (cases r)
  case (Inl e)
  then show "sys_mkdir_all p s = (r, s') \<Longrightarrow> ?thesis" by (auto dest: mkdir_all_err)
next
  case (Inr u)
  assume eq: "sys_mkdir_all p s = (r, s')"
  have "\<forall>q. prefix q p \<longrightarrow> look s q = None \<or> look s q = Some Dir"
    using eq Inr by (auto simp: sys_mkdir_all_def list_ex_iff split: option.splits if_splits)
  with eq Inr show ?thesis
    using mkdir_all_ok [of p s u s'] by (auto simp: confined_def)
qed

lemma confined_remove_all [frame_intros]: "sys_remove_all p s = (r, s') \<Longrightarrow> p \<in> A \<Longrightarrow> confined A s s'"
  using remove_all_subset [of p s r s'] by (auto simp: confined_def sys_remove_all_def Let_def)

lemma confined_remove [frame_intros]: "sys_remove p s = (r, s') \<Longrightarrow> p \<in> A \<Longrightarrow> confined A s s'"
  by (auto simp: confined_def sys_remove_def split: option.splits if_splits)

lemma confined_rename [frame_intros]:
  "sys_rename p q s = (r, s') \<Longrightarrow> p \<in> A \<Longrightarrow> q \<in> A \<Longrightarrow> confined A s s'"
  using rename_err [of p q s _ s'] rename_ok(1) [of p q s _ s']
  by (cases r) (auto simp: confined_def)

lemma confined_write_file [frame_intros]:
  "sys_write_file p d s = (r, s') \<Longrightarrow> p \<in> A \<Longrightarrow> confined A s s'"
  using write_file_look(1,3) [of p d s r s'] unfolding confined_def by (metis prefix_order.refl)

lemma confined_mkdir_temp [frame_intros]: "sys_mkdir_temp tmp name s = (r, s') \<Longrightarrow> confined A s s'"
  by (auto simp: confined_def sys_mkdir_temp_def find_Some_iff put_def look_def split: option.splits if_splits)


lemma confined_put: "p \<in> A \<Longrightarrow> confined A s (put p n s)"
  by (cases "p = []") (auto simp: confined_def)

lemma confined_create [frame_intros]: "sys_create p s = (r, s') \<Longrightarrow> p \<in> A \<Longrightarrow> confined A s s'"
  by (auto simp: sys_create_def confined_put split: if_splits option.splits)

lemma confined_fill [frame_intros]: "sys_fill p d s = (r, s') \<Longrightarrow> p \<in> A \<Longrightarrow> confined A s s'"
  by (auto simp: sys_fill_def confined_put split: option.splits)

lemma create_ok: "sys_create p s = (Inr u, s') \<Longrightarrow> s' = put p (File []) s \<and> look s p \<noteq> Some Dir \<and> p \<noteq> []"
  by (auto simp: sys_create_def split: if_splits option.splits)

lemma create_err: "sys_create p s = (Inl e, s') \<Longrightarrow> s' = s"
  by (auto simp: sys_create_def split: if_splits option.splits)

lemma fill_ok: "sys_fill p d s = (Inr u, s') \<Longrightarrow> s' = put p (File d) s"
  by (auto simp: sys_fill_def split: option.splits)

section \<open>Well-formed trees\<close>

text \<open>
  Every entry has a name the kernel accepts at each level and a directory above it, the
  working directory is such a path, and a call that fails on something that exists does not
  claim that it is missing. Every system call keeps this.
\<close>

definition wf_os :: "os \<Rightarrow> bool" where
  "wf_os s \<longleftrightarrow> plain_path (m_wd (os_mach s)) \<and> (\<forall>c. m_fault (os_mach s) c \<noteq> Some ENOENT) \<and>
     (\<forall>p n. look s p = Some n \<longrightarrow> plain_path p \<and> look s (butlast p) = Some Dir)"

lemma wf_osD:
  assumes "wf_os s"
  shows "plain_path (m_wd (os_mach s))"
    and "look s p = Some n \<Longrightarrow> plain_path p"
    and "look s p = Some n \<Longrightarrow> look s (butlast p) = Some Dir"
    and "fault s c \<noteq> Some ENOENT"
  using assms by (auto simp: wf_os_def fault_def)

lemma wf_os_effects [simp]:
  "wf_os (log_at l m x s) = wf_os s"
  "wf_os (print line s) = wf_os s"
  "wf_os (s\<lparr>os_execs := xs\<rparr>) = wf_os s"
  by (simp_all add: wf_os_def)

lemma wf_at_path: "wf_os s \<Longrightarrow> plain_path (at_path s p)"
  by (simp add: at_path_def resolve_plain wf_os_def)

lemma wf_ancestors:
  assumes "wf_os s" "look s p = Some n" "strict_prefix q p"
  shows "look s q = Some Dir"
  using assms(2,3)
proof (induction p arbitrary: n rule: rev_induct)
  case (snoc c p)
  have p: "look s p = Some Dir" using wf_osD(3) [OF assms(1) snoc.prems(1)] by simp
  have "prefix q p" using snoc.prems(2) by (auto simp: strict_prefix_def)
  then show ?case using p snoc.IH [OF p] by (cases "q = p") (auto simp: strict_prefix_def)
qed simp

lemma no_child_of_file:
  assumes "wf_os s" "look s p \<noteq> Some Dir" "strict_prefix p q"
  shows "look s q = None"
  using assms wf_ancestors by fastforce

lemma plain_path_prefix: "prefix p q \<Longrightarrow> plain_path q \<Longrightarrow> plain_path p"
  by (auto simp: prefix_def)

lemma wf_put:
  assumes "wf_os s" "plain_path p" "look s (butlast p) = Some Dir"
    and "n = Dir \<or> look s p \<noteq> Some Dir"
  shows "wf_os (put p n s)"
proof (cases "p = []")
  case True
  with assms show ?thesis by (simp add: wf_os_def)
next
  case False
  have kids: "n \<noteq> Dir \<Longrightarrow> look s q = Some m \<Longrightarrow> butlast q = p \<Longrightarrow> q \<noteq> [] \<Longrightarrow> False" for q m
    using wf_osD(3) [OF assms(1), of q m] assms(4) by simp
  have "p \<noteq> butlast p" using False by (metis append_butlast_last_id not_Cons_self2 append_self_conv)
  with False assms kids show ?thesis
    unfolding wf_os_def by (auto split: if_splits)
qed

lemma wf_keep:
  assumes "wf_os s" and "\<And>q n. look s q = Some n \<Longrightarrow> P q \<Longrightarrow> q \<noteq> [] \<Longrightarrow> butlast q = [] \<or> P (butlast q)"
  shows "wf_os (keep P s)"
proof -
  have "plain_path q \<and> look (keep P s) (butlast q) = Some Dir" if q: "look (keep P s) q = Some n" for q n
  proof (cases "q = []")
    case False
    with q have "look s q = Some n" "P q" by (auto split: if_splits)
    then show ?thesis using assms False wf_osD(2,3) [OF assms(1), of q n] by auto
  qed simp
  with assms(1) show ?thesis by (simp add: wf_os_def)
qed

lemma wf_write_file [inv_intros]:
  assumes "sys_write_file p d s = (r, s')" "wf_os s" "plain_path p"
  shows "wf_os s'"
  using write_file_look(4) [OF assms(1)] assms(2,3) by (auto intro: wf_put)

lemma wf_mkdir_all [inv_intros]:
  assumes "sys_mkdir_all p s = (r, s')" "wf_os s" "plain_path p"
  shows "wf_os s'"
proof (cases r)
  case (Inl e)
  with assms show ?thesis by (auto dest: mkdir_all_err)
next
  case (Inr u)
  note look' = mkdir_all_ok [OF assms(1) [unfolded Inr]]
  have bl: "prefix q p \<Longrightarrow> prefix (butlast q) p" for q
    using prefix_order.trans prefixeq_butlast by blast
  from assms show ?thesis
    unfolding wf_os_def look' by (auto simp: mkdir_all_mach bl intro: plain_path_prefix split: if_splits)
qed

lemma wf_remove_all [inv_intros]:
  assumes "sys_remove_all p s = (r, s')" "wf_os s"
  shows "wf_os s'"
proof -
  have s': "s' = keep (\<lambda>q. \<not> prefix p q \<or> list_ex (prefix q) (filter (\<lambda>q. fault s (SysUnlink q) \<noteq> None) (below p s))) s"
    using assms(1) by (simp add: sys_remove_all_def Let_def)
  have "prefix (butlast q) t" if "prefix q t" for q t :: fpath
    using that prefix_order.trans prefixeq_butlast by blast
  moreover have "prefix p q" if "prefix p (butlast q)" for q
    using that prefix_order.trans prefixeq_butlast by blast
  ultimately show ?thesis
    unfolding s' by (intro wf_keep [OF assms(2)]) (fastforce simp: list_ex_iff)
qed

lemma wf_remove [inv_intros]:
  assumes "sys_remove p s = (r, s')" "wf_os s"
  shows "wf_os s'"
proof (cases "s' = s")
  case False
  with assms(1) have s': "s' = keep (\<lambda>q. q \<noteq> p) s" and kids: "\<not> list_ex (strict_prefix p) (below p s)"
    by (auto simp: sys_remove_def split: option.splits if_splits)
  show ?thesis unfolding s'
  proof (rule wf_keep [OF assms(2)])
    fix q n assume q: "look s q = Some n" "q \<noteq> p" "q \<noteq> []"
    show "butlast q = [] \<or> butlast q \<noteq> p"
    proof (rule ccontr)
      assume "\<not> (butlast q = [] \<or> butlast q \<noteq> p)"
      then have "strict_prefix p q" using q by (metis append_butlast_last_id not_Cons_self2 append_self_conv strict_prefixI' prefixeq_butlast strict_prefix_def)
      moreover have "q \<in> fst ` set (os_tree s)" using q look_in_tree [of q s] by auto
      ultimately have "q \<in> set (below p s)" by (simp add: in_below strict_prefix_def)
      with \<open>strict_prefix p q\<close> show False using kids by (auto simp: list_ex_iff)
    qed
  qed
qed (use assms in simp)

lemma wf_rename [inv_intros]:
  assumes "sys_rename p q s = (r, s')" "wf_os s" "plain_path q"
  shows "wf_os s'"
proof (cases r)
  case (Inl e)
  with assms show ?thesis by (auto dest: rename_err)
next
  case (Inr u)
  note ok = rename_ok [OF assms(1) [unfolded Inr]]
  have "q \<noteq> []" using ok(4) by auto
  have butl: "\<not> prefix q (butlast q)" "\<not> prefix p (butlast q)"
    using \<open>q \<noteq> []\<close> ok(3) by (metis append_butlast_last_id append_self_conv not_Cons_self2 prefix_order.antisym prefixeq_butlast, metis prefix_order.trans prefixeq_butlast)
  have "plain_path x \<and> look s' (butlast x) = Some Dir" if x: "look s' x = Some n" for x n
  proof (cases "prefix q x")
    case True
    then obtain y where y: "x = q @ y" by (auto simp: prefix_def)
    with x ok(1) [of x] have l: "look s (p @ y) = Some n" by simp
    with y assms(2,3) have "plain_path x" using wf_osD(2) by fastforce
    moreover have "look s' (butlast x) = Some Dir"
    proof (cases "y = []")
      case True
      with y ok(1) [of "butlast q"] butl ok(5) show ?thesis by simp
    next
      case False
      with y ok(1) [of "butlast x"] wf_osD(3) [OF assms(2) l] show ?thesis by (simp add: butlast_append)
    qed
    ultimately show ?thesis ..
  next
    case False
    with x ok(1) [of x] have l: "look s x = Some n" "\<not> prefix p x" by (auto split: if_splits)
    have "\<not> prefix q (butlast x)" "\<not> prefix p (butlast x)"
      using False l(2) prefix_order.trans prefixeq_butlast by blast+
    with l ok(1) [of "butlast x"] wf_osD(2,3) [OF assms(2) l(1)] show ?thesis by simp
  qed
  with assms show ?thesis by (simp add: wf_os_def)
qed

lemma wf_mkdir_temp [inv_intros]:
  assumes "sys_mkdir_temp tmp name s = (r, s')" "wf_os s" "plain_name name"
  shows "wf_os s'"
proof -
  have digits: "plain_name (name @ show_nat n)" for n
    using assms(3) show_nat_digits [of "CHR ''/''" n] show_nat_digits [of "CHR ''.''" n]
    by (auto simp: plain_name_def append_eq_Cons_conv)
  show ?thesis
  proof (cases "s' = s")
    case False
    then obtain p where p: "s' = put p Dir s" and tmp: "look s tmp = Some Dir"
      and found: "find (\<lambda>p. look s p = None \<and> below p s = [])
            (map (\<lambda>n. tmp @ [name @ show_nat n]) [0..<Suc (length (os_tree s))]) = Some p"
      using assms(1) by (auto simp: sys_mkdir_temp_def simp del: upt_Suc split: option.splits if_splits)
    from found obtain n where "p = tmp @ [name @ show_nat n]"
      by (metis (no_types, lifting) find_Some_iff imageE list.set_map nth_mem)
    then show ?thesis
      unfolding p using assms(2) tmp digits wf_osD(2) [OF assms(2) tmp] by (intro wf_put) simp_all
  qed (use assms in simp)
qed

end
