(* ===== verification/Forge.thy ===== *)
theory Forge
  imports FileSystem
begin

text \<open>
  The data the parts of the program exchange (\<open>repo.go\<close> and the types of \<open>run.go\<close> and
  \<open>mirror.go\<close>): repositories, the state filter, the archive selection, remotes, the options
  and the result of a run, and the adapters a forge's \<open>Runner\<close> is made of.
\<close>

record repo =
  repo_path :: string
  repo_archived :: bool
  repo_empty :: bool

datatype state = StateAll | StateActive | StateArchived

fun state_string :: "state \<Rightarrow> string" where
  "state_string StateActive = ''active''"
| "state_string StateArchived = ''archived''"
| "state_string StateAll = ''all''"

text \<open>What a filtered listing is meant to hold.\<close>

fun state_selects :: "state \<Rightarrow> bool \<Rightarrow> bool" where
  "state_selects StateAll a = True"
| "state_selects StateActive a = (\<not> a)"
| "state_selects StateArchived a = a"

datatype archive_selection = ArchiveNone | ArchiveAll | ArchiveActive | ArchiveArchived

fun wants :: "archive_selection \<Rightarrow> bool \<Rightarrow> bool" where
  "wants ArchiveAll archived = True"
| "wants ArchiveActive archived = (\<not> archived)"
| "wants ArchiveArchived archived = archived"
| "wants ArchiveNone archived = False"

record remote =
  clone_url :: string
  auth_header :: string

text \<open>\<open>MetadataKind\<close> is a string type with three known values.\<close>

type_synonym metadata_kind = string

definition MetadataIssues :: metadata_kind where
  "MetadataIssues = ''issues''"

definition MetadataReleases :: metadata_kind where
  "MetadataReleases = ''releases''"

definition MetadataPullRequests :: metadata_kind where
  "MetadataPullRequests = ''pull-requests''"

record options =
  o_dest :: string
  o_state :: state
  o_archive :: archive_selection
  o_archive_dir :: string
  o_concurrency :: int
  o_prune_removed :: bool
  o_export_metadata :: "metadata_kind list"

record run_result =
  synced :: int
  skipped :: int
  failed :: int
  archived :: int
  pruned :: int
  metadata_exported :: int

text \<open>
  The interfaces \<open>Lister\<close>, \<open>Mirrorer\<close>, \<open>Remoter\<close> and \<open>MetadataExporter\<close>: the methods as
  functions over the state. A method that pages through a forge's API may not return, so its
  result is optional.
\<close>

type_synonym lister = "state \<Rightarrow> os \<Rightarrow> ((err + repo list) \<times> os) option"
type_synonym mirrorer = "remote \<Rightarrow> string \<Rightarrow> os \<Rightarrow> (err + unit) \<times> os"
type_synonym remoter = "repo \<Rightarrow> remote"

record metadata_exporter =
  exp_kind :: metadata_kind
  exp_export :: "repo \<Rightarrow> string \<Rightarrow> os \<Rightarrow> ((err + unit) \<times> os) option"

record runner =
  run_lister :: lister
  run_mirrorer :: mirrorer
  run_remoter :: remoter
  run_exporters :: "metadata_exporter list"

section \<open>Contracts of the adapters\<close>

text \<open>
  A lister only reads the forge: it may log, and leaves the file system and the environment
  as they are.
\<close>

definition reads_only :: "os \<Rightarrow> os \<Rightarrow> bool" where
  "reads_only s s' \<longleftrightarrow> os_tree s' = os_tree s \<and> os_mach s' = os_mach s"

lemma reads_only_refl [simp]: "reads_only s s"
  by (simp add: reads_only_def)

lemma reads_only_trans: "reads_only s s' \<Longrightarrow> reads_only s' s'' \<Longrightarrow> reads_only s s''"
  by (simp add: reads_only_def)

lemma reads_only_log [simp]: "reads_only s (log_at l m p s') = reads_only s s'"
  by (simp add: reads_only_def log_at_def)

lemma reads_only_print [simp]: "reads_only s (print l s') = reads_only s s'"
  by (simp add: reads_only_def print_def)

lemma reads_only_execs [simp]: "reads_only s (s'\<lparr>os_execs := xs\<rparr>) = reads_only s s'"
  by (simp add: reads_only_def)

lemma reads_only_look: "reads_only s s' \<Longrightarrow> look s' = look s"
  by (auto simp: reads_only_def look_def fun_eq_iff)

lemma reads_only_confined: "reads_only s s' \<Longrightarrow> confined A s s'"
  by (simp add: confined_def reads_only_look) (simp add: reads_only_def)

locale lister_contract =
  fixes list_repos :: lister
  assumes list_reads_only: "list_repos st s = Some (r, s') \<Longrightarrow> reads_only s s'"

text \<open>
  A mirrorer creates or refreshes the mirror at the directory it is given and works in a
  directory of that name with \<open>.partial\<close> added, and nowhere else.
\<close>

locale mirrorer_contract =
  fixes sync :: mirrorer
  assumes sync_confined:
    "sync r d s = (x, s') \<Longrightarrow> confined {at_path s d, at_path s (d @ ''.partial'')} s s'"

text \<open>A metadata exporter writes at and below the directory it is given, and nowhere else.\<close>

locale exporter_contract =
  fixes exporter :: metadata_exporter
  assumes kind_plain: "plain_name (exp_kind exporter)"
    and export_confined:
    "exp_export exporter r d s = Some (x, s') \<Longrightarrow> confined {at_path s d} s s'"

section \<open>A quiet machine\<close>

text \<open>
  A concrete state to evaluate the model on: working directory \<open>/w\<close>, git and git-lfs on the
  path, no failing system call.
\<close>

definition quiet_attrs :: attrs where
  "quiet_attrs = \<lparr>a_mode = 420, a_mtime = 0, a_uid = 0, a_gid = 0, a_uname = ''root'', a_gname = ''root''\<rparr>"

definition quiet_machine :: machine where
  "quiet_machine =
     \<lparr>m_wd = [''w''], m_environ = [''PATH=/bin'', ''GIT_DIR=/x''], m_lookpath = (\<lambda>p. Some (''/bin/'' @ p)),
      m_attr = (\<lambda>_. quiet_attrs), m_fault = (\<lambda>_. None), m_short = (\<lambda>_. 0), m_stdin = Inr []\<rparr>"

definition quiet_os :: "(fpath \<times> node) list \<Rightarrow> os" where
  "quiet_os t = \<lparr>os_tree = t @ [([''w''], Dir)], os_logs = [], os_out = [], os_execs = [], os_requests = [], os_mach = quiet_machine\<rparr>"

end
