(* ===== verification/Stale.thy ===== *)
theory Stale
  imports Forge
begin

text \<open>
  Which mirrors and archives on disk belong to no repository of the forge any more
  (\<open>run.go\<close>: the path layout, \<open>onDiskPaths\<close>, \<open>staleMirrors\<close>). The lemmas show that a scan
  reports exactly the outermost entries with the suffix, that each reported path leads back
  to the entry it came from, and that the stale paths are exactly those of them the forge
  does not list, each once and in order.
\<close>

section \<open>Layout\<close>

definition mirror_path :: "string \<Rightarrow> string \<Rightarrow> string" where
  "mirror_path dest path = fpjoin [dest, path @ ''.git'']"

definition archive_path :: "string \<Rightarrow> string \<Rightarrow> string" where
  "archive_path archive_dir path = fpjoin [archive_dir, path @ ''.tar.gz'']"

definition metadata_dir :: "string \<Rightarrow> string \<Rightarrow> string" where
  "metadata_dir dest path = fpjoin [dest, path @ ''.metadata'']"

section \<open>Walking a tree\<close>

text \<open>
  \<open>filepath.WalkDir\<close> as the program calls it: entries come in lexical order, a directory before
  what is in it; the callback says whether to skip the directory it was called on; a
  directory that cannot be read ends the walk with the error.
\<close>

fun walk :: "(fpath \<Rightarrow> node \<Rightarrow> 'acc \<Rightarrow> bool \<times> 'acc) \<Rightarrow> os \<Rightarrow> fpath list \<Rightarrow> fpath list \<Rightarrow> 'acc \<Rightarrow> oserr + 'acc"
where
  "walk visit s skipped_dirs [] acc = Inr acc"
| "walk visit s skipped_dirs (p # ps) acc =
     (if list_ex (\<lambda>q. prefix q p) skipped_dirs then walk visit s skipped_dirs ps acc
      else (case look s p of
              None \<Rightarrow> walk visit s skipped_dirs ps acc
            | Some n \<Rightarrow>
                (case visit p n acc of (skip, acc') \<Rightarrow>
                   if n = Dir then
                     if skip then walk visit s (p # skipped_dirs) ps acc'
                     else (case fault s (SysReadDir p) of
                             Some e \<Rightarrow> Inl e
                           | None \<Rightarrow> walk visit s skipped_dirs ps acc')
                   else walk visit s skipped_dirs ps acc')))"

definition entries_below :: "fpath \<Rightarrow> os \<Rightarrow> fpath list" where
  "entries_below root s = sort (remdups (filter (strict_prefix root) (map fst (os_tree s))))"

definition walk_dir :: "(fpath \<Rightarrow> node \<Rightarrow> 'acc \<Rightarrow> bool \<times> 'acc) \<Rightarrow> fpath \<Rightarrow> os \<Rightarrow> 'acc \<Rightarrow> oserr + 'acc" where
  "walk_dir visit root s acc =
     (case sys_stat root s of
        Inl e \<Rightarrow> Inl e
      | Inr n \<Rightarrow>
          if n = Dir then
            (case fault s (SysReadDir root) of
               Some e \<Rightarrow> Inl e
             | None \<Rightarrow> walk visit s [] (entries_below root s) acc)
          else Inr acc)"

section \<open>Paths on disk\<close>

definition isMirrorDir :: "node \<Rightarrow> bool" where
  "isMirrorDir d \<longleftrightarrow> d = Dir"

definition isArchiveFile :: "node \<Rightarrow> bool" where
  "isArchiveFile d \<longleftrightarrow> d \<noteq> Dir"

definition rel_path :: "fpath \<Rightarrow> fpath \<Rightarrow> string" where
  "rel_path root p = join_with ''/'' (drop (length root) p)"

text \<open>\<open>os.Stat\<close> of the empty path finds nothing.\<close>

definition onDiskPaths :: "string \<Rightarrow> string \<Rightarrow> (node \<Rightarrow> bool) \<Rightarrow> os \<Rightarrow> err + string list" where
  "onDiskPaths root suf keep_entry s =
     (case (if root = [] then Inl ENOENT else sys_stat (at_path s root) s) of
        Inl e \<Rightarrow> if e = ENOENT then Inr [] else Inl (Wrap (''stat '' @ root) (OsErr e))
      | Inr _ \<Rightarrow>
          (case walk_dir
                  (\<lambda>p d paths.
                     if \<not> has_suffix (last p) suf \<or> \<not> keep_entry d then (False, paths)
                     else (d = Dir, paths @ [trim_suffix (rel_path (at_path s root) p) suf]))
                  (at_path s root) s [] of
             Inl e \<Rightarrow> Inl (Wrap (''walk '' @ root) (OsErr e))
           | Inr paths \<Rightarrow> Inr paths))"

section \<open>Stale mirrors\<close>

text \<open>
  The two scans run concurrently and neither depends on the other; when both fail, which
  error comes first is up to the scheduler, and here it is the first scan's.
\<close>

fun not_wanted :: "string list \<Rightarrow> string list \<Rightarrow> string list \<Rightarrow> string list" where
  "not_wanted wanted seen [] = []"
| "not_wanted wanted seen (p # ps) =
     (if p \<in> set wanted \<or> p \<in> set seen then not_wanted wanted seen ps
      else p # not_wanted wanted (p # seen) ps)"

definition staleMirrors :: "string \<Rightarrow> string \<Rightarrow> repo list \<Rightarrow> os \<Rightarrow> err + string list" where
  "staleMirrors dest archive_dir repos s =
     (let wanted = map repo_path repos
      in case onDiskPaths dest ''.git'' isMirrorDir s of
           Inl e \<Rightarrow> Inl (Wrap ''scan for stale mirrors'' (Wrap (''scan '' @ dest) e))
         | Inr mirrors \<Rightarrow>
             (case onDiskPaths archive_dir ''.tar.gz'' isArchiveFile s of
                Inl e \<Rightarrow> Inl (Wrap ''scan for stale mirrors'' (Wrap (''scan '' @ archive_dir) e))
              | Inr archives \<Rightarrow> Inr (sort (not_wanted wanted [] (mirrors @ archives)))))"

section \<open>What a walk collects\<close>

lemma prefix_le: "prefix p q \<Longrightarrow> p \<le> (q :: fpath)"
proof (induction p arbitrary: q)
  case (Cons a p)
  then show ?case by (cases q) auto
qed simp

lemma ancestors_first:
  "distinct ps \<Longrightarrow> sorted ps \<Longrightarrow> sorted_wrt (\<lambda>p q. \<not> prefix q p) (ps :: fpath list)"
proof (induction ps)
  case (Cons p ps)
  then have "\<not> prefix q p" if "q \<in> set ps" for q
    using that prefix_le [of q p] by fastforce
  with Cons show ?case by simp
qed simp

definition hit :: "(fpath \<Rightarrow> node \<Rightarrow> bool) \<Rightarrow> os \<Rightarrow> fpath \<Rightarrow> bool" where
  "hit m s p \<longleftrightarrow> (\<exists>d. look s p = Some d \<and> m p d)"

definition under_hit :: "(fpath \<Rightarrow> node \<Rightarrow> bool) \<Rightarrow> os \<Rightarrow> fpath list \<Rightarrow> fpath \<Rightarrow> bool" where
  "under_hit m s qs p \<longleftrightarrow> (\<exists>q \<in> set qs. strict_prefix q p \<and> hit m s q \<and> look s q = Some Dir)"

lemma walk_collect:
  assumes "walk (\<lambda>p d acc. if \<not> m p d then (False, acc) else (d = Dir, acc @ [f p])) s sk ps acc = Inr r"
    and "sorted_wrt (\<lambda>p q. \<not> prefix q p) ps"
  shows "r = acc @ map f (filter (\<lambda>p. hit m s p \<and> \<not> (\<exists>q \<in> set sk. prefix q p) \<and> \<not> under_hit m s ps p) ps)"
  using assms
proof (induction ps arbitrary: sk acc)
  case Nil
  then show ?case by simp
next
  case (Cons p ps)
  have later: "q \<in> set ps \<Longrightarrow> \<not> prefix q p" for q using Cons.prems(2) by simp
  have self: "under_hit m s (p # ps) p = False"
    using later by (auto simp: under_hit_def strict_prefix_def)
  have rest: "sorted_wrt (\<lambda>p q. \<not> prefix q p) ps" using Cons.prems(2) by simp
  let ?keep = "\<lambda>sk ps p. hit m s p \<and> \<not> (\<exists>q \<in> set sk. prefix q p) \<and> \<not> under_hit m s ps p"
  have step: "filter (?keep sk (p # ps)) ps = filter (?keep sk ps) ps"
    if "(\<exists>q \<in> set sk. prefix q p) \<or> \<not> hit m s p \<or> look s p \<noteq> Some Dir"
    using that by (intro filter_cong refl) (auto simp: under_hit_def strict_prefix_def intro: prefix_order.trans)
  show ?case
  proof (cases "list_ex (\<lambda>q. prefix q p) sk")
    case True
    with Cons.prems rest show ?thesis
      using Cons.IH [of sk acc] step by (auto simp: list_ex_iff)
  next
    case False
    then have free: "\<not> (\<exists>q \<in> set sk. prefix q p)" by (simp add: list_ex_iff)
    show ?thesis
    proof (cases "look s p")
      case None
      with Cons.prems rest False show ?thesis
        using Cons.IH [of sk acc] step by (auto simp: hit_def)
    next
      case (Some d)
      show ?thesis
      proof (cases "m p d \<and> d = Dir")
        case True
        then have "hit m s p" using Some by (auto simp: hit_def)
        have "filter (?keep (p # sk) ps) ps = filter (?keep sk (p # ps)) ps"
          using True Some \<open>hit m s p\<close> later
          by (intro filter_cong refl) (auto simp: under_hit_def strict_prefix_def)
        with True Some Cons.prems rest False free self \<open>hit m s p\<close> show ?thesis
          using Cons.IH [of "p # sk" "acc @ [f p]"] by auto
      next
        case nodir: False
        then have "walk (\<lambda>p d acc. if \<not> m p d then (False, acc) else (d = Dir, acc @ [f p])) s sk ps
                     (if m p d then acc @ [f p] else acc) = Inr r"
          using Some False Cons.prems(1) by (auto split: if_splits option.splits)
        note IH = Cons.IH [OF this rest]
        moreover have "filter (?keep sk (p # ps)) ps = filter (?keep sk ps) ps"
          using nodir Some by (intro step) (auto simp: hit_def)
        ultimately show ?thesis using Some free self by (auto simp: hit_def)
      qed
    qed
  qed
qed

lemma entries_below_facts:
  "sorted_wrt (\<lambda>p q. \<not> prefix q p) (entries_below root s)"
  "distinct (entries_below root s)"
  "p \<in> set (entries_below root s) \<longleftrightarrow> strict_prefix root p \<and> look s p \<noteq> None"
proof -
  show "sorted_wrt (\<lambda>p q. \<not> prefix q p) (entries_below root s)" "distinct (entries_below root s)"
    by (simp_all add: entries_below_def ancestors_first)
  show "p \<in> set (entries_below root s) \<longleftrightarrow> strict_prefix root p \<and> look s p \<noteq> None"
    by (cases "p = []") (auto simp: entries_below_def look_def map_of_eq_None_iff)
qed

lemma entries_belowE:
  assumes "p \<in> set (entries_below R s)"
  obtains cs d where "p = R @ cs" "cs \<noteq> []" "look s (R @ cs) = Some d"
  using assms by (auto simp: entries_below_facts(3) strict_prefix_def prefix_def)

lemma entries_below_nodir:
  assumes "wf_os s" "look s R \<noteq> Some Dir"
  shows "entries_below R s = []"
proof (rule ccontr)
  assume "entries_below R s \<noteq> []"
  then obtain p where "p \<in> set (entries_below R s)" by (cases "entries_below R s") auto
  then obtain n where "strict_prefix R p" "look s p = Some n" by (auto simp: entries_below_facts(3))
  with wf_ancestors [OF assms(1)] assms(2) show False by blast
qed

section \<open>What a scan reports\<close>

text \<open>
  The entry a repository path names below a root, with nothing above it that already counts
  as an entry of that kind.
\<close>

definition on_disk :: "string \<Rightarrow> string \<Rightarrow> (node \<Rightarrow> bool) \<Rightarrow> os \<Rightarrow> string \<Rightarrow> bool" where
  "on_disk root suf keep_entry s p \<longleftrightarrow> root \<noteq> [] \<and>
     (let cs = split_on CHR ''/'' (p @ suf) in
        (\<exists>d. look s (at_path s root @ cs) = Some d \<and> keep_entry d)
        \<and> (keep_entry Dir \<longrightarrow> (\<forall>c \<in> set (butlast cs). \<not> has_suffix c suf)))"

lemma has_suffix_last:
  "cs \<noteq> [] \<Longrightarrow> has_suffix (last cs) suf \<Longrightarrow> has_suffix (join_with sep cs) suf"
proof (induction sep cs rule: join_with.induct)
  case (3 sep w v ws)
  then show ?case by (auto simp: has_suffix_iff)
qed auto

lemma plain_join_split:
  "plain_path cs \<Longrightarrow> cs \<noteq> [] \<Longrightarrow> split_on CHR ''/'' (join_with ''/'' cs) = cs"
  by (rule split_join) (auto simp: plain_path_def list_all_iff plain_name_def)

lemma last_split_suffix:
  "CHR ''/'' \<notin> set suf \<Longrightarrow> has_suffix (last (split_on CHR ''/'' (p @ suf))) suf"
  by (simp add: split_on_append_free)

text \<open>The path reported for an entry leads back to it.\<close>

lemma reported_path:
  assumes "plain_path cs" "cs \<noteq> []" "has_suffix (last cs) suf"
  shows "trim_suffix (join_with ''/'' cs) suf @ suf = join_with ''/'' cs"
    and "split_on CHR ''/'' (trim_suffix (join_with ''/'' cs) suf @ suf) = cs"
  using trim_suffix_restore [OF has_suffix_last [OF assms(2,3)]] plain_join_split [OF assms(1,2)] by simp_all


lemma onDiskPaths_empty: "onDiskPaths [] suf keep_entry s = Inr []"
  by (simp add: onDiskPaths_def)

lemma onDiskPaths_collected:
  assumes "wf_os s" "onDiskPaths root suf keep_entry s = Inr ps" "root \<noteq> []"
  defines "R \<equiv> at_path s root"
  defines "m \<equiv> \<lambda>p d. has_suffix (last p) suf \<and> keep_entry d"
  shows "ps = map (\<lambda>p. trim_suffix (rel_path R p) suf)
                (filter (\<lambda>p. hit m s p \<and> \<not> under_hit m s (entries_below R s) p) (entries_below R s))"
proof -
  let ?es = "entries_below R s"
  have visit: "(\<lambda>p d paths. if \<not> has_suffix (last p) suf \<or> \<not> keep_entry d then (False, paths)
                     else (d = Dir, paths @ [trim_suffix (rel_path R p) suf]))
      = (\<lambda>p d acc. if \<not> m p d then (False, acc) else (d = Dir, acc @ [trim_suffix (rel_path R p) suf]))"
    by (auto simp: m_def fun_eq_iff)
  note scan = assms(2) [unfolded onDiskPaths_def if_not_P [OF assms(3)] R_def [symmetric] visit]
  have nofault: "fault s (SysStat R) \<noteq> Some ENOENT" using wf_osD(4) [OF assms(1)] .
  consider (absent) "look s R = None" "ps = []" | (nodir) d where "look s R = Some d" "d \<noteq> Dir" "ps = []"
    | (dir) "walk (\<lambda>p d acc. if \<not> m p d then (False, acc) else (d = Dir, acc @ [trim_suffix (rel_path R p) suf]))
          s [] ?es [] = Inr ps"
  proof (cases "sys_stat R s")
    case (Inl e)
    with scan have "e = ENOENT" "ps = []" by (auto split: if_splits)
    with Inl nofault show ?thesis using absent by (auto simp: sys_stat_def split: option.splits)
  next
    case (Inr n)
    then have l: "look s R = Some n" by (auto simp: sys_stat_def split: option.splits)
    show ?thesis
    proof (cases "n = Dir")
      case True
      with scan Inr show ?thesis
        using dir unfolding walk_dir_def by (simp split: option.splits sum.splits)
    next
      case False
      with scan Inr l show ?thesis using nodir unfolding walk_dir_def by simp
    qed
  qed
  then show ?thesis
  proof cases
    case absent
    then show ?thesis using entries_below_nodir [OF assms(1), of R] by simp
  next
    case nodir
    then show ?thesis using entries_below_nodir [OF assms(1), of R] by simp
  next
    case dir
    show ?thesis using walk_collect [OF dir entries_below_facts(1)] by simp
  qed
qed

lemma prefix_butlast: "strict_prefix ds cs \<longleftrightarrow> (cs \<noteq> [] \<and> prefix ds (butlast cs))"
  by (cases cs rule: rev_cases) (auto simp: strict_prefix_def)

lemma outermost_iff:
  assumes wf: "wf_os s" and e: "look s (R @ cs) = Some d" "cs \<noteq> []"
  shows "under_hit (\<lambda>p d. has_suffix (last p) suf \<and> keep_entry d) s (entries_below R s) (R @ cs)
     \<longleftrightarrow> keep_entry Dir \<and> (\<exists>c \<in> set (butlast cs). has_suffix c suf)"
proof
  assume "under_hit (\<lambda>p d. has_suffix (last p) suf \<and> keep_entry d) s (entries_below R s) (R @ cs)"
  then obtain q where q: "strict_prefix R q" "strict_prefix q (R @ cs)" "has_suffix (last q) suf" "keep_entry Dir"
    by (auto simp: under_hit_def hit_def entries_below_facts(3))
  then obtain ds where ds: "q = R @ ds" "ds \<noteq> []" by (auto elim: strict_prefixE')
  with q(2) e have "prefix ds (butlast cs)" by (simp add: prefix_butlast butlast_append)
  then have "last ds \<in> set (butlast cs)" using ds(2) by (auto simp: prefix_def)
  with q ds show "keep_entry Dir \<and> (\<exists>c \<in> set (butlast cs). has_suffix c suf)" by auto
next
  assume *: "keep_entry Dir \<and> (\<exists>c \<in> set (butlast cs). has_suffix c suf)"
  then obtain c us vs where c: "butlast cs = us @ c # vs" "has_suffix c suf" by (meson split_list)
  let ?q = "R @ us @ [c]"
  have pre: "strict_prefix ?q (R @ cs)" using c e by (simp add: prefix_butlast butlast_append)
  then have "look s ?q = Some Dir" using wf_ancestors [OF wf e(1)] by blast
  then show "under_hit (\<lambda>p d. has_suffix (last p) suf \<and> keep_entry d) s (entries_below R s) (R @ cs)"
    unfolding under_hit_def using * c pre
    by (intro bexI [of _ ?q]) (auto simp: hit_def entries_below_facts(3) strict_prefix_def)
qed

lemma onDiskPaths_set:
  assumes wf: "wf_os s" and scan: "onDiskPaths root suf keep_entry s = Inr ps"
    and suf: "CHR ''/'' \<notin> set suf" "suf \<noteq> []"
  shows "p \<in> set ps \<longleftrightarrow> on_disk root suf keep_entry s p"
proof (cases "root = []")
  case True
  with scan show ?thesis by (simp add: onDiskPaths_empty on_disk_def)
next
  case root: False
  let ?R = "at_path s root" and ?cs = "split_on CHR ''/'' (p @ suf)"
  let ?m = "\<lambda>p d. has_suffix (last p) suf \<and> keep_entry d"
  have in_ps: "p \<in> set ps \<longleftrightarrow> (\<exists>cs. cs \<noteq> [] \<and> p = trim_suffix (join_with ''/'' cs) suf \<and> hit ?m s (?R @ cs)
        \<and> \<not> (keep_entry Dir \<and> (\<exists>c \<in> set (butlast cs). has_suffix c suf)))" (is "_ \<longleftrightarrow> (\<exists>cs. ?Q cs)")
  proof
    assume "p \<in> set ps"
    then obtain q where q: "q \<in> set (entries_below ?R s)" "hit ?m s q"
        "\<not> under_hit ?m s (entries_below ?R s) q" "p = trim_suffix (rel_path ?R q) suf"
      using onDiskPaths_collected [OF wf scan root] by auto
    then obtain cs where cs: "q = ?R @ cs" "cs \<noteq> []"
      by (auto simp: entries_below_facts(3) elim: strict_prefixE')
    with q obtain d where "look s (?R @ cs) = Some d" by (auto simp: hit_def)
    with q cs outermost_iff [OF wf this cs(2), of suf keep_entry] show "\<exists>cs. ?Q cs"
      by (intro exI [of _ cs]) (auto simp: rel_path_def)
  next
    assume "\<exists>cs. ?Q cs"
    then obtain cs where Q: "?Q cs" ..
    then obtain d where d: "look s (?R @ cs) = Some d" "cs \<noteq> []" by (auto simp: hit_def)
    with Q outermost_iff [OF wf d, of suf keep_entry]
    have "?R @ cs \<in> set (filter (\<lambda>p. hit ?m s p \<and> \<not> under_hit ?m s (entries_below ?R s) p) (entries_below ?R s))"
      by (auto simp: entries_below_facts(3) strict_prefix_def)
    then have "trim_suffix (rel_path ?R (?R @ cs)) suf \<in> set ps"
      unfolding onDiskPaths_collected [OF wf scan root] by (auto intro: imageI)
    with Q show "p \<in> set ps" by (simp add: rel_path_def)
  qed
  show ?thesis
  proof
    assume "p \<in> set ps"
    then obtain cs where Q: "?Q cs" using in_ps by blast
    then obtain d where d: "look s (?R @ cs) = Some d" "has_suffix (last cs) suf" "keep_entry d"
      by (auto simp: hit_def)
    have "plain_path cs" using wf_osD(2) [OF wf d(1)] by simp
    with Q d have "?cs = cs" using reported_path(2) [of cs suf] by auto
    with Q d root show "on_disk root suf keep_entry s p" by (auto simp: on_disk_def)
  next
    assume od: "on_disk root suf keep_entry s p"
    then obtain d where d: "look s (?R @ ?cs) = Some d" "keep_entry d" by (auto simp: on_disk_def Let_def)
    have "?Q ?cs"
      using od d last_split_suffix [OF suf(1), of p] by (auto simp: on_disk_def hit_def)
    then show "p \<in> set ps" using in_ps by blast
  qed
qed

lemma onDiskPaths_distinct:
  assumes "wf_os s" "onDiskPaths root suf keep_entry s = Inr ps"
  shows "distinct ps"
proof (cases "root = []")
  case True
  with assms(2) show ?thesis by (simp add: onDiskPaths_empty)
next
  case root: False
  let ?R = "at_path s root"
  have inj: "p = q" if p: "p \<in> set (entries_below ?R s)" "hit (\<lambda>p d. has_suffix (last p) suf \<and> keep_entry d) s p"
     and q: "q \<in> set (entries_below ?R s)" "hit (\<lambda>p d. has_suffix (last p) suf \<and> keep_entry d) s q"
     and eq: "trim_suffix (rel_path ?R p) suf = trim_suffix (rel_path ?R q) suf" for p q
  proof -
    obtain cs d where cs: "p = ?R @ cs" "cs \<noteq> []" "look s (?R @ cs) = Some d" using p(1) by (rule entries_belowE)
    obtain ds d' where ds: "q = ?R @ ds" "ds \<noteq> []" "look s (?R @ ds) = Some d'" using q(1) by (rule entries_belowE)
    have "plain_path cs" "plain_path ds"
      using wf_osD(2) [OF assms(1) cs(3)] wf_osD(2) [OF assms(1) ds(3)] by simp_all
    moreover have "has_suffix (last cs) suf" "has_suffix (last ds) suf"
      using p(2) q(2) cs ds by (auto simp: hit_def)
    moreover have "trim_suffix (join_with ''/'' cs) suf = trim_suffix (join_with ''/'' ds) suf"
      using eq cs(1) ds(1) by (simp add: rel_path_def)
    ultimately have "cs = ds"
      using cs(2) ds(2) reported_path(2) by metis
    with cs ds show ?thesis by simp
  qed
  show ?thesis
    unfolding onDiskPaths_collected [OF assms root] distinct_map
    using entries_below_facts(2) [of ?R s] inj by (auto intro!: inj_onI)
qed


section \<open>The stale paths\<close>

lemma not_wanted_set: "set (not_wanted w seen ps) = set ps - set w - set seen"
  by (induction ps arbitrary: seen) auto

lemma not_wanted_distinct: "distinct (not_wanted w seen ps)"
  by (induction ps arbitrary: seen) (auto simp: not_wanted_set)

abbreviation mirror_on_disk :: "string \<Rightarrow> os \<Rightarrow> string \<Rightarrow> bool" where
  "mirror_on_disk dest s p \<equiv> on_disk dest ''.git'' isMirrorDir s p"

abbreviation archive_on_disk :: "string \<Rightarrow> os \<Rightarrow> string \<Rightarrow> bool" where
  "archive_on_disk archive_dir s p \<equiv> on_disk archive_dir ''.tar.gz'' isArchiveFile s p"

lemma stale_paths:
  assumes "wf_os s" "staleMirrors dest archive_dir repos s = Inr stale"
  shows "sorted stale" "distinct stale"
    and "p \<in> set stale \<longleftrightarrow>
      (mirror_on_disk dest s p \<or> archive_on_disk archive_dir s p) \<and> p \<notin> repo_path ` set repos"
proof -
  obtain ms as where scans: "onDiskPaths dest ''.git'' isMirrorDir s = Inr ms"
      "onDiskPaths archive_dir ''.tar.gz'' isArchiveFile s = Inr as"
    and st: "stale = sort (not_wanted (map repo_path repos) [] (ms @ as))"
    using assms(2) by (auto simp: staleMirrors_def Let_def split: sum.splits)
  show "sorted stale" "distinct stale" by (simp_all add: st not_wanted_distinct)
  show "p \<in> set stale \<longleftrightarrow>
      (mirror_on_disk dest s p \<or> archive_on_disk archive_dir s p) \<and> p \<notin> repo_path ` set repos"
    using onDiskPaths_set [OF assms(1) scans(1), of p] onDiskPaths_set [OF assms(1) scans(2), of p]
    by (auto simp: st not_wanted_set)
qed

end
