(* ===== verification/Prune.thy ===== *)
theory Prune
  imports Stale
begin

text \<open>
  What \<open>--prune-removed\<close> does about the stale paths (\<open>run.go\<close>: \<open>prune\<close>). The lemmas show
  what pruning removes when nothing fails, that it removes nothing else whatever fails,
  and that it stays away from the mirrors and archives of the repositories the forge
  lists, under the conditions on their names that the file layout needs.
\<close>

section \<open>Pruning\<close>

fun prune :: "options \<Rightarrow> string list \<Rightarrow> os \<Rightarrow> int \<times> os" where
  "prune opts [] s = (0, s)"
| "prune opts (path # paths) s =
     (if \<not> o_prune_removed opts then
        prune opts paths (log_at LWarn ''mirror's repository no longer found on forge'' path s)
      else
        (case sys_remove_all (at_path s (mirror_path (o_dest opts) path)) s of
           (Inl e, s1) \<Rightarrow> prune opts paths (log_at LError ''prune failed'' path s1)
         | (Inr _, s1) \<Rightarrow>
             (let s2 = log_at LInfo ''pruned removed repository'' path s1
              in case sys_remove (at_path s2 (archive_path (o_archive_dir opts) path)) s2 of
                   (Inl e, s3) \<Rightarrow>
                     (case prune opts paths
                         (if e = ENOENT then s3
                          else log_at LError ''pruned mirror but its archive could not be removed'' path s3) of
                        (n, s4) \<Rightarrow> (n + 1, s4))
                 | (Inr _, s3) \<Rightarrow> (case prune opts paths s3 of (n, s4) \<Rightarrow> (n + 1, s4)))))"


section \<open>Where pruning reaches\<close>

definition removed_only :: "fpath set \<Rightarrow> os \<Rightarrow> os \<Rightarrow> bool" where
  "removed_only A s s' \<longleftrightarrow> os_mach s' = os_mach s \<and>
     (\<forall>q. look s' q = look s q \<or> (look s' q = None \<and> q \<in> A))"

lemma removed_only_refl [simp]: "removed_only A s s"
  by (simp add: removed_only_def)

lemma removed_only_trans: "removed_only A s s' \<Longrightarrow> removed_only A s' s'' \<Longrightarrow> removed_only A s s''"
  unfolding removed_only_def by metis

lemma removed_only_subset: "removed_only A s s' \<Longrightarrow> A \<subseteq> B \<Longrightarrow> removed_only B s s'"
  unfolding removed_only_def by blast

lemma removed_only_log [simp]:
  "removed_only A s (log_at l m x s') = removed_only A s s'"
  "removed_only A (log_at l m x s) s' = removed_only A s s'"
  by (simp_all add: removed_only_def)

lemma removed_only_remove_all [frame_intros]:
  "sys_remove_all p s = (r, s') \<Longrightarrow> Collect (prefix p) \<subseteq> A \<Longrightarrow> removed_only A s s'"
  using remove_all_subset [of p s r s'] by (auto simp: removed_only_def sys_remove_all_def Let_def)

lemma removed_only_remove [frame_intros]:
  "sys_remove p s = (r, s') \<Longrightarrow> p \<in> A \<Longrightarrow> removed_only A s s'"
  by (auto simp: removed_only_def sys_remove_def split: option.splits if_splits)

definition prune_reach :: "options \<Rightarrow> string list \<Rightarrow> os \<Rightarrow> fpath set" where
  "prune_reach opts ps s =
     {q. \<exists>p \<in> set ps. prefix (at_path s (mirror_path (o_dest opts) p)) q}
     \<union> (\<lambda>p. at_path s (archive_path (o_archive_dir opts) p)) ` set ps"

lemma prune_reach_cong: "os_mach s' = os_mach s \<Longrightarrow> prune_reach opts ps s' = prune_reach opts ps s"
  by (simp add: prune_reach_def at_path_def)

lemma prune_Cons_remove:
  assumes "o_prune_removed opts" "prune opts (p # ps) s = (n, s')"
  obtains r s1 s2 m where
    "sys_remove_all (at_path s (mirror_path (o_dest opts) p)) s = (r, s1)"
    "removed_only (prune_reach opts [p] s) s s2" "prune opts ps s2 = (m, s')"
    "n = (if isl r then m else m + 1)"
    "\<not> isl r \<Longrightarrow> \<exists>r' s3. sys_remove (at_path s (archive_path (o_archive_dir opts) p)) (log_at LInfo ''pruned removed repository'' p s1) = (r', s3)
        \<and> look s2 = look s3"
    "isl r \<Longrightarrow> look s2 = look s1"
    "wf_os s \<Longrightarrow> wf_os s2"
proof -
  let ?A = "prune_reach opts [p] s"
  obtain r s1 where ra: "sys_remove_all (at_path s (mirror_path (o_dest opts) p)) s = (r, s1)" by fastforce
  then have step1: "removed_only ?A s s1" by (rule removed_only_remove_all) (auto simp: prune_reach_def)
  show ?thesis
  proof (cases r)
    case (Inl e)
    with assms ra have "prune opts ps (log_at LError ''prune failed'' p s1) = (n, s')" by simp
    with ra Inl step1 wf_remove_all [OF ra] show ?thesis
      by (intro that [of r s1 "log_at LError ''prune failed'' p s1" n]) auto
  next
    case (Inr u)
    let ?s2 = "log_at LInfo ''pruned removed repository'' p s1"
    obtain r' s3 where rm: "sys_remove (at_path ?s2 (archive_path (o_archive_dir opts) p)) ?s2 = (r', s3)" by fastforce
    have mach: "os_mach ?s2 = os_mach s" using step1 by (simp add: removed_only_def)
    then have at: "at_path ?s2 (archive_path (o_archive_dir opts) p) = at_path s (archive_path (o_archive_dir opts) p)"
      by (simp add: at_path_def)
    have step2: "removed_only ?A ?s2 s3"
      using rm unfolding at by (rule removed_only_remove) (simp add: prune_reach_def)
    define s4 where "s4 = (case r' of Inl e \<Rightarrow>
        if e = ENOENT then s3 else log_at LError ''pruned mirror but its archive could not be removed'' p s3
      | Inr _ \<Rightarrow> s3)"
    have look4: "look s4 = look s3" by (auto simp: s4_def split: sum.splits)
    have reach: "removed_only ?A s s4"
      using step1 step2 removed_only_trans [of ?A s ?s2 s3] by (auto simp: s4_def split: sum.splits)
    obtain m where m: "prune opts ps s4 = (m, s')" "n = m + 1"
      using assms ra rm Inr by (cases r') (auto simp: s4_def Let_def split: prod.splits)
    show ?thesis
    proof (rule that [OF ra reach m(1)])
      show "n = (if isl r then m else m + 1)" using Inr m(2) by simp
      show "\<exists>r' s3. sys_remove (at_path s (archive_path (o_archive_dir opts) p)) ?s2 = (r', s3) \<and> look s4 = look s3"
        using rm look4 unfolding at by blast
      show "isl r \<Longrightarrow> look s4 = look s1" using Inr by simp
      show "wf_os s \<Longrightarrow> wf_os s4"
        using wf_remove_all [OF ra] wf_remove [OF rm] by (auto simp: s4_def split: sum.splits)
    qed
  qed
qed

lemma prune_off:
  assumes "\<not> o_prune_removed opts"
  shows "prune opts ps s = (0, s\<lparr>os_logs := os_logs s @
      map (\<lambda>p. \<lparr>l_level = LWarn, l_msg = ''mirror's repository no longer found on forge'', l_path = p\<rparr>) ps\<rparr>)"
  by (induction ps arbitrary: s) (simp_all add: assms log_at_def)

lemma prune_removed_only:
  assumes "prune opts ps s = (n, s')"
  shows "removed_only (prune_reach opts ps s) s s'"
proof (cases "o_prune_removed opts")
  case False
  with assms show ?thesis using prune_off [of opts ps s] by (auto simp: removed_only_def look_def)
next
  case True
  from assms show ?thesis
  proof (induction ps arbitrary: s n)
    case (Cons p ps)
    obtain s2 m where s2: "removed_only (prune_reach opts [p] s) s s2" "prune opts ps s2 = (m, s')"
      by (rule prune_Cons_remove [OF True Cons.prems]) blast
    have "os_mach s2 = os_mach s" using s2(1) by (simp add: removed_only_def)
    then have rest: "removed_only (prune_reach opts ps s) s2 s'"
      using Cons.IH [OF s2(2)] by (simp only: prune_reach_cong [of s2 s])
    have "prune_reach opts [p] s \<subseteq> prune_reach opts (p # ps) s"
      "prune_reach opts ps s \<subseteq> prune_reach opts (p # ps) s" by (auto simp: prune_reach_def)
    with s2(1) rest show ?case by (meson removed_only_subset removed_only_trans)
  qed simp
qed


section \<open>What pruning removes\<close>

lemma removed_only_None: "removed_only A s s' \<Longrightarrow> look s q = None \<Longrightarrow> look s' q = None"
  unfolding removed_only_def by metis

lemma removed_only_not_Dir: "removed_only A s s' \<Longrightarrow> look s q \<noteq> Some Dir \<Longrightarrow> look s' q \<noteq> Some Dir"
  unfolding removed_only_def by (metis option.distinct(1))

lemma removed_only_mach: "removed_only A s s' \<Longrightarrow> os_mach s' = os_mach s"
  by (simp add: removed_only_def)

text \<open>Nothing but directories, or nothing at all, above a path.\<close>

definition through_dirs :: "os \<Rightarrow> fpath \<Rightarrow> bool" where
  "through_dirs s p \<longleftrightarrow> (\<forall>q. strict_prefix q p \<longrightarrow> look s q \<in> {None, Some Dir})"

lemma set_butlast_prefixes: "set (butlast (prefixes p)) = {q. strict_prefix q p}"
proof (induction p rule: rev_induct)
  case (snoc x p)
  have "butlast (prefixes (p @ [x])) = prefixes p" by (simp add: prefixes_snoc)
  then show ?case by (auto simp: strict_prefix_def)
qed simp

lemma through_dirs_code: "through_dirs s p \<longleftrightarrow> list_all (\<lambda>q. look s q \<in> {None, Some Dir}) (butlast (prefixes p))"
  by (simp add: through_dirs_def list_all_iff set_butlast_prefixes)

lemma through_dirs_absent: "through_dirs s p \<Longrightarrow> absent_err s p = ENOENT"
  by (auto simp: absent_err_def list_ex_iff set_butlast_prefixes through_dirs_def)

lemma removed_only_through: "removed_only A s s' \<Longrightarrow> through_dirs s p \<Longrightarrow> through_dirs s' p"
  unfolding removed_only_def through_dirs_def by (metis insert_iff)

lemma remove_all_no_fault:
  assumes "\<forall>q. m_fault (os_mach s) (SysUnlink q) = None" "through_dirs s p" "sys_remove_all p s = (r, s')"
  shows "r = Inr ()"
proof -
  have "filter (\<lambda>q. fault s (SysUnlink q) \<noteq> None) (below p s) = []" using assms(1) by (simp add: fault_def)
  with assms(3) through_dirs_absent [OF assms(2)] show ?thesis by (auto simp: sys_remove_all_def)
qed

lemma remove_gone:
  assumes "wf_os s" "\<forall>q. m_fault (os_mach s) (SysUnlink q) = None" "look s p \<noteq> Some Dir"
    and "sys_remove p s = (r, s')"
  shows "look s' p = None"
proof (cases "look s p")
  case None
  with assms(4) show ?thesis by (auto simp: sys_remove_def)
next
  case (Some n)
  have "p \<noteq> []" using assms(3) by auto
  have "\<not> list_ex (strict_prefix p) (below p s)"
  proof
    assume "list_ex (strict_prefix p) (below p s)"
    then obtain q where "strict_prefix p q" "q \<in> fst ` set (os_tree s)" by (auto simp: list_ex_iff in_below)
    moreover from this have "q \<noteq> []" by auto
    ultimately show False using no_child_of_file [OF assms(1,3)] look_in_tree [of q s] by auto
  qed
  with Some assms(2,4) \<open>p \<noteq> []\<close> show ?thesis by (auto simp: sys_remove_def fault_def)
qed

lemma clean_stack_last:
  assumes "plain_name c"
  shows "clean_stack b (cs @ [c]) acc = c # clean_stack b cs acc"
  using assms by (simp add: clean_step_plain)

lemma layout_not_root:
  assumes "CHR ''/'' \<notin> set e" "length e > 2"
  shows "at_path s (fpjoin [d, p @ e]) \<noteq> []"
proof -
  let ?l = "last (split_on CHR ''/'' p) @ e"
  have pl: "plain_name ?l"
    using assms split_on_no_sep [of "last (split_on CHR ''/'' p)" "CHR ''/''" p]
    by (auto simp: plain_name_def append_eq_Cons_conv)
  have split: "split_on CHR ''/'' (p @ e) = butlast (split_on CHR ''/'' p) @ [?l]"
    by (rule split_on_append_free [OF assms(1)])
  have "p @ e \<noteq> []" using assms(2) by auto
  have "resolve wd (fpjoin [d, p @ e]) = resolve wd (if d = [] then p @ e else d @ ''/'' @ (p @ e))" for wd
    using \<open>p @ e \<noteq> []\<close> resolve_clean [of "p @ e"] resolve_clean [of "d @ ''/'' @ (p @ e)"]
    by (auto simp: fpjoin_def)
  then show ?thesis
    unfolding at_path_def
    by (auto simp: resolve_def split split_on_append clean_stack_last [OF pl] simp del: clean_stack_simps(3))
       (auto simp: clean_step_plain [OF pl])
qed

text \<open>One step with nothing refusing: the mirror and the archive go, and nothing comes back.\<close>

lemma prune_step_removes:
  assumes "wf_os s" "\<forall>q. m_fault (os_mach s) (SysUnlink q) = None"
    and ra: "sys_remove_all (at_path s (mirror_path (o_dest opts) p)) s = (Inr (), s1)"
    and rm: "sys_remove (at_path s (archive_path (o_archive_dir opts) p)) (log_at LInfo ''pruned removed repository'' p s1) = (r', s3)"
    and rest: "removed_only A s2 s'" and same: "look s2 = look s3"
  shows "prefix (at_path s (mirror_path (o_dest opts) p)) q \<Longrightarrow> look s' q = None"
    and "look s (at_path s (archive_path (o_archive_dir opts) p)) \<noteq> Some Dir \<Longrightarrow>
      look s' (at_path s (archive_path (o_archive_dir opts) p)) = None"
proof -
  let ?m = "at_path s (mirror_path (o_dest opts) p)" and ?a = "at_path s (archive_path (o_archive_dir opts) p)"
  have mach1: "os_mach s1 = os_mach s" using ra by (auto simp: sys_remove_all_def Let_def)
  show "look s' q = None" if "prefix ?m q"
  proof -
    have "?m \<noteq> []" unfolding mirror_path_def by (rule layout_not_root) auto
    then have "look s1 q = None" using remove_all_ok [OF ra] that by simp
    moreover have "removed_only {?a} s1 s3" using removed_only_remove [OF rm, of "{?a}"] by simp
    ultimately have "look s2 q = None" using same removed_only_None by metis
    then show ?thesis by (rule removed_only_None [OF rest])
  qed
  show "look s' ?a = None" if "look s ?a \<noteq> Some Dir"
  proof -
    have "look s1 ?a \<noteq> Some Dir" using remove_all_subset [OF ra, of ?a] that by auto
    then have "look s2 ?a = None"
      using remove_gone [of "log_at LInfo ''pruned removed repository'' p s1" ?a r' s3] wf_remove_all [OF ra assms(1)] assms(2) mach1 rm same
      by simp
    then show ?thesis by (rule removed_only_None [OF rest])
  qed
qed

lemma prune_removes:
  assumes "wf_os s" "o_prune_removed opts" "\<forall>q. m_fault (os_mach s) (SysUnlink q) = None"
    and "prune opts ps s = (n, s')" and "p \<in> set ps" "through_dirs s (at_path s (mirror_path (o_dest opts) p))"
  shows "(\<forall>q. prefix (at_path s (mirror_path (o_dest opts) p)) q \<longrightarrow> look s' q = None) \<and>
    (look s (at_path s (archive_path (o_archive_dir opts) p)) \<noteq> Some Dir \<longrightarrow>
       look s' (at_path s (archive_path (o_archive_dir opts) p)) = None)"
  using assms
proof (induction ps arbitrary: s n)
  case (Cons x ps)
  obtain r s1 s2 m where st: "sys_remove_all (at_path s (mirror_path (o_dest opts) x)) s = (r, s1)"
      "removed_only (prune_reach opts [x] s) s s2" "prune opts ps s2 = (m, s')"
      "\<not> isl r \<Longrightarrow> \<exists>r' s3. sys_remove (at_path s (archive_path (o_archive_dir opts) x)) (log_at LInfo ''pruned removed repository'' x s1) = (r', s3)
        \<and> look s2 = look s3"
      "wf_os s \<Longrightarrow> wf_os s2"
    by (rule prune_Cons_remove [OF Cons.prems(2,4)]) blast
  have mach: "os_mach s2 = os_mach s" using removed_only_mach [OF st(2)] .
  have at2: "at_path s2 y = at_path s y" for y using mach by (rule at_path_cong)
  show ?case
  proof (cases "p = x")
    case True
    have r: "r = Inr ()" using remove_all_no_fault [OF Cons.prems(3) _ st(1)] Cons.prems(6) True by simp
    with st(4) obtain r' s3 where
      "sys_remove (at_path s (archive_path (o_archive_dir opts) x)) (log_at LInfo ''pruned removed repository'' x s1) = (r', s3)" "look s2 = look s3"
      by auto
    from prune_step_removes [OF Cons.prems(1,3) st(1) [unfolded r] this(1) prune_removed_only [OF st(3)] this(2)] True
    show ?thesis by simp
  next
    case False
    have t2: "through_dirs s2 (at_path s2 (mirror_path (o_dest opts) p))"
      using removed_only_through [OF st(2) Cons.prems(6)] by (simp add: at2)
    have "p \<in> set ps" using Cons.prems(5) False by simp
    from Cons.IH [OF st(5) [OF Cons.prems(1)] Cons.prems(2) _ st(3) this t2] Cons.prems(3) show ?thesis
      using removed_only_not_Dir [OF st(2)] by (simp add: mach at2)
  qed
qed simp

lemma prune_counts:
  assumes "o_prune_removed opts" "\<forall>q. m_fault (os_mach s) (SysUnlink q) = None"
    and "\<forall>p \<in> set ps. through_dirs s (at_path s (mirror_path (o_dest opts) p))" and "prune opts ps s = (n, s')"
  shows "n = int (length ps)"
  using assms
proof (induction ps arbitrary: s n)
  case (Cons x ps)
  obtain r s1 s2 m where st: "sys_remove_all (at_path s (mirror_path (o_dest opts) x)) s = (r, s1)"
      "removed_only (prune_reach opts [x] s) s s2" "prune opts ps s2 = (m, s')" "n = (if isl r then m else m + 1)"
    by (rule prune_Cons_remove [OF Cons.prems(1,4)]) blast
  have mach: "os_mach s2 = os_mach s" using removed_only_mach [OF st(2)] .
  have "r = Inr ()" using remove_all_no_fault [OF Cons.prems(2) _ st(1)] Cons.prems(3) by simp
  moreover have "m = int (length ps)"
    by (rule Cons.IH [OF Cons.prems(1) _ _ st(3)])
      (use Cons.prems(2,3) removed_only_through [OF st(2)] in \<open>simp_all add: mach at_path_cong [OF mach]\<close>)
  ultimately show ?case using st(4) by simp
qed simp


section \<open>Pruning keeps what the forge lists\<close>

text \<open>
  A repository path the file layout can hold: plain components, and no group or owner whose
  name ends in \<open>.git\<close>, which on disk would look like the mirror of another repository.
\<close>

definition tidy_path :: "string \<Rightarrow> bool" where
  "tidy_path p \<longleftrightarrow> plain_rel p \<and> (\<forall>c \<in> set (butlast (split_on CHR ''/'' p)). \<not> has_suffix c ''.git'')"

lemma at_layout:
  assumes "plain_rel p" "CHR ''/'' \<notin> set e" "length e > 2"
  shows "at_path s (fpjoin [d, p @ e]) = at_path s d @ split_on CHR ''/'' (p @ e)"
  unfolding at_path_def by (rule resolve_fpjoin_plain [OF plain_rel_ext [OF assms]])

lemma split_ext_inject:
  assumes "split_on CHR ''/'' (p @ e) = split_on CHR ''/'' (q @ e)"
  shows "p = q"
  using join_split [of "CHR ''/''" "p @ e"] unfolding assms join_split by simp

text \<open>Paths found on disk need not be plain (an entry can be named just \<open>.git\<close>), but they lead back.\<close>

lemma on_disk_at:
  assumes wf: "wf_os s" and od: "on_disk root suf k s p" and suf: "CHR ''/'' \<notin> set suf"
    and e: "CHR ''/'' \<notin> set e" "length e > 2"
  shows "at_path s (fpjoin [d, p @ e]) = at_path s d @ split_on CHR ''/'' (p @ e)"
    and "split_on CHR ''/'' (p @ e) = butlast (split_on CHR ''/'' p) @ [last (split_on CHR ''/'' p) @ e]"
proof -
  obtain n where "look s (at_path s root @ split_on CHR ''/'' (p @ suf)) = Some n"
    using od by (auto simp: on_disk_def Let_def)
  from wf_osD(2) [OF wf this] have "plain_path (butlast (split_on CHR ''/'' p))"
    by (simp add: split_on_ext [OF suf])
  moreover show sp: "split_on CHR ''/'' (p @ e) = butlast (split_on CHR ''/'' p) @ [last (split_on CHR ''/'' p) @ e]"
    by (rule split_on_ext [OF e(1)])
  moreover have "plain_name (last (split_on CHR ''/'' p) @ e)"
    using e split_on_no_sep [of "last (split_on CHR ''/'' p)" "CHR ''/''" p]
    by (auto simp: plain_name_def append_eq_Cons_conv)
  ultimately have "plain_rel (p @ e)" by (simp add: plain_rel_def)
  then show "at_path s (fpjoin [d, p @ e]) = at_path s d @ split_on CHR ''/'' (p @ e)"
    unfolding at_path_def by (rule resolve_fpjoin_plain)
qed

lemma inner_hit:
  assumes "strict_prefix (us @ [c]) cs"
  shows "c \<in> set (butlast cs)"
proof -
  from assms have "prefix (us @ [c]) (butlast cs)" by (simp add: prefix_butlast)
  then show ?thesis by (auto simp: prefix_def)
qed

text \<open>Two entries of the layout with different names are never one inside the other.\<close>

lemma layout_parallel:
  assumes "p @ e \<noteq> r @ f" and "CHR ''/'' \<notin> set e" "CHR ''/'' \<notin> set f"
    and "\<forall>c \<in> set (butlast (split_on CHR ''/'' p)). \<not> has_suffix c f"
    and "\<forall>c \<in> set (butlast (split_on CHR ''/'' r)). \<not> has_suffix c e"
  shows "split_on CHR ''/'' (p @ e) \<parallel> split_on CHR ''/'' (r @ f)"
proof -
  have nopre: "\<not> prefix (split_on CHR ''/'' (x @ e)) (split_on CHR ''/'' (y @ f))"
    if "x @ e \<noteq> y @ f" "CHR ''/'' \<notin> set e" "CHR ''/'' \<notin> set f"
      "\<forall>c \<in> set (butlast (split_on CHR ''/'' y)). \<not> has_suffix c e" for x y e f
  proof
    let ?x = "split_on CHR ''/'' (x @ e)" and ?y = "split_on CHR ''/'' (y @ f)"
    assume "prefix ?x ?y"
    moreover have "?x \<noteq> ?y" using that(1) by (metis join_split)
    ultimately have sp: "strict_prefix ?x ?y" by (simp add: strict_prefix_def)
    have "last (split_on CHR ''/'' x) @ e \<in> set (butlast ?y)"
      using sp that(2) by (intro inner_hit [of "butlast (split_on CHR ''/'' x)"]) (simp add: split_on_ext [symmetric])
    then have "last (split_on CHR ''/'' x) @ e \<in> set (butlast (split_on CHR ''/'' y))"
      using that(3) by (simp add: split_on_ext)
    with that(4) show False by fastforce
  qed
  show ?thesis using nopre [of p e r f] nopre [of r f p e] assms by (auto simp: parallel_def)
qed

lemma mirror_components_parallel:
  assumes "p \<noteq> r"
    and "\<forall>c \<in> set (butlast (split_on CHR ''/'' p)). \<not> has_suffix c ''.git''"
    and "\<forall>c \<in> set (butlast (split_on CHR ''/'' r)). \<not> has_suffix c ''.git''"
  shows "split_on CHR ''/'' (p @ ''.git'') \<parallel> split_on CHR ''/'' (r @ ''.git'')"
  using assms by (intro layout_parallel) auto

lemma parallel_no_common:
  "us \<parallel> vs \<Longrightarrow> prefix (us @ as) q \<Longrightarrow> \<not> prefix (vs @ bs) q"
  by (meson append_prefixD parallelE prefix_same_cases)

lemma parallel_extend: "us \<parallel> vs \<Longrightarrow> (R @ us) \<parallel> (R @ vs)"
  by (auto simp: parallel_def)

lemma prune_keeps_listed:
  assumes wf: "wf_os s" and stale: "staleMirrors dest archive_dir repos s = Inr stale"
    and opts: "o_dest opts = dest" "o_archive_dir opts = archive_dir"
    and apart: "at_path s dest \<parallel> at_path s archive_dir"
    and tidy: "\<forall>r \<in> set repos. tidy_path (repo_path r)"
    and disk: "\<forall>p. archive_on_disk archive_dir s p \<longrightarrow> (\<forall>c \<in> set (butlast (split_on CHR ''/'' p)). \<not> has_suffix c ''.git'')"
    and mach: "os_mach s1 = os_mach s" and run: "prune opts stale s1 = (n, s')" and r: "r \<in> set repos"
  shows "(\<forall>q. prefix (at_path s (mirror_path dest (repo_path r))) q \<longrightarrow> look s' q = look s1 q)
       \<and> look s' (at_path s (archive_path archive_dir (repo_path r)))
           = look s1 (at_path s (archive_path archive_dir (repo_path r)))"
proof -
  let ?D = "at_path s dest" and ?A = "at_path s archive_dir" and ?r = "repo_path r"
  have rp: "plain_rel ?r" "\<forall>c \<in> set (butlast (split_on CHR ''/'' ?r)). \<not> has_suffix c ''.git''"
    using tidy r by (auto simp: tidy_path_def)
  have only: "removed_only (prune_reach opts stale s) s1 s'"
    using prune_removed_only [OF run] by (simp only: prune_reach_cong [OF mach])
  have p_facts: "p \<noteq> ?r" "at_path s (mirror_path dest p) = ?D @ split_on CHR ''/'' (p @ ''.git'')"
      "at_path s (archive_path archive_dir p) = ?A @ split_on CHR ''/'' (p @ ''.tar.gz'')"
      "\<forall>c \<in> set (butlast (split_on CHR ''/'' p)). \<not> has_suffix c ''.git''" if "p \<in> set stale" for p
  proof -
    have od: "mirror_on_disk dest s p \<or> archive_on_disk archive_dir s p" and "p \<notin> repo_path ` set repos"
      using stale_paths(3) [OF wf stale] that by auto
    then show "p \<noteq> ?r" using r by auto
    show "at_path s (mirror_path dest p) = ?D @ split_on CHR ''/'' (p @ ''.git'')"
      "at_path s (archive_path archive_dir p) = ?A @ split_on CHR ''/'' (p @ ''.tar.gz'')"
      unfolding mirror_path_def archive_path_def using od on_disk_at(1) [OF wf] by auto
    show "\<forall>c \<in> set (butlast (split_on CHR ''/'' p)). \<not> has_suffix c ''.git''"
      using od disk by (auto simp: on_disk_def isMirrorDir_def split_on_ext)
  qed
  have r_at: "at_path s (mirror_path dest ?r) = ?D @ split_on CHR ''/'' (?r @ ''.git'')"
    "at_path s (archive_path archive_dir ?r) = ?A @ split_on CHR ''/'' (?r @ ''.tar.gz'')"
    unfolding mirror_path_def archive_path_def using at_layout [OF rp(1)] by auto
  have "q \<notin> prune_reach opts stale s" if "prefix (at_path s (mirror_path dest ?r)) q" for q
  proof
    assume "q \<in> prune_reach opts stale s"
    then obtain p where p: "p \<in> set stale"
      "prefix (at_path s (mirror_path dest p)) q \<or> q = at_path s (archive_path archive_dir p)"
      by (auto simp: prune_reach_def opts)
    have "(?D @ split_on CHR ''/'' (p @ ''.git'')) \<parallel> (?D @ split_on CHR ''/'' (?r @ ''.git''))"
      using mirror_components_parallel p_facts(1,4) [OF p(1)] rp(2) by (blast intro: parallel_extend)
    then show False
      using p(2) p_facts(2,3) [OF p(1)] that r_at parallel_no_common [OF apart]
        parallel_no_common [of "?D @ split_on CHR ''/'' (p @ ''.git'')" _ "[]" q "[]"] by fastforce
  qed
  moreover have "at_path s (archive_path archive_dir ?r) \<notin> prune_reach opts stale s"
  proof
    assume "at_path s (archive_path archive_dir ?r) \<in> prune_reach opts stale s"
    then obtain p where p: "p \<in> set stale"
      "prefix (at_path s (mirror_path dest p)) (at_path s (archive_path archive_dir ?r))
       \<or> at_path s (archive_path archive_dir ?r) = at_path s (archive_path archive_dir p)"
      by (auto simp: prune_reach_def opts)
    have "\<not> prefix (?D @ split_on CHR ''/'' (p @ ''.git'')) (?A @ split_on CHR ''/'' (?r @ ''.tar.gz''))"
      using parallel_no_common [OF apart] by blast
    moreover have "split_on CHR ''/'' (p @ ''.tar.gz'') \<noteq> split_on CHR ''/'' (?r @ ''.tar.gz'')"
      using split_ext_inject p_facts(1) [OF p(1)] by blast
    ultimately show False using p(2) p_facts(2,3) [OF p(1)] r_at by auto
  qed
  ultimately show ?thesis using only unfolding removed_only_def by blast
qed

section \<open>Properties\<close>

text \<open>C8: The stale paths are, sorted and without repetition, exactly those for which a mirror or an
  archive is on disk and which the full listing does not have.\<close>

theorem stale_exact:
  assumes "wf_os s" and "staleMirrors dest archive_dir repos s = Inr stale"
  shows "sorted stale \<and> distinct stale \<and>
    (\<forall>p. p \<in> set stale \<longleftrightarrow> (mirror_on_disk dest s p \<or> archive_on_disk archive_dir s p) \<and> p \<notin> repo_path ` set repos)"
  using stale_paths [OF assms] by blast

definition stale_sample :: os where
  "stale_sample = quiet_os [([''w'', ''d''], Dir), ([''w'', ''d'', ''g''], Dir), ([''w'', ''d'', ''g'', ''x.git''], Dir),
     ([''w'', ''d'', ''y.git''], Dir), ([''w'', ''d'', ''y.git'', ''z.git''], Dir), ([''w'', ''a''], Dir), ([''w'', ''a'', ''q.tar.gz''], File [])]"

lemma wf_stale_sample: "wf_os stale_sample"
  by (auto simp: wf_os_def look_def stale_sample_def quiet_os_def quiet_machine_def plain_name_def split: if_splits)

lemma stale_exact_witness:
  "staleMirrors ''d'' ''a'' [\<lparr>repo_path = ''y'', repo_archived = False, repo_empty = False\<rparr>] stale_sample = Inr [''g/x'', ''q''] \<and>
   (mirror_on_disk ''d'' stale_sample ''g/x'' \<or> archive_on_disk ''a'' stale_sample ''g/x'')"
proof -
  have st: "staleMirrors ''d'' ''a'' [\<lparr>repo_path = ''y'', repo_archived = False, repo_empty = False\<rparr>] stale_sample = Inr [''g/x'', ''q'']"
    by code_simp
  from stale_exact [OF wf_stale_sample st] have "\<forall>p. p \<in> {''g/x'', ''q''} \<longrightarrow> mirror_on_disk ''d'' stale_sample p \<or> archive_on_disk ''a'' stale_sample p"
    by auto
  with st show ?thesis by blast
qed

text \<open>C7: With the flag, and nothing refusing to be deleted, pruning removes every stale mirror with
  everything in it and every stale archive, and counts each one. A mirror's path must not
  lead through a file, as it can when only the archive of a repository is left: \<open>os.RemoveAll\<close>
  fails there.\<close>

theorem prune_complete:
  assumes "wf_os s" and "o_prune_removed opts" and "\<forall>q. m_fault (os_mach s) (SysUnlink q) = None"
    and "\<forall>r \<in> set stale. \<forall>q. strict_prefix q (at_path s (mirror_path (o_dest opts) r)) \<longrightarrow> look s q \<in> {None, Some Dir}"
    and "prune opts stale s = (n, s')" and "p \<in> set stale"
  shows "n = int (length stale)
    \<and> (\<forall>q. prefix (at_path s (mirror_path (o_dest opts) p)) q \<longrightarrow> look s' q = None)
    \<and> look s' (at_path s (archive_path (o_archive_dir opts) p)) \<in> {None, Some Dir}"
proof -
  note through = assms(4) [folded through_dirs_def]
  note pr = prune_removes [OF assms(1-3,5,6) bspec [OF through assms(6)]]
  have "look s (at_path s (archive_path (o_archive_dir opts) p)) \<noteq> Some Dir
      \<Longrightarrow> look s' (at_path s (archive_path (o_archive_dir opts) p)) = None" using pr by blast
  moreover have "look s q = Some Dir \<Longrightarrow> look s' q \<in> {None, Some Dir}" for q
    using prune_removed_only [OF assms(5)] unfolding removed_only_def by (metis insertCI)
  ultimately show ?thesis using pr prune_counts [OF assms(2,3) through assms(5)] by blast
qed

definition stale_options :: options where
  "stale_options = \<lparr>o_dest = ''d'', o_state = StateAll, o_archive = ArchiveNone, o_archive_dir = ''a'',
     o_concurrency = 1, o_prune_removed = True, o_export_metadata = []\<rparr>"

lemma prune_complete_witness:
  "case prune stale_options [''g/x'', ''q''] stale_sample of (n, s') \<Rightarrow>
     n = 2 \<and> look s' [''w'', ''d'', ''g'', ''x.git''] = None"
proof -
  obtain n s' where p: "prune stale_options [''g/x'', ''q''] stale_sample = (n, s')" by fastforce
  have "\<forall>q. m_fault (os_mach stale_sample) (SysUnlink q) = None" by (simp add: stale_sample_def quiet_os_def quiet_machine_def)
  moreover have "o_prune_removed stale_options" by (simp add: stale_options_def)
  moreover have at: "at_path stale_sample (mirror_path (o_dest stale_options) ''g/x'') = [''w'', ''d'', ''g'', ''x.git'']"
    "at_path stale_sample (mirror_path (o_dest stale_options) ''q'') = [''w'', ''d'', ''q.git'']" by code_simp+
  moreover have "through_dirs stale_sample [''w'', ''d'', ''g'', ''x.git'']" "through_dirs stale_sample [''w'', ''d'', ''q.git'']"
    unfolding through_dirs_code by code_simp+
  ultimately show ?thesis using prune_complete [OF wf_stale_sample _ _ _ p, of "''g/x''"] p
    by (simp add: through_dirs_def)
qed

end
