(* ===== verification/GoUrl.thy ===== *)
theory GoUrl
  imports Forge
begin

text \<open>
  Go's \<open>net/url\<close> as far as the clients build URLs with it: escaping of paths, path segments
  and query components, \<open>URL.JoinPath\<close>, \<open>URL.EscapedPath\<close>, \<open>Values.Set\<close>, \<open>Values.Encode\<close> and
  \<open>URL.String\<close>. Parsing a URL string is a parameter of the model (\<open>url_parser\<close>): the code
  only relies on it failing or giving a URL. Fragments and opaque URLs do not occur. Also
  \<open>encoding/base64\<close> and the Authorization values of \<open>internal/httpauth\<close>.
\<close>

record url =
  u_scheme :: string
  u_user :: "string option"
  u_host :: string
  u_path :: string
  u_rawpath :: string
  u_rawquery :: string

type_synonym url_parser = "string \<Rightarrow> url option"

section \<open>Escaping\<close>

datatype encoding = EncPath | EncPathSegment | EncQuery

definition is_alnum :: "char \<Rightarrow> bool" where
  "is_alnum c = (let n = (of_char c :: nat) in (48 \<le> n \<and> n \<le> 57) \<or> (65 \<le> n \<and> n \<le> 90) \<or> (97 \<le> n \<and> n \<le> 122))"

definition should_escape :: "encoding \<Rightarrow> char \<Rightarrow> bool" where
  "should_escape m c =
     (if is_alnum c \<or> c \<in> set ''-_.~'' then False
      else if c \<in> set ''$&+,/:;=?@'' then
        (case m of
           EncPath \<Rightarrow> c = CHR ''?''
         | EncPathSegment \<Rightarrow> c \<in> set ''/;,?''
         | EncQuery \<Rightarrow> True)
      else True)"

definition hex_digit :: "nat \<Rightarrow> char" where
  "hex_digit d = (if d < 10 then char_of (48 + d) else char_of (55 + d))"

definition unhex :: "char \<Rightarrow> nat option" where
  "unhex c = (let n = (of_char c :: nat) in
     if 48 \<le> n \<and> n \<le> 57 then Some (n - 48)
     else if 97 \<le> n \<and> n \<le> 102 then Some (n - 87)
     else if 65 \<le> n \<and> n \<le> 70 then Some (n - 55)
     else None)"

definition escape_char :: "encoding \<Rightarrow> char \<Rightarrow> string" where
  "escape_char m c =
     (if c = CHR '' '' \<and> m = EncQuery then ''+''
      else if should_escape m c then [CHR ''%'', hex_digit (of_char c div 16), hex_digit (of_char c mod 16)]
      else [c])"

definition escape :: "encoding \<Rightarrow> string \<Rightarrow> string" where
  "escape m s = concat (map (escape_char m) s)"

fun unescape :: "encoding \<Rightarrow> string \<Rightarrow> string option" where
  "unescape m [] = Some []"
| "unescape m (c # s) =
     (if c = CHR ''%'' then
        (case s of
           h # l # s' \<Rightarrow>
             (case (unhex h, unhex l) of
                (Some a, Some b) \<Rightarrow> map_option (\<lambda>t. char_of (16 * a + b) # t) (unescape m s')
              | _ \<Rightarrow> None)
         | _ \<Rightarrow> None)
      else if c = CHR ''+'' \<and> m = EncQuery then map_option (\<lambda>t. CHR '' '' # t) (unescape m s)
      else map_option (\<lambda>t. c # t) (unescape m s))"

definition path_escape :: "string \<Rightarrow> string" where
  "path_escape s = escape EncPathSegment s"

definition query_escape :: "string \<Rightarrow> string" where
  "query_escape s = escape EncQuery s"

definition valid_encoded :: "encoding \<Rightarrow> string \<Rightarrow> bool" where
  "valid_encoded m s = list_all (\<lambda>c. c \<in> set ''!$&'' \<or> c = CHR 0x27 \<or> c \<in> set ''()*+,;=:@[]%'' \<or> \<not> should_escape m c) s"

section \<open>URLs\<close>

definition escaped_path :: "url \<Rightarrow> string" where
  "escaped_path u =
     (if u_rawpath u \<noteq> [] \<and> valid_encoded EncPath (u_rawpath u) \<and> unescape EncPath (u_rawpath u) = Some (u_path u)
      then u_rawpath u
      else if u_path u = ''*'' then ''*''
      else escape EncPath (u_path u))"

definition set_path :: "string \<Rightarrow> url \<Rightarrow> url" where
  "set_path p u =
     (case unescape EncPath p of
        None \<Rightarrow> u
      | Some path \<Rightarrow> u\<lparr>u_path := path, u_rawpath := (if escape EncPath path = p then [] else p)\<rparr>)"

text \<open>\<open>path.Join\<close> is \<open>filepath.Join\<close> on Unix.\<close>

definition join_path :: "url \<Rightarrow> string \<Rightarrow> url" where
  "join_path u elem =
     (let e = escaped_path u;
          p = (if has_prefix e ''/'' then fpjoin [e, elem] else drop 1 (fpjoin [''/'' @ e, elem]));
          p' = (if has_suffix elem ''/'' \<and> \<not> has_suffix p ''/'' then p @ ''/'' else p)
      in set_path p' u)"

definition url_string :: "url \<Rightarrow> string" where
  "url_string u =
     (let path = escaped_path u in
      (if u_scheme u \<noteq> [] then u_scheme u @ '':'' else [])
      @ (if u_scheme u \<noteq> [] \<or> u_host u \<noteq> [] \<or> u_user u \<noteq> None then
           (if u_host u \<noteq> [] \<or> u_path u \<noteq> [] \<or> u_user u \<noteq> None then ''//'' else [])
           @ (case u_user u of Some i \<Rightarrow> i @ ''@'' | None \<Rightarrow> [])
           @ u_host u
         else [])
      @ (if path \<noteq> [] \<and> \<not> is_rooted path \<and> u_host u \<noteq> [] then ''/'' else [])
      @ path
      @ (if u_rawquery u \<noteq> [] then ''?'' @ u_rawquery u else []))"

section \<open>Queries\<close>

type_synonym url_values = "(string \<times> string list) list"

definition cut :: "char \<Rightarrow> string \<Rightarrow> string \<times> string" where
  "cut c s = (takeWhile (\<lambda>x. x \<noteq> c) s, drop 1 (dropWhile (\<lambda>x. x \<noteq> c) s))"

fun add_value :: "string \<Rightarrow> string \<Rightarrow> url_values \<Rightarrow> url_values" where
  "add_value k v [] = [(k, [v])]"
| "add_value k v ((k', vs) # q) = (if k' = k then (k', vs @ [v]) # q else (k', vs) # add_value k v q)"

definition parse_query :: "string \<Rightarrow> url_values" where
  "parse_query s =
     fold (\<lambda>part q.
        if part = [] \<or> CHR '';'' \<in> set part then q
        else (case cut CHR ''='' part of (k, v) \<Rightarrow>
                (case (unescape EncQuery k, unescape EncQuery v) of
                   (Some k', Some v') \<Rightarrow> add_value k' v' q
                 | _ \<Rightarrow> q)))
       (split_on CHR ''&'' s) []"

definition set_value :: "string \<Rightarrow> string \<Rightarrow> url_values \<Rightarrow> url_values" where
  "set_value k v q = (k, [v]) # filter (\<lambda>e. fst e \<noteq> k) q"

definition encode_values :: "url_values \<Rightarrow> string" where
  "encode_values q =
     join_with ''&'' (concat (map (\<lambda>k. case map_of q k of
                                        Some vs \<Rightarrow> map (\<lambda>v. query_escape k @ ''='' @ query_escape v) vs
                                      | None \<Rightarrow> [])
                              (sort (remdups (map fst q)))))"

text \<open>\<open>q := u.Query(); q.Set(k, v) \<dots>; u.RawQuery = q.Encode()\<close>.\<close>

definition with_query :: "(string \<times> string) list \<Rightarrow> url \<Rightarrow> url" where
  "with_query kvs u =
     u\<lparr>u_rawquery := encode_values (fold (\<lambda>(k, v) q. set_value k v q) kvs (parse_query (u_rawquery u)))\<rparr>"

section \<open>Basic authentication\<close>

definition b64_alphabet :: string where
  "b64_alphabet = ''ABCDEFGHIJKLMNOPQRSTUVWXYZabcdefghijklmnopqrstuvwxyz0123456789+/''"

definition b64_char :: "nat \<Rightarrow> char" where
  "b64_char n = b64_alphabet ! n"

definition b64_triple :: "nat \<Rightarrow> nat \<Rightarrow> nat \<Rightarrow> nat list" where
  "b64_triple a b c = [a div 4, (a mod 4) * 16 + b div 16, (b mod 16) * 4 + c div 64, c mod 64]"

fun b64_encode :: "string \<Rightarrow> string" where
  "b64_encode (a # b # c # s) = map b64_char (b64_triple (of_char a) (of_char b) (of_char c)) @ b64_encode s"
| "b64_encode [a, b] = map b64_char (take 3 (b64_triple (of_char a) (of_char b) 0)) @ ''=''"
| "b64_encode [a] = map b64_char (take 2 (b64_triple (of_char a) 0 0)) @ ''==''"
| "b64_encode [] = []"

definition Basic :: "string \<Rightarrow> string \<Rightarrow> string" where
  "Basic user password = b64_encode (user @ '':'' @ password)"

end
