(* ===== verification/Mirror.thy ===== *)
theory Mirror
  imports GoUrl
begin

text \<open>
  Keeping one bare mirror up to date (\<open>mirror.go\<close>, \<open>mirror_lfs.go\<close>). git and git-lfs are
  programs outside the repository: \<open>tool\<close> stands for them. It is given the command line and
  the directory the command works in and answers with the exit status, the output and that
  directory's new content; that a command works nowhere else is the one thing the model
  builds in about them. Every command started is recorded with its arguments and
  environment, so what the program passes to git can be stated.
\<close>

datatype cmd_result = Exited nat string | CannotStart

type_synonym dir_tree = "(fpath \<times> node) list"
type_synonym tool = "command \<Rightarrow> dir_tree \<Rightarrow> cmd_result \<times> dir_tree"

definition subtree :: "fpath \<Rightarrow> os \<Rightarrow> dir_tree" where
  "subtree p s = map (\<lambda>(q, n). (drop (length p) q, n)) (filter (\<lambda>e. prefix p (fst e)) (os_tree s))"

definition graft :: "fpath \<Rightarrow> dir_tree \<Rightarrow> os \<Rightarrow> os" where
  "graft p t s = s\<lparr>os_tree := map (\<lambda>(q, n). (p @ q, n)) t @ filter (\<lambda>e. \<not> prefix p (fst e)) (os_tree s)\<rparr>"

definition record_cmd :: "command \<Rightarrow> os \<Rightarrow> os" where
  "record_cmd c s = s\<lparr>os_execs := os_execs s @ [c]\<rparr>"

text \<open>A command that may change the directory \<open>p\<close>, and one that only reads it.\<close>

definition exec_in :: "tool \<Rightarrow> command \<Rightarrow> fpath \<Rightarrow> os \<Rightarrow> cmd_result \<times> os" where
  "exec_in tool c p s = (case tool c (subtree p s) of (r, t) \<Rightarrow> (r, graft p t (record_cmd c s)))"

definition exec_read :: "tool \<Rightarrow> command \<Rightarrow> fpath \<Rightarrow> os \<Rightarrow> cmd_result \<times> os" where
  "exec_read tool c p s = (fst (tool c (subtree p s)), record_cmd c s)"

fun cmd_error :: "cmd_result \<Rightarrow> err option" where
  "cmd_error (Exited n out) = (if n = 0 then None else Some (ExitError n))"
| "cmd_error CannotStart = Some NotStarted"

fun cmd_output :: "cmd_result \<Rightarrow> string" where
  "cmd_output (Exited n out) = out"
| "cmd_output CannotStart = []"

record mirror =
  git_path :: string
  git_lfs_path :: string

section \<open>Where the programs are and what they are told\<close>

definition gitPath :: "mirror \<Rightarrow> os \<Rightarrow> err + string" where
  "gitPath m s =
     (if git_path m \<noteq> [] then Inr (git_path m)
      else (case m_lookpath (os_mach s) ''git'' of None \<Rightarrow> Inl ErrGitNotFound | Some p \<Rightarrow> Inr p))"

definition gitLFSPath :: "mirror \<Rightarrow> os \<Rightarrow> err + string" where
  "gitLFSPath m s =
     (if git_lfs_path m \<noteq> [] then Inr (git_lfs_path m)
      else (case m_lookpath (os_mach s) ''git-lfs'' of None \<Rightarrow> Inl ErrGitLFSNotFound | Some p \<Rightarrow> Inr p))"

definition gitEnv :: "os \<Rightarrow> string list" where
  "gitEnv s =
     filter (\<lambda>kv. \<not> (has_prefix kv ''GIT_DIR='' \<or> has_prefix kv ''GIT_WORK_TREE='' \<or> has_prefix kv ''GIT_INDEX_FILE=''))
       (m_environ (os_mach s))"

definition credentialEnv :: "url_parser \<Rightarrow> remote \<Rightarrow> os \<Rightarrow> err + string list" where
  "credentialEnv parse r s =
     (let env = gitEnv s @ [''GIT_TERMINAL_PROMPT=0''] in
      if auth_header r = [] then Inr env
      else (case parse (clone_url r) of
              None \<Rightarrow> Inl (Wrap ''parse clone url'' UrlError)
            | Some u \<Rightarrow> Inr (env @
                [''GIT_CONFIG_COUNT=1'',
                 ''GIT_CONFIG_KEY_0=http.'' @ u_scheme u @ ''://'' @ u_host u @ ''/.extraHeader'',
                 ''GIT_CONFIG_VALUE_0=Authorization: '' @ auth_header r])))"

section \<open>Clone and update\<close>

definition clone :: "tool \<Rightarrow> url_parser \<Rightarrow> string \<Rightarrow> remote \<Rightarrow> string \<Rightarrow> os \<Rightarrow> (err + unit) \<times> os" where
  "clone tool parse git r d s =
     (let partial = d @ ''.partial''; ctx = ''mirror clone '' @ clone_url r in
      case sys_remove_all (at_path s partial) s of
        (Inl e, s1) \<Rightarrow> (Inl (Wrap ctx (OsErr e)), s1)
      | (Inr _, s1) \<Rightarrow>
          (case credentialEnv parse r s1 of
             Inl e \<Rightarrow> (Inl (Wrap ctx e), s1)
           | Inr env \<Rightarrow>
               (case exec_in tool \<lparr>c_prog = git, c_args = [''clone'', ''--mirror'', clone_url r, partial], c_dir = [], c_env = env\<rparr>
                       (at_path s1 partial) s1 of
                  (res, s2) \<Rightarrow>
                    (case cmd_error res of
                       Some e \<Rightarrow> (Inl (Wrap ctx e), s2)
                     | None \<Rightarrow>
                         (case sys_rename (at_path s2 partial) (at_path s2 d) s2 of
                            (Inl e, s3) \<Rightarrow> (Inl (Wrap ctx (OsErr e)), s3)
                          | (Inr _, s3) \<Rightarrow> (Inr (), s3))))))"

definition update :: "tool \<Rightarrow> url_parser \<Rightarrow> string \<Rightarrow> remote \<Rightarrow> string \<Rightarrow> os \<Rightarrow> (err + unit) \<times> os" where
  "update tool parse git r d s =
     (let ctx = ''mirror update '' @ clone_url r in
      case credentialEnv parse r s of
        Inl e \<Rightarrow> (Inl (Wrap ctx e), s)
      | Inr env \<Rightarrow>
          (case exec_in tool \<lparr>c_prog = git, c_args = [''-C'', d, ''remote'', ''update'', ''--prune''], c_dir = [], c_env = env\<rparr>
                  (at_path s d) s of
             (res, s1) \<Rightarrow>
               (case cmd_error res of
                  Some e \<Rightarrow> (Inl (Wrap ctx e), s1)
                | None \<Rightarrow> (Inr (), s1))))"

section \<open>Git LFS\<close>

definition isGrepNoMatch :: "err \<Rightarrow> bool" where
  "isGrepNoMatch e \<longleftrightarrow> e = ExitError 1"

definition refTips :: "tool \<Rightarrow> string \<Rightarrow> string \<Rightarrow> os \<Rightarrow> (err + string list) \<times> os" where
  "refTips tool git d s =
     (case exec_read tool \<lparr>c_prog = git, c_args = [''-C'', d, ''for-each-ref'', ''--format=%(objectname)''], c_dir = [], c_env = gitEnv s\<rparr>
             (at_path s d) s of
        (res, s1) \<Rightarrow>
          (case cmd_error res of
             Some e \<Rightarrow> (Inl (Wrap ''list refs'' e), s1)
           | None \<Rightarrow>
               (let trimmed = trim_space (cmd_output res)
                in if trimmed = [] then (Inr [], s1)
                   else (Inr (split_on CHR ''\<newline>'' trimmed), s1))))"

definition usesLFS :: "tool \<Rightarrow> string \<Rightarrow> string \<Rightarrow> os \<Rightarrow> (err + bool) \<times> os" where
  "usesLFS tool git d s =
     (case refTips tool git d s of
        (Inl e, s1) \<Rightarrow> (Inl e, s1)
      | (Inr refs, s1) \<Rightarrow>
          if refs = [] then (Inr False, s1)
          else
            (case exec_read tool
                    \<lparr>c_prog = git,
                     c_args = [''-C'', d, ''grep'', ''--quiet'', ''-e'', ''filter=lfs''] @ refs @ [''--'', '':(glob)**/.gitattributes''],
                     c_dir = [], c_env = gitEnv s1\<rparr>
                    (at_path s1 d) s1 of
               (res, s2) \<Rightarrow>
                 (case cmd_error res of
                    None \<Rightarrow> (Inr True, s2)
                  | Some e \<Rightarrow> if isGrepNoMatch e then (Inr False, s2) else (Inl (Wrap ''check lfs usage'' e), s2))))"

definition syncLFS :: "tool \<Rightarrow> url_parser \<Rightarrow> mirror \<Rightarrow> string \<Rightarrow> remote \<Rightarrow> string \<Rightarrow> os \<Rightarrow> (err + unit) \<times> os" where
  "syncLFS tool parse m git r d s =
     (let ctx = ''mirror lfs '' @ clone_url r in
      case usesLFS tool git d s of
        (Inl e, s1) \<Rightarrow> (Inl (Wrap ctx e), s1)
      | (Inr uses, s1) \<Rightarrow>
          if \<not> uses then (Inr (), s1)
          else
            (case gitLFSPath m s1 of
               Inl e \<Rightarrow> (Inl (Wrap ctx e), s1)
             | Inr gitLFS \<Rightarrow>
                 (case credentialEnv parse r s1 of
                    Inl e \<Rightarrow> (Inl (Wrap ctx e), s1)
                  | Inr env \<Rightarrow>
                      (case exec_in tool \<lparr>c_prog = gitLFS, c_args = [''fetch'', ''--all''], c_dir = d, c_env = env\<rparr>
                              (at_path s1 d) s1 of
                         (res, s2) \<Rightarrow>
                           (case cmd_error res of
                              Some e \<Rightarrow> (Inl (Wrap ctx e), s2)
                            | None \<Rightarrow> (Inr (), s2))))))"

section \<open>Sync\<close>

definition Sync :: "tool \<Rightarrow> url_parser \<Rightarrow> mirror \<Rightarrow> remote \<Rightarrow> string \<Rightarrow> os \<Rightarrow> (err + unit) \<times> os" where
  "Sync tool parse m r d s =
     (case gitPath m s of
        Inl e \<Rightarrow> (Inl e, s)
      | Inr git \<Rightarrow>
          (case (case sys_stat (at_path s (fpjoin [d, ''HEAD''])) s of
                   Inr _ \<Rightarrow> update tool parse git r d s
                 | Inl _ \<Rightarrow> clone tool parse git r d s) of
             (Inl e, s1) \<Rightarrow> (Inl e, s1)
           | (Inr _, s1) \<Rightarrow> syncLFS tool parse m git r d s1))"


section \<open>Where a sync works\<close>

lemma map_of_graft: "map_of (map (\<lambda>(q, n). (p @ q, n)) t) r = (if prefix p r then map_of t (drop (length p) r) else None)"
  by (induction t) (auto simp: prefix_def)

lemma look_graft: "p \<noteq> [] \<Longrightarrow> look (graft p t s) q = (if prefix p q then map_of t (drop (length p) q) else look s q)"
  by (auto simp: look_def graft_def map_add_def map_of_graft
        map_of_filter_key [where P = "\<lambda>e. \<not> prefix p e"] split: option.splits)

lemma mach_mirror [simp]: "os_mach (graft p t s) = os_mach s" "os_mach (record_cmd c s) = os_mach s"
  by (simp_all add: graft_def record_cmd_def)

lemma look_record_cmd [simp]: "look (record_cmd c s) = look s"
  by (simp add: record_cmd_def)

lemma confined_graft: "p \<in> A \<Longrightarrow> confined A s (graft p t s)"
  by (cases "p = []") (auto simp: confined_def look_graft)

lemma confined_record_cmd [simp]: "confined A (record_cmd c s) s' = confined A s s'"
  "confined A s (record_cmd c s') = confined A s s'"
  by (simp_all add: record_cmd_def)

lemma confined_exec_in [frame_intros]:
  "exec_in tool c p s = (r, s') \<Longrightarrow> p \<in> A \<Longrightarrow> confined A s s'"
  using confined_graft [of p A "record_cmd c s"] by (auto simp: exec_in_def split: prod.splits)

lemma exec_read_effect: "exec_read tool c p s = (r, s') \<Longrightarrow> s' = record_cmd c s"
  by (simp add: exec_read_def)

text \<open>How a clone can go: it stops before git runs, or git runs and decides.\<close>

abbreviation clone_cmd :: "string \<Rightarrow> remote \<Rightarrow> string \<Rightarrow> string list \<Rightarrow> command" where
  "clone_cmd git r d env \<equiv> \<lparr>c_prog = git, c_args = [''clone'', ''--mirror'', clone_url r, d @ ''.partial''], c_dir = [], c_env = env\<rparr>"

lemma clone_cases:
  assumes "clone tool parse git r d s = (x, s')"
  obtains (early) y e where "sys_remove_all (at_path s (d @ ''.partial'')) s = (y, s')" "x = Inl e"
  | (git_failed) s1 env res e where "sys_remove_all (at_path s (d @ ''.partial'')) s = (Inr (), s1)"
      "credentialEnv parse r s1 = Inr env"
      "exec_in tool (clone_cmd git r d env) (at_path s1 (d @ ''.partial'')) s1 = (res, s')"
      "cmd_error res = Some e" "x = Inl (Wrap (''mirror clone '' @ clone_url r) e)"
  | (renamed) s1 env res s2 z where "sys_remove_all (at_path s (d @ ''.partial'')) s = (Inr (), s1)"
      "credentialEnv parse r s1 = Inr env"
      "exec_in tool (clone_cmd git r d env) (at_path s1 (d @ ''.partial'')) s1 = (res, s2)"
      "cmd_error res = None" "sys_rename (at_path s2 (d @ ''.partial'')) (at_path s2 d) s2 = (z, s')"
      "x = (case z of Inl e \<Rightarrow> Inl (Wrap (''mirror clone '' @ clone_url r) (OsErr e)) | Inr _ \<Rightarrow> Inr ())"
proof -
  obtain y s1 where rm: "sys_remove_all (at_path s (d @ ''.partial'')) s = (y, s1)" by fastforce
  show ?thesis
  proof (cases y)
    case (Inl e)
    then show ?thesis using assms rm by (intro early) (auto simp: clone_def Let_def)
  next
    case y: (Inr u)
    show ?thesis
    proof (cases "credentialEnv parse r s1")
      case (Inl e)
      then show ?thesis using assms rm y by (intro early) (auto simp: clone_def Let_def)
    next
      case env: (Inr env)
      obtain res s2 where ex: "exec_in tool (clone_cmd git r d env) (at_path s1 (d @ ''.partial'')) s1 = (res, s2)"
        by fastforce
      show ?thesis
      proof (cases "cmd_error res")
        case (Some e)
        then show ?thesis using assms rm y env ex by (intro git_failed) (auto simp: clone_def Let_def)
      next
        case None
        obtain z s3 where "sys_rename (at_path s2 (d @ ''.partial'')) (at_path s2 d) s2 = (z, s3)" by fastforce
        moreover have "s3 = s'" and "x = (case z of Inl e \<Rightarrow> Inl (Wrap (''mirror clone '' @ clone_url r) (OsErr e)) | Inr _ \<Rightarrow> Inr ())"
          using assms rm y env ex None calculation by (auto simp: clone_def Let_def split: sum.splits)
        ultimately show ?thesis using rm y env ex None by (auto intro: renamed)
      qed
    qed
  qed
qed

lemma confined_clone [frame_intros]:
  assumes "clone tool parse git r d s = (x, s')"
    and A: "at_path s (d @ ''.partial'') \<in> A" "at_path s d \<in> A"
  shows "confined A s s'"
  using assms(1)
proof (cases rule: clone_cases)
  case (early y e)
  then show ?thesis using A(1) by (auto intro: confined_remove_all)
next
  case (git_failed s1 env res e)
  have 1: "confined A s s1" using git_failed(1) A(1) by (rule confined_remove_all)
  have "confined A s1 s'" using git_failed(3) A(1) by (simp add: confined_exec_in confined_at [OF 1])
  then show ?thesis by (rule confined_trans [OF 1])
next
  case (renamed s1 env res s2 z)
  have 1: "confined A s s1" using renamed(1) A(1) by (rule confined_remove_all)
  have "confined A s1 s2" using renamed(3) A(1) by (simp add: confined_exec_in confined_at [OF 1])
  then have 2: "confined A s s2" by (rule confined_trans [OF 1])
  have "confined A s2 s'" using renamed(5) A by (simp add: confined_rename confined_at [OF 2])
  then show ?thesis by (rule confined_trans [OF 2])
qed

lemma confined_update [frame_intros]:
  assumes "update tool parse git r d s = (x, s')" "at_path s d \<in> A"
  shows "confined A s s'"
  using assms by (auto simp: update_def Let_def intro: confined_exec_in split: sum.splits prod.splits option.splits)

abbreviation refs_cmd :: "string \<Rightarrow> string \<Rightarrow> os \<Rightarrow> command" where
  "refs_cmd git d s \<equiv> \<lparr>c_prog = git, c_args = [''-C'', d, ''for-each-ref'', ''--format=%(objectname)''], c_dir = [], c_env = gitEnv s\<rparr>"

abbreviation grep_cmd :: "string \<Rightarrow> string \<Rightarrow> string list \<Rightarrow> os \<Rightarrow> command" where
  "grep_cmd git d refs s \<equiv>
     \<lparr>c_prog = git, c_args = [''-C'', d, ''grep'', ''--quiet'', ''-e'', ''filter=lfs''] @ refs @ [''--'', '':(glob)**/.gitattributes''],
      c_dir = [], c_env = gitEnv s\<rparr>"

lemma gitEnv_record [simp]: "gitEnv (record_cmd c s) = gitEnv s"
  by (simp add: gitEnv_def)

lemma refTips_effect: "refTips tool git d s = (x, s') \<Longrightarrow> s' = record_cmd (refs_cmd git d s) s"
  by (auto simp: refTips_def exec_read_def Let_def split: option.splits if_splits)

lemma usesLFS_effect:
  assumes "usesLFS tool git d s = (x, s')"
  obtains "s' = record_cmd (refs_cmd git d s) s"
  | refs where "s' = record_cmd (grep_cmd git d refs s) (record_cmd (refs_cmd git d s) s)"
proof -
  obtain y s1 where r: "refTips tool git d s = (y, s1)" by fastforce
  note s1 = refTips_effect [OF r]
  show ?thesis
  proof (cases "s' = s1")
    case False
    with assms r obtain refs where "y = Inr refs" "refs \<noteq> []" by (cases y) (auto simp: usesLFS_def split: if_splits)
    with assms r have "s' = record_cmd (grep_cmd git d refs s1) s1"
      by (auto simp: usesLFS_def exec_read_def split: option.splits if_splits)
    with s1 that(2) show ?thesis by simp
  qed (use s1 that(1) in simp)
qed

lemma usesLFS_confined: "usesLFS tool git d s = (x, s') \<Longrightarrow> confined A s s' \<and> look s' = look s"
  by (erule usesLFS_effect) simp_all

lemma confined_syncLFS [frame_intros]:
  assumes "syncLFS tool parse m git r d s = (x, s')" "at_path s d \<in> A"
  shows "confined A s s'"
proof -
  obtain y s1 where u: "usesLFS tool git d s = (y, s1)" by fastforce
  then have c: "confined A s s1" by (simp add: usesLFS_confined)
  have "confined A s1 s'" using assms u confined_at [OF c, of d]
    by (auto simp: syncLFS_def Let_def intro: confined_exec_in split: sum.splits prod.splits option.splits if_splits)
  with c show ?thesis by (rule confined_trans)
qed

lemma confined_Sync:
  assumes "Sync tool parse m r d s = (x, s')"
  shows "confined {at_path s d, at_path s (d @ ''.partial'')} s s'"
proof -
  let ?A = "{at_path s d, at_path s (d @ ''.partial'')}"
  show ?thesis
  proof (cases "s' = s")
    case False
    with assms obtain git y s1
      where first: "update tool parse git r d s = (y, s1) \<or> clone tool parse git r d s = (y, s1)"
      and rest: "s' = s1 \<or> syncLFS tool parse m git r d s1 = (x, s')"
      by (fastforce simp: Sync_def split: sum.splits prod.splits)
    have c: "confined ?A s s1" using first by (auto intro: confined_update confined_clone)
    have "confined ?A s1 s'" using rest by (auto intro: confined_syncLFS simp: confined_at [OF c])
    with c show ?thesis by (rule confined_trans)
  qed simp
qed

interpretation git: mirrorer_contract "Sync tool parse m" for tool parse m
  by unfold_locales (rule confined_Sync)

section \<open>A clone is all or nothing\<close>

lemma subtree_removed:
  assumes "sys_remove_all p s = (Inr (), s1)"
  shows "subtree p s1 = []"
proof -
  have "filter (\<lambda>q. fault s (SysUnlink q) \<noteq> None) (below p s) = []"
    using assms by (auto simp: sys_remove_all_def Let_def split: list.splits)
  then have "s1 = keep (\<lambda>q. \<not> prefix p q) s" using assms by (simp add: sys_remove_all_def)
  then show ?thesis by (simp add: subtree_def keep_def)
qed

lemma partial_parallel: "proper_dir d \<Longrightarrow> at_path s d \<parallel> at_path s (d @ ''.partial'')"
  unfolding at_path_def by (rule sibling_parallel) auto

definition mirror_tree :: "string \<Rightarrow> os \<Rightarrow> fpath \<Rightarrow> node option" where
  "mirror_tree d s q = look s (at_path s d @ q)"

text \<open>Nothing but a finished rename changes the mirror's own directory.\<close>

lemma exec_in_outside:
  "exec_in tool c p s = (r, s') \<Longrightarrow> \<not> prefix p q \<Longrightarrow> look s' q = look s q"
  by (cases "p = []") (auto simp: exec_in_def look_graft split: prod.splits)

lemma exec_in_mach: "exec_in tool c p s = (r, s') \<Longrightarrow> os_mach s' = os_mach s"
  by (auto simp: exec_in_def split: prod.splits)

lemma remove_all_mach: "sys_remove_all p s = (r, s') \<Longrightarrow> os_mach s' = os_mach s"
  by (auto simp: sys_remove_all_def Let_def)

lemma remove_all_outside: "sys_remove_all p s = (r, s') \<Longrightarrow> \<not> prefix p q \<Longrightarrow> look s' q = look s q"
  using remove_all_subset by blast

lemma clone_failed:
  assumes "clone tool parse git r d s = (Inl e, s')" "proper_dir d"
  shows "mirror_tree d s' = mirror_tree d s"
proof
  fix q
  let ?p = "at_path s (d @ ''.partial'')"
  have out: "\<not> prefix ?p (at_path s d @ q)"
    by (rule parallel_not_prefix(1) [OF partial_parallel [OF assms(2)]])
  have m: "os_mach s' = os_mach s" using confined_clone [OF assms(1), of UNIV] by (simp add: confined_def)
  have "look s' (at_path s d @ q) = look s (at_path s d @ q)"
    using assms(1)
  proof (cases rule: clone_cases)
    case (early y e)
    then show ?thesis using out remove_all_outside by blast
  next
    case (git_failed s1 env res e)
    have "at_path s1 (d @ ''.partial'') = ?p" by (rule at_path_cong [OF remove_all_mach [OF git_failed(1)]])
    with git_failed(3) out have "look s' (at_path s d @ q) = look s1 (at_path s d @ q)"
      by (auto dest: exec_in_outside)
    with git_failed(1) out show ?thesis using remove_all_outside by metis
  next
    case (renamed s1 env res s2 z)
    have "at_path s1 (d @ ''.partial'') = ?p" by (rule at_path_cong [OF remove_all_mach [OF renamed(1)]])
    with renamed(3) out have "look s2 (at_path s d @ q) = look s1 (at_path s d @ q)"
      by (auto dest: exec_in_outside)
    moreover have "s' = s2" using renamed(5,6) by (cases z) (auto dest: rename_err)
    ultimately show ?thesis using renamed(1) out remove_all_outside by metis
  qed
  then show "mirror_tree d s' q = mirror_tree d s q" by (simp add: mirror_tree_def at_path_cong [OF m])
qed

lemma clone_done:
  assumes "clone tool parse git r d s = (Inr (), s')" "proper_dir d"
  obtains env out t where "credentialEnv parse r s = Inr env"
    and "tool (clone_cmd git r d env) [] = (Exited 0 out, t)"
    and "mirror_tree d s' = map_of t"
    and "mirror_tree (d @ ''.partial'') s' = (\<lambda>_. None)"
  using assms(1)
proof (cases rule: clone_cases)
  case (renamed s1 env res s2 z)
  let ?p = "at_path s (d @ ''.partial'')"
  have m1: "os_mach s1 = os_mach s" using renamed(1) by (rule remove_all_mach)
  have m2: "os_mach s2 = os_mach s" using exec_in_mach [OF renamed(3)] m1 by simp
  from renamed(6) obtain u where z: "z = Inr u" by (cases z) auto
  note ren = renamed(5) [unfolded z at_path_cong [OF m2]]
  have m: "os_mach s' = os_mach s" using rename_mach [OF ren] m2 by simp
  note ok = rename_ok(1) [OF ren]
  obtain t where t: "tool (clone_cmd git r d env) [] = (res, t)" and s2: "s2 = graft ?p t (record_cmd (clone_cmd git r d env) s1)"
    using renamed(3) subtree_removed [OF renamed(1)] by (auto simp: exec_in_def at_path_cong [OF m1] split: prod.splits)
  have par: "at_path s d \<parallel> ?p" by (rule partial_parallel [OF assms(2)])
  then have p: "?p \<noteq> []" by auto
  have look2: "look s2 (?p @ q) = map_of t q" for q using p by (simp add: s2 look_graft)
  from renamed(4) obtain out where "res = Exited 0 out" by (cases res) (auto split: if_splits)
  moreover have "credentialEnv parse r s = Inr env" using renamed(2) m1 by (simp add: credentialEnv_def gitEnv_def)
  moreover have "mirror_tree d s' = map_of t"
    by (simp add: fun_eq_iff mirror_tree_def at_path_cong [OF m] ok look2)
  moreover have "\<not> prefix (at_path s d) (?p @ q)" for q by (rule parallel_not_prefix(2) [OF par])
  then have "mirror_tree (d @ ''.partial'') s' = (\<lambda>_. None)"
    by (simp add: fun_eq_iff mirror_tree_def at_path_cong [OF m] ok)
  ultimately show ?thesis using t that by blast
qed auto

section \<open>What git is told\<close>

text \<open>
  The command lines that talk to the forge, which get the credential through their
  environment, and the ones that only look at the mirror. Neither set mentions the
  credential.
\<close>

definition remote_lines :: "string \<Rightarrow> string \<Rightarrow> string list set" where
  "remote_lines url d =
     {[''clone'', ''--mirror'', url, d @ ''.partial''], [''-C'', d, ''remote'', ''update'', ''--prune''], [''fetch'', ''--all'']}"

definition local_lines :: "string \<Rightarrow> string list set" where
  "local_lines d =
     insert [''-C'', d, ''for-each-ref'', ''--format=%(objectname)'']
       {[''-C'', d, ''grep'', ''--quiet'', ''-e'', ''filter=lfs''] @ refs @ [''--'', '':(glob)**/.gitattributes''] | refs. True}"

definition told_right :: "url_parser \<Rightarrow> remote \<Rightarrow> string \<Rightarrow> os \<Rightarrow> command \<Rightarrow> bool" where
  "told_right parse r d s c \<longleftrightarrow>
     (c_args c \<in> remote_lines (clone_url r) d \<and> credentialEnv parse r s = Inr (c_env c)) \<or>
     (c_args c \<in> local_lines d \<and> c_env c = gitEnv s)"

definition ran :: "(command \<Rightarrow> bool) \<Rightarrow> os \<Rightarrow> os \<Rightarrow> bool" where
  "ran P s s' \<longleftrightarrow> os_mach s' = os_mach s \<and> (\<exists>cs. os_execs s' = os_execs s @ cs \<and> list_all P cs)"

lemma ran_refl [simp]: "ran P s s"
  by (simp add: ran_def)

lemma ran_trans: "ran P s s' \<Longrightarrow> ran P s' s'' \<Longrightarrow> ran P s s''"
  by (auto simp: ran_def)

lemma ran_record: "P c \<Longrightarrow> ran P s (record_cmd c s)"
  by (simp add: ran_def record_cmd_def)

lemma ran_exec_in: "exec_in tool c p s = (r, s') \<Longrightarrow> P c \<Longrightarrow> ran P s s'"
  by (auto simp: ran_def exec_in_def graft_def record_cmd_def split: prod.splits)

lemma ran_remove_all: "sys_remove_all p s = (r, s') \<Longrightarrow> ran P s s'"
  by (auto simp: ran_def sys_remove_all_def Let_def keep_def intro: exI [of _ "[]"])

lemma rename_execs: "sys_rename p q s = (r, s') \<Longrightarrow> os_execs s' = os_execs s"
  by (auto simp: sys_rename_def split: option.splits if_splits)

lemma ran_rename: "sys_rename p q s = (r, s') \<Longrightarrow> ran P s s'"
  using rename_execs [of p q s r s'] rename_mach [of p q s r s'] by (simp add: ran_def)

lemma gitEnv_cong: "os_mach s' = os_mach s \<Longrightarrow> gitEnv s' = gitEnv s"
  by (simp add: gitEnv_def)

lemma credentialEnv_cong: "os_mach s' = os_mach s \<Longrightarrow> credentialEnv parse r s' = credentialEnv parse r s"
  by (simp add: credentialEnv_def gitEnv_def)

lemma told_right_cong: "os_mach s' = os_mach s \<Longrightarrow> told_right parse r d s' = told_right parse r d s"
  by (rule ext) (simp add: told_right_def credentialEnv_cong [of s' s] gitEnv_cong [of s' s])

lemma ran_clone:
  assumes "clone tool parse git r d s = (x, s')"
  shows "ran (told_right parse r d s) s s'"
  using assms
proof (cases rule: clone_cases)
  case (early y e)
  from early(1) show ?thesis by (rule ran_remove_all)
next
  case (git_failed s1 env res e)
  from git_failed(2) have "told_right parse r d s (clone_cmd git r d env)"
    using credentialEnv_cong [OF remove_all_mach [OF git_failed(1)]] by (simp add: told_right_def remote_lines_def)
  with git_failed(3) have "ran (told_right parse r d s) s1 s'" by (rule ran_exec_in)
  then show ?thesis by (rule ran_trans [OF ran_remove_all [OF git_failed(1)]])
next
  case (renamed s1 env res s2 z)
  from renamed(2) have "told_right parse r d s (clone_cmd git r d env)"
    using credentialEnv_cong [OF remove_all_mach [OF renamed(1)]] by (simp add: told_right_def remote_lines_def)
  with renamed(3) have "ran (told_right parse r d s) s1 s2" by (rule ran_exec_in)
  then have "ran (told_right parse r d s) s s2" by (rule ran_trans [OF ran_remove_all [OF renamed(1)]])
  then show ?thesis by (rule ran_trans [OF _ ran_rename [OF renamed(5)]])
qed

lemma ran_update:
  assumes "update tool parse git r d s = (x, s')"
  shows "ran (told_right parse r d s) s s'"
proof (cases "credentialEnv parse r s")
  case (Inl e)
  with assms show ?thesis by (simp add: update_def Let_def)
next
  case (Inr env)
  let ?c = "\<lparr>c_prog = git, c_args = [''-C'', d, ''remote'', ''update'', ''--prune''], c_dir = [], c_env = env\<rparr>"
  obtain res s1 where ex: "exec_in tool ?c (at_path s d) s = (res, s1)" by fastforce
  moreover have "told_right parse r d s ?c" using Inr by (simp add: told_right_def remote_lines_def)
  moreover have "s' = s1" using assms Inr ex by (auto simp: update_def Let_def split: option.splits)
  ultimately show ?thesis by (auto intro: ran_exec_in)
qed

lemma ran_usesLFS: "usesLFS tool git d s = (x, s') \<Longrightarrow> ran (told_right parse r d s) s s'"
proof (erule usesLFS_effect)
  assume "s' = record_cmd (refs_cmd git d s) s"
  then show ?thesis by (simp add: ran_record told_right_def local_lines_def)
next
  fix refs assume "s' = record_cmd (grep_cmd git d refs s) (record_cmd (refs_cmd git d s) s)"
  moreover have "told_right parse r d s (refs_cmd git d s)" "told_right parse r d s (grep_cmd git d refs s)"
    by (auto simp: told_right_def local_lines_def)
  ultimately show ?thesis by (auto intro: ran_trans ran_record)
qed

text \<open>How the LFS step can go.\<close>

abbreviation lfs_cmd :: "string \<Rightarrow> string \<Rightarrow> string list \<Rightarrow> command" where
  "lfs_cmd gitLFS d env \<equiv> \<lparr>c_prog = gitLFS, c_args = [''fetch'', ''--all''], c_dir = d, c_env = env\<rparr>"

lemma syncLFS_cases:
  assumes "syncLFS tool parse m git r d s = (x, s')"
  obtains (check) y where "usesLFS tool git d s = (y, s')"
      "(\<exists>e. y = Inl e \<and> x = Inl (Wrap (''mirror lfs '' @ clone_url r) e)) \<or> (y = Inr False \<and> x = Inr ())"
  | (no_tool) e where "usesLFS tool git d s = (Inr True, s')"
      "gitLFSPath m s' = Inl e \<or> credentialEnv parse r s' = Inl e" "x = Inl (Wrap (''mirror lfs '' @ clone_url r) e)"
  | (fetched) s1 gitLFS env res where "usesLFS tool git d s = (Inr True, s1)" "gitLFSPath m s1 = Inr gitLFS"
      "credentialEnv parse r s1 = Inr env" "exec_in tool (lfs_cmd gitLFS d env) (at_path s1 d) s1 = (res, s')"
      "x = (case cmd_error res of Some e \<Rightarrow> Inl (Wrap (''mirror lfs '' @ clone_url r) e) | None \<Rightarrow> Inr ())"
proof -
  obtain y s1 where u: "usesLFS tool git d s = (y, s1)" by fastforce
  consider e where "y = Inl e" | "y = Inr False" | "y = Inr True" by (metis (full_types) obj_sumE)
  then show ?thesis
  proof cases
    case 3
    show ?thesis
    proof (cases "gitLFSPath m s1")
      case (Inl e)
      with 3 u assms show ?thesis by (intro no_tool) (auto simp: syncLFS_def Let_def)
    next
      case lfs: (Inr gitLFS)
      show ?thesis
      proof (cases "credentialEnv parse r s1")
        case (Inl e)
        with 3 u lfs assms show ?thesis by (intro no_tool) (auto simp: syncLFS_def Let_def)
      next
        case env: (Inr env)
        obtain res s2 where ex: "exec_in tool (lfs_cmd gitLFS d env) (at_path s1 d) s1 = (res, s2)" by fastforce
        have "s2 = s'" "x = (case cmd_error res of Some e \<Rightarrow> Inl (Wrap (''mirror lfs '' @ clone_url r) e) | None \<Rightarrow> Inr ())"
          using assms u 3 lfs env ex by (auto simp: syncLFS_def Let_def split: option.splits)
        with ex 3 u lfs env show ?thesis by (auto intro: fetched)
      qed
    qed
  qed (use u assms in \<open>auto simp: syncLFS_def Let_def intro: check\<close>)
qed

lemma ran_syncLFS:
  assumes "syncLFS tool parse m git r d s = (x, s')"
  shows "ran (told_right parse r d s) s s'"
  using assms
proof (cases rule: syncLFS_cases)
  case (fetched s1 gitLFS env res)
  have 1: "ran (told_right parse r d s) s s1" using fetched(1) by (rule ran_usesLFS)
  then have "credentialEnv parse r s = Inr env" using fetched(3) credentialEnv_cong [of s1 s] by (simp add: ran_def)
  then have "told_right parse r d s (lfs_cmd gitLFS d env)" by (simp add: told_right_def remote_lines_def)
  with fetched(4) show ?thesis by (intro ran_trans [OF 1] ran_exec_in)
qed (auto intro: ran_usesLFS)

text \<open>How a sync can go.\<close>

lemma Sync_cases:
  assumes "Sync tool parse m r d s = (x, s')"
  obtains (no_git) e where "gitPath m s = Inl e" "x = Inl e" "s' = s"
  | (updated) git n y s1 where "gitPath m s = Inr git" "sys_stat (at_path s (fpjoin [d, ''HEAD''])) s = Inr n"
      "update tool parse git r d s = (y, s1)"
      "(\<exists>e. y = Inl e \<and> x = Inl e \<and> s' = s1) \<or> (y = Inr () \<and> syncLFS tool parse m git r d s1 = (x, s'))"
  | (cloned) git e y s1 where "gitPath m s = Inr git" "sys_stat (at_path s (fpjoin [d, ''HEAD''])) s = Inl e"
      "clone tool parse git r d s = (y, s1)"
      "(\<exists>e. y = Inl e \<and> x = Inl e \<and> s' = s1) \<or> (y = Inr () \<and> syncLFS tool parse m git r d s1 = (x, s'))"
proof (cases "gitPath m s")
  case (Inl e)
  with assms show ?thesis by (intro no_git) (auto simp: Sync_def)
next
  case git: (Inr git)
  show ?thesis
  proof (cases "sys_stat (at_path s (fpjoin [d, ''HEAD''])) s")
    case (Inl e)
    moreover obtain y s1 where "clone tool parse git r d s = (y, s1)" by fastforce
    ultimately show ?thesis using git assms by (intro cloned) (auto simp: Sync_def split: sum.splits)
  next
    case (Inr n)
    moreover obtain y s1 where "update tool parse git r d s = (y, s1)" by fastforce
    ultimately show ?thesis using git assms by (intro updated) (auto simp: Sync_def split: sum.splits)
  qed
qed

lemma ran_Sync_rest:
  assumes "ran (told_right parse r d s) s s1"
    and "(\<exists>e. y = Inl e \<and> x = Inl e \<and> s' = s1) \<or> (y = Inr () \<and> syncLFS tool parse m git r d s1 = (x, s'))"
  shows "ran (told_right parse r d s) s s'"
proof -
  have "told_right parse r d s1 = told_right parse r d s" using assms(1) by (intro told_right_cong) (simp add: ran_def)
  with assms ran_syncLFS show ?thesis by (metis ran_trans)
qed

lemma ran_Sync:
  assumes "Sync tool parse m r d s = (x, s')"
  shows "ran (told_right parse r d s) s s'"
  using assms
proof (cases rule: Sync_cases)
  case (updated git n y s1)
  from ran_update [OF updated(3)] updated(4) show ?thesis by (rule ran_Sync_rest)
next
  case (cloned git e y s1)
  from ran_clone [OF cloned(3)] cloned(4) show ?thesis by (rule ran_Sync_rest)
qed simp

section \<open>When git-lfs has to be there\<close>

lemma not_lfs_missing:
  "cmd_error res = Some e \<Longrightarrow> \<not> err_is e ErrGitLFSNotFound"
  "credentialEnv parse r s = Inl e \<Longrightarrow> \<not> err_is e ErrGitLFSNotFound"
  by (cases res) (auto simp: credentialEnv_def Let_def split: if_splits option.splits)

lemma clone_err_not_lfs: "clone tool parse git r d s = (Inl e, s') \<Longrightarrow> \<not> err_is e ErrGitLFSNotFound"
  by (auto simp: clone_def Let_def not_lfs_missing split: sum.splits prod.splits option.splits)

lemma update_err_not_lfs: "update tool parse git r d s = (Inl e, s') \<Longrightarrow> \<not> err_is e ErrGitLFSNotFound"
  by (auto simp: update_def Let_def not_lfs_missing split: sum.splits prod.splits option.splits)

lemma usesLFS_err_not_lfs: "usesLFS tool git d s = (Inl e, s') \<Longrightarrow> \<not> err_is e ErrGitLFSNotFound"
  by (auto simp: usesLFS_def refTips_def exec_read_def Let_def not_lfs_missing
      split: sum.splits prod.splits option.splits if_splits)

text \<open>
  What was found on the way: the tips \<open>for-each-ref\<close> listed in the mirror as it stands in the end,
  and the \<open>git grep\<close> of all of them in the same mirror, the last two commands that ran.
\<close>

definition lfs_found :: "tool \<Rightarrow> string \<Rightarrow> string \<Rightarrow> os \<Rightarrow> os \<Rightarrow> bool" where
  "lfs_found tool git d s s' \<longleftrightarrow>
     (\<exists>pre out out'. let refs = split_on CHR ''\<newline>'' (trim_space out) in
        trim_space out \<noteq> [] \<and>
        os_execs s' = os_execs s @ pre @ [refs_cmd git d s, grep_cmd git d refs s] \<and>
        fst (tool (refs_cmd git d s) (subtree (at_path s d) s')) = Exited 0 out \<and>
        fst (tool (grep_cmd git d refs s) (subtree (at_path s d) s')) = Exited 0 out')"

lemma subtree_record_cmd [simp]: "subtree p (record_cmd c s) = subtree p s" "at_path (record_cmd c s) d = at_path s d"
  by (simp_all add: subtree_def record_cmd_def at_path_def)

lemma cmd_error_None: "cmd_error r = None \<longleftrightarrow> (\<exists>out. r = Exited 0 out)"
  by (cases r) auto

lemma usesLFS_True:
  assumes "usesLFS tool git d s = (Inr True, s')"
  shows "lfs_found tool git d s s'"
proof -
  obtain y s1 where r: "refTips tool git d s = (y, s1)" by fastforce
  note s1 = refTips_effect [OF r]
  from assms r obtain refs where refs: "y = Inr refs" "refs \<noteq> []" by (cases y) (auto simp: usesLFS_def split: if_splits)
  have tips: "\<exists>out. fst (tool (refs_cmd git d s) (subtree (at_path s d) s)) = Exited 0 out \<and> trim_space out \<noteq> [] \<and>
      refs = split_on CHR ''\<newline>'' (trim_space out)"
    using r refs by (auto simp: refTips_def exec_read_def Let_def cmd_error_None split: option.splits if_splits)
  have s': "s' = record_cmd (grep_cmd git d refs s) s1"
    and grep: "cmd_error (fst (tool (grep_cmd git d refs s) (subtree (at_path s d) s))) = None"
    using assms r refs s1 by (auto simp: usesLFS_def exec_read_def split: option.splits if_splits)
  have "os_execs s' = os_execs s @ [] @ [refs_cmd git d s, grep_cmd git d refs s]"
    by (simp add: s' s1 record_cmd_def)
  with tips grep show ?thesis unfolding lfs_found_def Let_def cmd_error_None s' s1 subtree_record_cmd by metis
qed

lemma lfs_found_later:
  assumes "lfs_found tool git d s1 s'" "ran P s s1"
  shows "lfs_found tool git d s s'"
proof -
  from assms(2) obtain cs where m: "os_mach s1 = os_mach s" and cs: "os_execs s1 = os_execs s @ cs" by (auto simp: ran_def)
  from assms(1) obtain pre out out' where "trim_space out \<noteq> []"
    and ex: "os_execs s' = os_execs s1 @ pre @ [refs_cmd git d s1, grep_cmd git d (split_on CHR ''\<newline>'' (trim_space out)) s1]"
    and "fst (tool (refs_cmd git d s1) (subtree (at_path s1 d) s')) = Exited 0 out"
    and "fst (tool (grep_cmd git d (split_on CHR ''\<newline>'' (trim_space out)) s1) (subtree (at_path s1 d) s')) = Exited 0 out'"
    unfolding lfs_found_def Let_def by blast
  then show ?thesis unfolding lfs_found_def Let_def gitEnv_cong [OF m] at_path_cong [OF m] cs by (metis append_assoc)
qed

lemma syncLFS_missing:
  assumes "syncLFS tool parse m git r d s = (Inl e, s')" "err_is e ErrGitLFSNotFound"
  shows "git_lfs_path m = [] \<and> m_lookpath (os_mach s) ''git-lfs'' = None \<and> lfs_found tool git d s s'"
  using assms(1)
proof (cases rule: syncLFS_cases)
  case (check y)
  with assms(2) show ?thesis by (auto dest: usesLFS_err_not_lfs)
next
  case (no_tool e')
  have m: "os_mach s' = os_mach s" using usesLFS_confined [OF no_tool(1)] by (simp add: confined_def)
  from no_tool(2,3) assms(2) have "gitLFSPath m s' = Inl e'" by (auto dest: not_lfs_missing(2))
  then have "git_lfs_path m = [] \<and> m_lookpath (os_mach s) ''git-lfs'' = None"
    by (auto simp: gitLFSPath_def m split: if_splits option.splits)
  with usesLFS_True [OF no_tool(1)] show ?thesis by metis
next
  case (fetched s1 gitLFS env res)
  with assms(2) show ?thesis by (auto dest: not_lfs_missing(1) split: option.splits)
qed

lemma Sync_missing:
  assumes "Sync tool parse m r d s = (Inl e, s')" "err_is e ErrGitLFSNotFound"
  obtains git where "git_lfs_path m = []" "m_lookpath (os_mach s) ''git-lfs'' = None"
    "gitPath m s = Inr git" "lfs_found tool git d s s'"
proof -
  from assms obtain git s1 P where g: "gitPath m s = Inr git" and ran: "ran P s s1"
    and l: "syncLFS tool parse m git r d s1 = (Inl e, s')"
  proof (cases rule: Sync_cases)
    case (no_git e')
    with assms(2) show ?thesis by (auto simp: gitPath_def split: if_splits option.splits)
  next
    case (updated git n y s1)
    then show ?thesis using assms(2) that ran_update [OF updated(3)] by (auto dest: update_err_not_lfs)
  next
    case (cloned git e y s1)
    then show ?thesis using assms(2) that ran_clone [OF cloned(3)] by (auto dest: clone_err_not_lfs)
  qed
  have "os_mach s1 = os_mach s" using ran by (simp add: ran_def)
  with syncLFS_missing [OF l assms(2)] lfs_found_later [OF _ ran] g that show ?thesis by simp
qed

section \<open>Properties\<close>

text \<open>C3: A first clone is all or nothing. When it fails, whatever was at and below the mirror's
  directory is as it was, whichever step failed. When it succeeds, the directory holds exactly what
  the git clone left, started with nothing in its own directory, and the partial directory is gone.\<close>

theorem clone_atomic:
  assumes "proper_dir d"
  shows "case clone tool parse git r d s of
      (Inl e, s') \<Rightarrow> mirror_tree d s' = mirror_tree d s
    | (Inr _, s') \<Rightarrow> \<exists>env out t. credentialEnv parse r s = Inr env \<and>
        tool \<lparr>c_prog = git, c_args = [''clone'', ''--mirror'', clone_url r, d @ ''.partial''], c_dir = [], c_env = env\<rparr> []
          = (Exited 0 out, t) \<and>
        mirror_tree d s' = map_of t \<and> mirror_tree (d @ ''.partial'') s' = (\<lambda>_. None)"
proof -
  obtain x s' where c: "clone tool parse git r d s = (x, s')" by fastforce
  show ?thesis
  proof (cases x)
    case (Inl e)
    with c clone_failed assms show ?thesis by fastforce
  next
    case (Inr u)
    with c clone_done [of tool parse git r d s s'] assms show ?thesis by fastforce
  qed
qed

definition sample_git :: tool where
  "sample_git c t = (Exited 0 [], if hd (c_args c) = ''clone'' then [([], Dir), ([''HEAD''], File ''ref'')] else t)"

lemma clone_atomic_witness:
  "proper_dir ''m/a.git'' \<and>
   (case clone sample_git (\<lambda>_. None) ''git'' \<lparr>clone_url = ''u'', auth_header = []\<rparr> ''m/a.git'' (quiet_os [([''w'', ''m''], Dir)]) of
      (Inl e, s') \<Rightarrow> False
    | (Inr _, s') \<Rightarrow> mirror_tree ''m/a.git'' s' [''HEAD''] = Some (File ''ref''))"
proof -
  let ?s = "quiet_os [([''w'', ''m''], Dir)]" let ?r = "\<lparr>clone_url = ''u'', auth_header = []\<rparr>"
  have p: "proper_dir ''m/a.git''" by code_simp
  have ok: "fst (clone sample_git (\<lambda>_. None) ''git'' ?r ''m/a.git'' ?s) = Inr ()" by code_simp
  from clone_atomic [OF p, where tool = sample_git and parse = "\<lambda>_. None" and git = "''git''" and r = ?r and s = ?s] ok p
  show ?thesis by (auto simp: sample_git_def split: prod.splits)
qed

text \<open>C14: Everything a sync starts is one of the five command lines the program knows, none of
  which holds the credential: it reaches git only through the environment of the commands that talk
  to the forge. The commands that only look at the mirror run without it.\<close>

theorem Sync_commands:
  "\<exists>cs. os_execs (snd (Sync tool parse m r d s)) = os_execs s @ cs \<and> list_all (told_right parse r d s) cs"
  using ran_Sync [of tool parse m r d s "fst (Sync tool parse m r d s)" "snd (Sync tool parse m r d s)"]
  by (simp add: ran_def)

definition scrubbed :: "string list \<Rightarrow> bool" where
  "scrubbed env \<longleftrightarrow> list_all (\<lambda>kv. \<not> has_prefix kv ''GIT_DIR='' \<and> \<not> has_prefix kv ''GIT_WORK_TREE='' \<and> \<not> has_prefix kv ''GIT_INDEX_FILE='') env"

lemma scrubbed_gitEnv: "scrubbed (gitEnv s)"
  by (simp add: scrubbed_def gitEnv_def list_all_iff)

lemma scrubbed_append: "scrubbed (xs @ ys) \<longleftrightarrow> scrubbed xs \<and> scrubbed ys"
  by (simp add: scrubbed_def)

lemma credentialEnv_scrubbed:
  assumes "credentialEnv parse r s = Inr env"
  shows "scrubbed env \<and> ''GIT_TERMINAL_PROMPT=0'' \<in> set env"
proof -
  have "scrubbed [''GIT_TERMINAL_PROMPT=0'']" by code_simp
  moreover have "scrubbed [''GIT_CONFIG_COUNT=1'', ''GIT_CONFIG_KEY_0=http.'' @ h, ''GIT_CONFIG_VALUE_0=Authorization: '' @ a]" for h a
    by (simp add: scrubbed_def has_prefix_def)
  ultimately show ?thesis using assms
    by (auto simp: credentialEnv_def Let_def scrubbed_append scrubbed_gitEnv simp del: append.simps
        split: if_splits option.splits)
qed

definition safe_env :: "remote \<Rightarrow> string \<Rightarrow> command \<Rightarrow> bool" where
  "safe_env r d c \<longleftrightarrow> scrubbed (c_env c) \<and>
     (c_args c \<in> remote_lines (clone_url r) d \<longrightarrow> ''GIT_TERMINAL_PROMPT=0'' \<in> set (c_env c))"

lemma told_right_env:
  assumes "told_right parse r d s c"
  shows "safe_env r d c"
proof -
  have "c_args c \<notin> remote_lines (clone_url r) d" if "c_args c \<in> local_lines d"
    using that by (auto simp: remote_lines_def local_lines_def)
  with assms scrubbed_gitEnv [of s] credentialEnv_scrubbed [of parse r s "c_env c"] show ?thesis
    by (auto simp: told_right_def safe_env_def)
qed

text \<open>C31: No command a sync starts inherits the variables that point git at another repository,
  and none that talks to the forge may ask at a terminal.\<close>

theorem Sync_environment:
  "\<exists>cs. os_execs (snd (Sync tool parse m r d s)) = os_execs s @ cs \<and>
     list_all (safe_env r d) cs"
proof -
  obtain x s' where "Sync tool parse m r d s = (x, s')" by fastforce
  moreover from ran_Sync [OF this] obtain cs where "os_execs s' = os_execs s @ cs" "list_all (told_right parse r d s) cs"
    by (auto simp: ran_def)
  ultimately show ?thesis using told_right_env by (auto elim!: list.pred_mono_strong)
qed

text \<open>C30: A sync asks for git-lfs only when the repository uses it. It fails for the lack of
  git-lfs only with no path configured and none found, and only after its last two commands found an
  LFS filter in the mirror as it then stands: \<open>git for-each-ref\<close> listed the tips of its refs, and
  \<open>git grep\<close>, given every one of those tips and nothing else, matched.\<close>

theorem Sync_lfs_on_demand:
  assumes "Sync tool parse m r d s = (Inl e, s')" and "err_is e ErrGitLFSNotFound"
  shows "git_lfs_path m = [] \<and> m_lookpath (os_mach s) ''git-lfs'' = None \<and>
    (\<exists>git pre out out'. gitPath m s = Inr git \<and> trim_space out \<noteq> [] \<and>
       (let tips = \<lparr>c_prog = git, c_args = [''-C'', d, ''for-each-ref'', ''--format=%(objectname)''], c_dir = [], c_env = gitEnv s\<rparr>;
            grep = \<lparr>c_prog = git,
              c_args = [''-C'', d, ''grep'', ''--quiet'', ''-e'', ''filter=lfs''] @ split_on CHR ''\<newline>'' (trim_space out) @ [''--'', '':(glob)**/.gitattributes''],
              c_dir = [], c_env = gitEnv s\<rparr>
        in os_execs s' = os_execs s @ pre @ [tips, grep] \<and>
           fst (tool tips (subtree (at_path s d) s')) = Exited 0 out \<and>
           fst (tool grep (subtree (at_path s d) s')) = Exited 0 out'))"
proof -
  obtain git where "git_lfs_path m = []" "m_lookpath (os_mach s) ''git-lfs'' = None" "gitPath m s = Inr git"
    and found: "lfs_found tool git d s s'"
    by (rule Sync_missing [OF assms]) blast
  with found [unfolded lfs_found_def Let_def] show ?thesis unfolding Let_def by blast
qed

definition sample_lfs_git :: tool where
  "sample_lfs_git c t = (Exited 0 (if ''for-each-ref'' \<in> set (c_args c) then ''abc'' else []), t)"

lemma Sync_lfs_on_demand_witness:
  "(let s = (quiet_os [([''w'', ''a.git'', ''HEAD''], File []), ([''w'', ''a.git''], Dir)])
              \<lparr>os_mach := quiet_machine\<lparr>m_lookpath := (\<lambda>p. if p = ''git'' then Some ''/git'' else None)\<rparr>\<rparr>
    in m_lookpath (os_mach s) ''git-lfs'' = None \<and> fst (Sync sample_lfs_git (\<lambda>_. None) \<lparr>git_path = [], git_lfs_path = []\<rparr> \<lparr>clone_url = ''u'', auth_header = []\<rparr> ''a.git'' s)
         = Inl (Wrap ''mirror lfs u'' ErrGitLFSNotFound))"
proof -
  let ?s = "(quiet_os [([''w'', ''a.git'', ''HEAD''], File []), ([''w'', ''a.git''], Dir)])
              \<lparr>os_mach := quiet_machine\<lparr>m_lookpath := (\<lambda>p. if p = ''git'' then Some ''/git'' else None)\<rparr>\<rparr>"
  let ?x = "Sync sample_lfs_git (\<lambda>_. None) \<lparr>git_path = [], git_lfs_path = []\<rparr> \<lparr>clone_url = ''u'', auth_header = []\<rparr> ''a.git'' ?s"
  have x: "fst ?x = Inl (Wrap ''mirror lfs u'' ErrGitLFSNotFound)" by code_simp
  then have eq: "?x = (Inl (Wrap ''mirror lfs u'' ErrGitLFSNotFound), snd ?x)" by (metis prod.collapse)
  from Sync_lfs_on_demand [OF eq] x show ?thesis by simp
qed

end
