(* ===== verification/Archive.thy ===== *)
theory Archive
  imports Stale
begin

text \<open>
  Archiving a mirror (\<open>archive.go\<close>, and \<open>archiveRepo\<close> of \<open>run.go\<close>). Tar headers and the entries
  written are modelled field by field; the bytes \<open>archive/tar\<close> and \<open>compress/gzip\<close> make of a
  sequence of entries are a function \<open>targz\<close> of that sequence. A write that fails leaves the
  bytes written so far in the temporary file.
\<close>

section \<open>Tar entries\<close>

datatype typeflag = TypeReg | TypeDir | TypeSymlink

record tar_header =
  th_typeflag :: typeflag
  th_name :: string
  th_linkname :: string
  th_mode :: nat
  th_size :: nat
  th_mtime :: int
  th_uid :: nat
  th_gid :: nat
  th_uname :: string
  th_gname :: string

type_synonym tar_entry = "tar_header \<times> string"
type_synonym targz = "tar_entry list \<Rightarrow> string"

fun node_link :: "node \<Rightarrow> string" where
  "node_link (Symlink l) = l"
| "node_link n = []"

fun node_data :: "node \<Rightarrow> string" where
  "node_data (File c) = c"
| "node_data n = []"

fun node_type :: "node \<Rightarrow> typeflag" where
  "node_type Dir = TypeDir"
| "node_type (File c) = TypeReg"
| "node_type (Symlink l) = TypeSymlink"

text \<open>\<open>tar.FileInfoHeader\<close>: what the file system says about the entry.\<close>

definition FileInfoHeader :: "node \<Rightarrow> attrs \<Rightarrow> string \<Rightarrow> tar_header" where
  "FileInfoHeader n a link =
     \<lparr>th_typeflag = node_type n, th_name = [], th_linkname = link, th_mode = a_mode a, th_size = length (node_data n),
      th_mtime = a_mtime a, th_uid = a_uid a, th_gid = a_gid a, th_uname = a_uname a, th_gname = a_gname a\<rparr>"

definition epoch :: int where
  "epoch = 0"

section \<open>Writing an archive\<close>

definition sortedPaths :: "fpath \<Rightarrow> os \<Rightarrow> err + string list" where
  "sortedPaths root s =
     (case walk_dir (\<lambda>p d paths. (False, paths @ [rel_path root p])) root s [] of
        Inl e \<Rightarrow> Inl (Wrap ''walk'' (OsErr e))
      | Inr paths \<Rightarrow> Inr (sort paths))"

definition writeEntry :: "fpath \<Rightarrow> string \<Rightarrow> string \<Rightarrow> os \<Rightarrow> tar_entry list \<Rightarrow> (err + unit) \<times> tar_entry list" where
  "writeEntry root pre p s tw =
     (let at = root @ split_on CHR ''/'' p in
      case sys_stat at s of
        Inl e \<Rightarrow> (Inl (Wrap (''stat '' @ p) (OsErr e)), tw)
      | Inr n \<Rightarrow>
          (case (if n = Symlink (node_link n) then fault s (SysRead at) else None) of
             Some e \<Rightarrow> (Inl (Wrap (''read link '' @ p) (OsErr e)), tw)
           | None \<Rightarrow>
               (let info = FileInfoHeader n (m_attr (os_mach s) at) (node_link n);
                    named = info\<lparr>th_name := pre @ ''/'' @ p, th_mtime := epoch, th_uid := 0, th_gid := 0,
                                 th_uname := [], th_gname := []\<rparr>;
                    header = (if n = Dir then named\<lparr>th_name := th_name named @ ''/''\<rparr> else named)
                in if n \<noteq> File (node_data n) then (Inr (), tw @ [(header, [])])
                   else (case fault s (SysOpen at) of
                           Some e \<Rightarrow> (Inl (Wrap (''open '' @ p) (OsErr e)), tw @ [(header, [])])
                         | None \<Rightarrow>
                             (case fault s (SysRead at) of
                                Some e \<Rightarrow> (Inl (Wrap (''copy '' @ p) (OsErr e)), tw @ [(header, [])])
                              | None \<Rightarrow> (Inr (), tw @ [(header, node_data n)]))))))"

fun writeEntries :: "fpath \<Rightarrow> string \<Rightarrow> string list \<Rightarrow> os \<Rightarrow> tar_entry list \<Rightarrow> (err + unit) \<times> tar_entry list" where
  "writeEntries root pre [] s tw = (Inr (), tw)"
| "writeEntries root pre (p # ps) s tw =
     (case writeEntry root pre p s tw of
        (Inl e, tw1) \<Rightarrow> (Inl e, tw1)
      | (Inr _, tw1) \<Rightarrow> writeEntries root pre ps s tw1)"

definition root_header :: "string \<Rightarrow> tar_header" where
  "root_header pre =
     \<lparr>th_typeflag = TypeDir, th_name = pre @ ''/'', th_linkname = [], th_mode = 493, th_size = 0,
      th_mtime = epoch, th_uid = 0, th_gid = 0, th_uname = [], th_gname = []\<rparr>"

definition writeArchive :: "targz \<Rightarrow> string \<Rightarrow> string \<Rightarrow> os \<Rightarrow> (err + unit) \<times> os" where
  "writeArchive targz dir out s =
     (let root = at_path s dir in
      case sys_stat root s of
        Inl e \<Rightarrow> (Inl (Wrap (''open root '' @ dir) (OsErr e)), s)
      | Inr n \<Rightarrow>
          if n \<noteq> Dir then (Inl (Wrap (''open root '' @ dir) (OsErr ENOTDIR)), s)
          else
            (case sortedPaths root s of
               Inl e \<Rightarrow> (Inl e, s)
             | Inr paths \<Rightarrow>
                 (case sys_create (at_path s out) s of
                    (Inl e, s1) \<Rightarrow> (Inl (Wrap (''create '' @ out) (OsErr e)), s1)
                  | (Inr _, s1) \<Rightarrow>
                      (let pre = fpbase dir in
                       case writeEntries root pre paths s1 [(root_header pre, [])] of
                         (Inl e, tw) \<Rightarrow>
                           (Inl e, put (at_path s out) (File (take (m_short (os_mach s1) (at_path s out)) (targz tw))) s1)
                       | (Inr _, tw) \<Rightarrow>
                           (case sys_fill (at_path s out) (targz tw) s1 of
                              (Inl e, s2) \<Rightarrow> (Inl (Wrap (''close '' @ out) (OsErr e)), s2)
                            | (Inr _, s2) \<Rightarrow> (Inr (), s2))))))"

definition Archive :: "targz \<Rightarrow> string \<Rightarrow> string \<Rightarrow> os \<Rightarrow> (err + unit) \<times> os" where
  "Archive targz dir out s =
     (let tmp = out @ ''.tmp'' in
      case writeArchive targz dir tmp s of
        (Inl e, s1) \<Rightarrow>
          (case sys_remove (at_path s1 tmp) s1 of (_, s2) \<Rightarrow> (Inl (Wrap (''archive '' @ dir) e), s2))
      | (Inr _, s1) \<Rightarrow>
          (case sys_rename (at_path s1 tmp) (at_path s1 out) s1 of
             (Inl e, s2) \<Rightarrow> (Inl (Wrap (''archive '' @ dir) (OsErr e)), s2)
           | (Inr _, s2) \<Rightarrow> (Inr (), s2)))"

definition archiveRepo :: "targz \<Rightarrow> string \<Rightarrow> string \<Rightarrow> os \<Rightarrow> (err + unit) \<times> os" where
  "archiveRepo targz dir out s =
     (case sys_mkdir_all (at_path s (fpdir out)) s of
        (Inl e, s1) \<Rightarrow> (Inl (Wrap (''create '' @ fpdir out) (OsErr e)), s1)
      | (Inr _, s1) \<Rightarrow> Archive targz dir out s1)"

section \<open>What an archive holds\<close>

text \<open>
  The entries as a function of the tree below the mirror's directory and of the permission
  bits in it, and of nothing else.
\<close>

definition archived_entry :: "string \<Rightarrow> string \<Rightarrow> node \<Rightarrow> nat \<Rightarrow> tar_entry" where
  "archived_entry pre p n mode =
     (\<lparr>th_typeflag = node_type n, th_name = pre @ ''/'' @ p @ (if n = Dir then ''/'' else []), th_linkname = node_link n,
       th_mode = mode, th_size = length (node_data n), th_mtime = 0, th_uid = 0, th_gid = 0, th_uname = [], th_gname = []\<rparr>,
      node_data n)"

definition paths_in :: "fpath \<Rightarrow> os \<Rightarrow> string list" where
  "paths_in R s = sort (map (rel_path R) (entries_below R s))"

definition archive_entries :: "string \<Rightarrow> fpath \<Rightarrow> os \<Rightarrow> tar_entry list" where
  "archive_entries pre R s =
     (root_header pre, []) #
     map (\<lambda>p. let at = R @ split_on CHR ''/'' p in archived_entry pre p (the (look s at)) (a_mode (m_attr (os_mach s) at)))
       (paths_in R s)"

lemma writeEntry_ok:
  assumes "writeEntry R pre p s tw = (Inr u, tw')"
  shows "tw' = tw @ [archived_entry pre p (the (look s (R @ split_on CHR ''/'' p))) (a_mode (m_attr (os_mach s) (R @ split_on CHR ''/'' p)))]"
    and "look s (R @ split_on CHR ''/'' p) \<noteq> None"
proof -
  let ?at = "R @ split_on CHR ''/'' p"
  obtain n where n: "sys_stat ?at s = Inr n" "look s ?at = Some n"
    using assms by (auto simp: writeEntry_def Let_def sys_stat_def split: sum.splits option.splits)
  show "look s ?at \<noteq> None" using n by simp
  show "tw' = tw @ [archived_entry pre p (the (look s ?at)) (a_mode (m_attr (os_mach s) ?at))]"
    using assms n
    by (cases n) (auto simp: writeEntry_def Let_def archived_entry_def FileInfoHeader_def epoch_def split: option.splits)
qed

lemma writeEntries_ok:
  "writeEntries R pre ps s tw = (Inr u, tw') \<Longrightarrow>
   tw' = tw @ map (\<lambda>p. let at = R @ split_on CHR ''/'' p in archived_entry pre p (the (look s at)) (a_mode (m_attr (os_mach s) at))) ps"
proof (induction ps arbitrary: tw)
  case (Cons p ps)
  from Cons.prems obtain v tw1 where e: "writeEntry R pre p s tw = (Inr v, tw1)" "writeEntries R pre ps s tw1 = (Inr u, tw')"
    by (auto split: prod.splits sum.splits)
  from Cons.IH [OF e(2)] writeEntry_ok(1) [OF e(1)] show ?case by (simp add: Let_def)
qed simp

lemma walk_all:
  "walk (\<lambda>p d acc. (False, acc @ [f p])) s [] ps acc = Inr r \<Longrightarrow> r = acc @ map f (filter (\<lambda>p. look s p \<noteq> None) ps)"
proof (induction ps arbitrary: acc)
  case (Cons p ps)
  show ?case
  proof (cases "look s p")
    case None
    with Cons show ?thesis by simp
  next
    case (Some n)
    with Cons.prems have "walk (\<lambda>p d acc. (False, acc @ [f p])) s [] ps (acc @ [f p]) = Inr r"
      by (auto split: if_splits option.splits)
    from Cons.IH [OF this] Some show ?thesis by simp
  qed
qed simp

lemma sortedPaths_ok:
  assumes "sortedPaths R s = Inr ps" "look s R = Some Dir"
  shows "ps = paths_in R s"
proof -
  have "filter (\<lambda>p. look s p \<noteq> None) (entries_below R s) = entries_below R s"
    by (rule filter_True) (simp add: entries_below_facts(3))
  with assms show ?thesis
    by (auto simp: sortedPaths_def walk_dir_def paths_in_def sys_stat_def dest!: walk_all split: sum.splits option.splits if_splits)
qed

text \<open>The entries are the same for equal trees, however the file system lists them.\<close>

lemma append_le_cancel: "R @ xs \<le> R @ ys \<longleftrightarrow> xs \<le> (ys :: fpath)"
  by (induction R) auto

definition tree_below :: "fpath \<Rightarrow> os \<Rightarrow> string list list" where
  "tree_below R s = map (drop (length R)) (entries_below R s)"

lemma entries_below_tree: "entries_below R s = map ((@) R) (tree_below R s)"
proof -
  have "R @ drop (length R) p = p" if "p \<in> set (entries_below R s)" for p
    using that by (auto simp: entries_below_facts(3) strict_prefix_def prefix_def)
  then show ?thesis by (simp add: tree_below_def map_idI)
qed

lemma tree_below_facts:
  "sorted (tree_below R s)" "distinct (tree_below R s)"
  "cs \<in> set (tree_below R s) \<longleftrightarrow> cs \<noteq> [] \<and> look s (R @ cs) \<noteq> None"
proof -
  have "sorted (entries_below R s)" by (simp add: entries_below_def)
  then show "sorted (tree_below R s)"
    unfolding entries_below_tree sorted_map by (simp add: append_le_cancel)
  have "distinct (entries_below R s)" by (rule entries_below_facts(2))
  then show "distinct (tree_below R s)" unfolding entries_below_tree distinct_map by simp
  have "cs \<in> set (tree_below R s) \<longleftrightarrow> R @ cs \<in> set (entries_below R s)"
    unfolding entries_below_tree by auto
  then show "cs \<in> set (tree_below R s) \<longleftrightarrow> cs \<noteq> [] \<and> look s (R @ cs) \<noteq> None"
    by (auto simp: entries_below_facts(3) strict_prefix_def)
qed

lemma tree_below_cong:
  assumes "\<And>cs. look s (R @ cs) = look s' (R' @ cs)"
  shows "tree_below R s = tree_below R' s'"
  using assms tree_below_facts by (intro sorted_distinct_set_unique) auto

lemma rel_path_append [simp]: "rel_path R (R @ cs) = join_with ''/'' cs"
  by (simp add: rel_path_def)

lemma paths_in_tree: "paths_in R s = sort (map (join_with ''/'') (tree_below R s))"
  by (simp add: paths_in_def entries_below_tree comp_def)

definition same_tree :: "fpath \<Rightarrow> os \<Rightarrow> fpath \<Rightarrow> os \<Rightarrow> bool" where
  "same_tree R s R' s' \<longleftrightarrow>
     (\<forall>cs. look s (R @ cs) = look s' (R' @ cs) \<and> a_mode (m_attr (os_mach s) (R @ cs)) = a_mode (m_attr (os_mach s') (R' @ cs)))"

lemma archive_entries_cong:
  assumes "same_tree R s R' s'"
  shows "archive_entries pre R s = archive_entries pre R' s'"
proof -
  have "tree_below R s = tree_below R' s'" using assms by (intro tree_below_cong) (simp add: same_tree_def)
  with assms show ?thesis by (simp add: archive_entries_def paths_in_tree same_tree_def Let_def)
qed

section \<open>An archive is all or nothing\<close>

lemma writeArchive_effect:
  assumes "writeArchive targz dir out s = (r, s')"
  shows "s' = s \<or> (at_path s out \<noteq> [] \<and> look s (at_path s out) \<noteq> Some Dir \<and> os_mach s' = os_mach s \<and> (\<exists>c. look s' = (look s)(at_path s out \<mapsto> File c)))"
proof (cases "s' = s")
  case False
  let ?o = "at_path s out"
  from assms False obtain u s1 where c: "sys_create ?o s = (Inr u, s1)" and r: "s' = s1 \<or> (\<exists>c. s' = put ?o (File c) s1)"
    by (auto simp: writeArchive_def sys_fill_def Let_def split: sum.splits prod.splits option.splits if_splits dest: create_err)
  from create_ok [OF c] r show ?thesis by (auto simp: fun_eq_iff)
qed simp

lemma writeArchive_ok:
  assumes "writeArchive targz dir out s = (Inr u, s')" "\<not> prefix (at_path s dir) (at_path s out)"
  shows "look s' = (look s)(at_path s out \<mapsto> File (targz (archive_entries (fpbase dir) (at_path s dir) s)))"
    and "os_mach s' = os_mach s" and "look s (at_path s out) \<noteq> Some Dir"
proof -
  let ?o = "at_path s out" and ?R = "at_path s dir"
  from assms(1) obtain paths v s1 tw w where R: "look s ?R = Some Dir" and p: "sortedPaths ?R s = Inr paths"
    and c: "sys_create ?o s = (Inr v, s1)"
    and e: "writeEntries ?R (fpbase dir) paths s1 [(root_header (fpbase dir), [])] = (Inr w, tw)"
    and f: "sys_fill ?o (targz tw) s1 = (Inr u, s')"
    by (auto simp: writeArchive_def Let_def sys_stat_def split: sum.splits prod.splits option.splits if_splits)
  note c' = create_ok [OF c]
  have same: "same_tree ?R s1 ?R s"
    using c' assms(2) unfolding same_tree_def by (metis look_put mach_simps(1) prefixI)
  have "tw = archive_entries (fpbase dir) ?R s1"
  proof -
    have "paths = paths_in ?R s1"
      using sortedPaths_ok [OF p R] same tree_below_cong [of s1 ?R s ?R] by (simp add: paths_in_tree same_tree_def)
    with writeEntries_ok [OF e] show ?thesis by (simp add: archive_entries_def)
  qed
  then have "tw = archive_entries (fpbase dir) ?R s" using archive_entries_cong [OF same] by simp
  with fill_ok [OF f] c' show "look s' = (look s)(?o \<mapsto> File (targz (archive_entries (fpbase dir) ?R s)))"
    and "os_mach s' = os_mach s" and "look s (at_path s out) \<noteq> Some Dir"
    by (auto simp: fun_eq_iff)
qed

lemma tmp_parallel: "proper_dir out \<Longrightarrow> at_path s out \<parallel> at_path s (out @ ''.tmp'')"
  unfolding at_path_def by (rule sibling_parallel) auto

lemma archive_cases:
  assumes "Archive targz dir out s = (r, s')"
  obtains (failed) e s1 where "writeArchive targz dir (out @ ''.tmp'') s = (Inl e, s1)"
      "s' = snd (sys_remove (at_path s1 (out @ ''.tmp'')) s1)" "r = Inl (Wrap (''archive '' @ dir) e)"
  | (renamed) u s1 x where "writeArchive targz dir (out @ ''.tmp'') s = (Inr u, s1)"
      "sys_rename (at_path s1 (out @ ''.tmp'')) (at_path s1 out) s1 = (x, s')"
      "r = (case x of Inl e \<Rightarrow> Inl (Wrap (''archive '' @ dir) (OsErr e)) | Inr _ \<Rightarrow> Inr ())"
proof -
  obtain y s1 where w: "writeArchive targz dir (out @ ''.tmp'') s = (y, s1)" by fastforce
  show ?thesis
  proof (cases y)
    case (Inl e)
    with assms w show ?thesis by (intro failed) (auto simp: Archive_def split: prod.splits)
  next
    case (Inr u)
    obtain x s2 where "sys_rename (at_path s1 (out @ ''.tmp'')) (at_path s1 out) s1 = (x, s2)" by fastforce
    moreover from this have "s2 = s'" "r = (case x of Inl e \<Rightarrow> Inl (Wrap (''archive '' @ dir) (OsErr e)) | Inr _ \<Rightarrow> Inr ())"
      using assms w Inr by (auto simp: Archive_def split: sum.splits)
    ultimately show ?thesis using w Inr by (auto intro: renamed)
  qed
qed

lemma writeArchive_mach: "writeArchive targz dir out s = (r, s') \<Longrightarrow> os_mach s' = os_mach s"
  using writeArchive_effect by metis

lemma remove_look: "look (snd (sys_remove p s)) q = look s q \<or> q = p"
  by (auto simp: sys_remove_def split: option.splits)

lemma remove_mach [simp]: "os_mach (snd (sys_remove p s)) = os_mach s"
  by (auto simp: sys_remove_def split: option.splits)

lemma archive_failed:
  assumes "Archive targz dir out s = (Inl e, s')" "q \<noteq> at_path s (out @ ''.tmp'')"
  shows "look s' q = look s q"
  using assms(1)
proof (cases rule: archive_cases)
  case (failed e' s1)
  have "look s1 q = look s q" using writeArchive_effect [OF failed(1)] assms(2) by auto
  with failed(2) remove_look [of "at_path s1 (out @ ''.tmp'')" s1 q] assms(2) show ?thesis
    by (simp add: at_path_cong [OF writeArchive_mach [OF failed(1)]])
next
  case (renamed u s1 x)
  then have "s' = s1" by (cases x) (auto dest: rename_err)
  then show ?thesis using writeArchive_effect [OF renamed(1)] assms(2) by auto
qed

lemma archive_done:
  assumes "Archive targz dir out s = (Inr u, s')" "proper_dir out" "\<not> prefix (at_path s dir) (at_path s (out @ ''.tmp''))"
  shows "look s' (at_path s out) = Some (File (targz (archive_entries (fpbase dir) (at_path s dir) s)))"
    and "look s' (at_path s (out @ ''.tmp'')) = None"
    and "\<not> prefix (at_path s out) q \<Longrightarrow> \<not> prefix (at_path s (out @ ''.tmp'')) q \<Longrightarrow> look s' q = look s q"
    and "os_mach s' = os_mach s"
proof -
  from assms(1) obtain v s1 w where w: "writeArchive targz dir (out @ ''.tmp'') s = (Inr v, s1)"
    and r: "sys_rename (at_path s1 (out @ ''.tmp'')) (at_path s1 out) s1 = (Inr w, s')"
    by (cases rule: archive_cases) (auto split: sum.splits)
  let ?t = "at_path s (out @ ''.tmp'')" and ?o = "at_path s out"
  note w' = writeArchive_ok [OF w assms(3)]
  note r' = rename_ok(1) [OF r [unfolded at_path_cong [OF w'(2)]]]
  note par = tmp_parallel [OF assms(2), of s]
  show "look s' ?o = Some (File (targz (archive_entries (fpbase dir) (at_path s dir) s)))"
    by (simp add: r' w'(1))
  show "look s' ?t = None" using parallelD1 [OF par] by (simp add: r')
  show "\<not> prefix ?o q \<Longrightarrow> \<not> prefix ?t q \<Longrightarrow> look s' q = look s q" by (auto simp: r' w'(1))
  show "os_mach s' = os_mach s" using rename_mach [OF r] w'(2) by simp
qed

lemma confined_writeArchive [frame_intros]:
  "writeArchive targz dir out s = (r, s') \<Longrightarrow> at_path s out \<in> A \<Longrightarrow> confined A s s'"
  using writeArchive_effect [of targz dir out s r s'] by (fastforce simp: confined_def split: if_splits)

lemma confined_Archive [frame_intros]:
  assumes "Archive targz dir out s = (r, s')" "at_path s out \<in> A" "at_path s (out @ ''.tmp'') \<in> A"
  shows "confined A s s'"
  using assms(1)
proof (cases rule: archive_cases)
  case (failed e s1)
  have c: "confined A s s1" using failed(1) assms(3) by (rule confined_writeArchive)
  have "confined A s1 s'"
    using failed(2) assms(3) confined_remove [of "at_path s1 (out @ ''.tmp'')" s1 "fst (sys_remove (at_path s1 (out @ ''.tmp'')) s1)" s' A]
    by (simp add: confined_at [OF c])
  with c show ?thesis by (rule confined_trans)
next
  case (renamed u s1 x)
  have c: "confined A s s1" using renamed(1) assms(3) by (rule confined_writeArchive)
  have "confined A s1 s'" using renamed(2) assms(2,3) by (simp add: confined_rename confined_at [OF c])
  with c show ?thesis by (rule confined_trans)
qed

lemma confined_archiveRepo [frame_intros]:
  assumes "archiveRepo targz dir out s = (r, s')" "at_path s out \<in> A" "at_path s (out @ ''.tmp'') \<in> A"
  shows "confined A s s'"
proof -
  obtain x s1 where m: "sys_mkdir_all (at_path s (fpdir out)) s = (x, s1)" by fastforce
  then have c: "confined A s s1" by (rule confined_mkdir_all)
  have "s' = s1 \<or> Archive targz dir out s1 = (r, s')"
    using assms(1) m by (auto simp: archiveRepo_def split: sum.splits)
  then have "confined A s1 s'" using assms(2,3) by (auto intro: confined_Archive simp: confined_at [OF c])
  with c show ?thesis by (rule confined_trans)
qed

section \<open>Properties\<close>

definition sample_targz :: targz where
  "sample_targz es = concat (map (\<lambda>(h, d). th_name h @ d) es)"

text \<open>C4: Archiving is all or nothing. Whatever fails, nothing but the temporary file differs
  afterwards: a good archive from an earlier run is still there. When it succeeds, the archive is the
  encoding of the complete, sorted list of the mirror's entries under one top-level directory, and the
  temporary file is gone.\<close>

theorem archive_atomic:
  assumes "proper_dir out" and "\<not> prefix (at_path s dir) (at_path s (out @ ''.tmp''))"
  shows "case Archive targz dir out s of
      (Inl e, s') \<Rightarrow> unchanged_but (at_path s (out @ ''.tmp'')) s s'
    | (Inr _, s') \<Rightarrow> look s' (at_path s out) = Some (File (targz (archive_entries (fpbase dir) (at_path s dir) s))) \<and>
        look s' (at_path s (out @ ''.tmp'')) = None"
proof -
  obtain r s' where a: "Archive targz dir out s = (r, s')" by fastforce
  show ?thesis
  proof (cases r)
    case (Inl e)
    with a archive_failed [of targz dir out s e s'] show ?thesis by (simp add: unchanged_but_def)
  next
    case (Inr u)
    with a archive_done(1,2) [of targz dir out s u s'] assms show ?thesis by simp
  qed
qed

lemma archive_atomic_witness:
  "let s = quiet_os [([''w'', ''a.git'', ''HEAD''], File ''ref''), ([''w'', ''a.git'', ''objects''], Dir), ([''w'', ''a.git''], Dir)] in
   (case Archive sample_targz ''a.git'' ''a.tar.gz'' s of
      (Inl e, s') \<Rightarrow> False
    | (Inr _, s') \<Rightarrow> look s' [''w'', ''a.tar.gz''] = Some (File ''a.git/a.git/HEADrefa.git/objects/''))"
proof -
  let ?s = "quiet_os [([''w'', ''a.git'', ''HEAD''], File ''ref''), ([''w'', ''a.git'', ''objects''], Dir), ([''w'', ''a.git''], Dir)]"
  have p: "proper_dir ''a.tar.gz''" "\<not> prefix (at_path ?s ''a.git'') (at_path ?s (''a.tar.gz'' @ ''.tmp''))" by code_simp+
  have ok: "fst (Archive sample_targz ''a.git'' ''a.tar.gz'' ?s) = Inr ()" by code_simp
  have eval: "sample_targz (archive_entries (fpbase ''a.git'') (at_path ?s ''a.git'') ?s) = ''a.git/a.git/HEADrefa.git/objects/''"
    "at_path ?s ''a.tar.gz'' = [''w'', ''a.tar.gz'']" by code_simp+
  from archive_atomic [OF p, where targz = sample_targz] ok eval show ?thesis
    by (auto simp: Let_def split: prod.splits)
qed

text \<open>C29: Archiving an unchanged mirror again gives the same bytes: two archives of equal trees with
  equal permission bits are equal files, whatever the modification times, owners, group names, the
  order the file system lists entries in, and the rest of the two file systems.\<close>

theorem archive_reproducible:
  assumes "Archive targz dir out s = (Inr u, s')" and "Archive targz dir2 out2 t = (Inr v, t')"
    and "same_tree (at_path s dir) s (at_path t dir2) t" and "fpbase dir = fpbase dir2"
    and "proper_dir out" "\<not> prefix (at_path s dir) (at_path s (out @ ''.tmp''))"
    and "proper_dir out2" "\<not> prefix (at_path t dir2) (at_path t (out2 @ ''.tmp''))"
  shows "\<exists>bytes. look s' (at_path s out) = Some (File bytes) \<and> look t' (at_path t out2) = Some (File bytes)"
  using archive_done(1) [OF assms(1,5,6)] archive_done(1) [OF assms(2,7,8)] archive_entries_cong [OF assms(3)] assms(4)
  by simp

definition later_machine :: machine where
  "later_machine = quiet_machine\<lparr>m_attr := (\<lambda>p. quiet_attrs\<lparr>a_mtime := 99, a_uid := 7, a_uname := ''bob''\<rparr>)\<rparr>"

lemma archive_reproducible_witness:
  "let s = quiet_os [([''w'', ''a.git'', ''HEAD''], File ''ref''), ([''w'', ''a.git'', ''x''], Dir), ([''w'', ''a.git''], Dir)];
       t = (quiet_os [([''w'', ''a.git'', ''x''], Dir), ([''w'', ''a.git''], Dir), ([''w'', ''a.git'', ''HEAD''], File ''ref'')])\<lparr>os_mach := later_machine\<rparr>
   in \<exists>bytes. look (snd (Archive sample_targz ''a.git'' ''a.tar.gz'' s)) (at_path s ''a.tar.gz'') = Some (File bytes) \<and>
              look (snd (Archive sample_targz ''a.git'' ''b.tar.gz'' t)) (at_path t ''b.tar.gz'') = Some (File bytes)"
proof -
  let ?s = "quiet_os [([''w'', ''a.git'', ''HEAD''], File ''ref''), ([''w'', ''a.git'', ''x''], Dir), ([''w'', ''a.git''], Dir)]"
  let ?t = "(quiet_os [([''w'', ''a.git'', ''x''], Dir), ([''w'', ''a.git''], Dir), ([''w'', ''a.git'', ''HEAD''], File ''ref'')])\<lparr>os_mach := later_machine\<rparr>"
  have "fst (Archive sample_targz ''a.git'' ''a.tar.gz'' ?s) = Inr ()" "fst (Archive sample_targz ''a.git'' ''b.tar.gz'' ?t) = Inr ()"
    by code_simp+
  then have ok: "Archive sample_targz ''a.git'' ''a.tar.gz'' ?s = (Inr (), snd (Archive sample_targz ''a.git'' ''a.tar.gz'' ?s))"
    "Archive sample_targz ''a.git'' ''b.tar.gz'' ?t = (Inr (), snd (Archive sample_targz ''a.git'' ''b.tar.gz'' ?t))"
    by (metis prod.collapse)+
  have wd: "at_path ?s ''a.git'' = [''w'', ''a.git'']" "at_path ?t ''a.git'' = [''w'', ''a.git'']" by code_simp+
  have "same_tree (at_path ?s ''a.git'') ?s (at_path ?t ''a.git'') ?t"
    unfolding wd by (auto simp: same_tree_def look_def quiet_os_def quiet_machine_def later_machine_def quiet_attrs_def)
  moreover have "fpbase ''a.git'' = fpbase ''a.git''" ..
  moreover have "proper_dir ''a.tar.gz''" "\<not> prefix (at_path ?s ''a.git'') (at_path ?s (''a.tar.gz'' @ ''.tmp''))"
    "proper_dir ''b.tar.gz''" "\<not> prefix (at_path ?t ''a.git'') (at_path ?t (''b.tar.gz'' @ ''.tmp''))" by code_simp+
  ultimately show ?thesis unfolding Let_def by (rule archive_reproducible [OF ok])
qed

end
