(* ===== verification/Json.thy ===== *)
theory Json
  imports Prelude "HOL-Library.Monad_Syntax"
begin

text \<open>
  The part of \<open>encoding/json\<close> the program writes files with: values in the order of the
  struct's fields, and \<open>json.MarshalIndent(v, "", "  ")\<close>. Strings are UTF-8: bytes from 128 on
  are copied as they are, but for the characters U+2028 and U+2029, which are escaped. (Go also
  replaces bytes that are not valid UTF-8, which no string that comes from a JSON decoder has; that
  is left out.)
\<close>

datatype json =
    JNull
  | JBool bool
  | JNum int
  | JStr string
  | JArr "json list"
  | JObj "(string \<times> json) list"

definition hex_digit :: "nat \<Rightarrow> char" where
  "hex_digit n = ''0123456789abcdef'' ! n"

definition json_escape :: "char \<Rightarrow> string" where
  "json_escape c =
     (let n = (of_char c :: nat); bs = CHR 0x5C in
      if c = CHR 0x22 then [bs, CHR 0x22]
      else if c = bs then [bs, bs]
      else if n = 8 then [bs, CHR ''b'']
      else if n = 12 then [bs, CHR ''f'']
      else if n = 10 then [bs, CHR ''n'']
      else if n = 13 then [bs, CHR ''r'']
      else if n = 9 then [bs, CHR ''t'']
      else if n < 32 \<or> c \<in> {CHR ''<'', CHR ''>'', CHR ''&''}
           then bs # ''u00'' @ [hex_digit (n div 16), hex_digit (n mod 16)]
      else [c])"

text \<open>The UTF-8 bytes of U+2028 and U+2029.\<close>

fun line_separator :: "string \<Rightarrow> bool" where
  "line_separator (c # b # a # s) \<longleftrightarrow> c = CHR 0xE2 \<and> b = CHR 0x80 \<and> (a = CHR 0xA8 \<or> a = CHR 0xA9)"
| "line_separator s \<longleftrightarrow> False"

fun json_chars :: "string \<Rightarrow> string" where
  "json_chars [] = []"
| "json_chars (c # s) =
     (if line_separator (c # s) then CHR 0x5C # ''u202'' @ (if s ! 1 = CHR 0xA8 then ''8'' else ''9'') @ json_chars (drop 2 s)
      else json_escape c @ json_chars s)"

definition json_string :: "string \<Rightarrow> string" where
  "json_string s = CHR 0x22 # json_chars s @ [CHR 0x22]"

definition newline :: "nat \<Rightarrow> string" where
  "newline depth = CHR ''\<newline>'' # replicate (2 * depth) CHR '' ''"

fun marshal :: "nat \<Rightarrow> json \<Rightarrow> string" and marshal_fields :: "nat \<Rightarrow> (string \<times> json) list \<Rightarrow> string list" where
  "marshal d JNull = ''null''"
| "marshal d (JBool b) = (if b then ''true'' else ''false'')"
| "marshal d (JNum i) = itoa i"
| "marshal d (JStr s) = json_string s"
| "marshal d (JArr xs) =
     (if xs = [] then ''[]''
      else ''['' @ join_with '','' (map (\<lambda>x. newline (Suc d) @ marshal (Suc d) x) xs) @ newline d @ '']'')"
| "marshal d (JObj fs) =
     (if fs = [] then ''{}'' else ''{'' @ join_with '','' (marshal_fields (Suc d) fs) @ newline d @ ''}'')"
| "marshal_fields d [] = []"
| "marshal_fields d ((k, v) # fs) = (newline d @ json_string k @ '': '' @ marshal d v) # marshal_fields d fs"

definition MarshalIndent :: "json \<Rightarrow> string" where
  "MarshalIndent v = marshal 0 v"

text \<open>A slice: nil encodes as null. A field with \<open>omitempty\<close> is left out when empty.\<close>

definition json_slice :: "('a \<Rightarrow> json) \<Rightarrow> 'a list option \<Rightarrow> json" where
  "json_slice f v = (case v of None \<Rightarrow> JNull | Some xs \<Rightarrow> JArr (map f xs))"

definition omit_nil :: "string \<Rightarrow> string option \<Rightarrow> (string \<times> json) list" where
  "omit_nil k v = (case v of None \<Rightarrow> [] | Some t \<Rightarrow> [(k, JStr t)])"

definition field :: "string \<Rightarrow> (string \<times> json) list \<Rightarrow> json option" where
  "field k fs = map_of fs k"

section \<open>Decoding\<close>

text \<open>
  \<open>json.Unmarshal\<close> into the structs the clients declare: a field that is absent or null keeps
  its zero value, the last of several fields of one name counts, and a value of another
  type is an error (\<open>None\<close>). Fields are matched by their exact name.
\<close>

fun dec_string :: "json \<Rightarrow> string option" where
  "dec_string (JStr s) = Some s"
| "dec_string JNull = Some []"
| "dec_string j = None"

fun dec_int :: "json \<Rightarrow> int option" where
  "dec_int (JNum n) = Some n"
| "dec_int JNull = Some 0"
| "dec_int j = None"

fun dec_bool :: "json \<Rightarrow> bool option" where
  "dec_bool (JBool b) = Some b"
| "dec_bool JNull = Some False"
| "dec_bool j = None"

text \<open>A slice, nil for null; a list where the code does not tell nil from empty.\<close>

fun dec_slice :: "(json \<Rightarrow> 'a option) \<Rightarrow> json \<Rightarrow> 'a list option option" where
  "dec_slice d (JArr xs) = map_option Some (those (map d xs))"
| "dec_slice d JNull = Some None"
| "dec_slice d j = None"

fun dec_list :: "(json \<Rightarrow> 'a option) \<Rightarrow> json \<Rightarrow> 'a list option" where
  "dec_list d (JArr xs) = those (map d xs)"
| "dec_list d JNull = Some []"
| "dec_list d j = None"

definition dec_ptr :: "(json \<Rightarrow> 'a option) \<Rightarrow> json \<Rightarrow> 'a option option" where
  "dec_ptr d j = (if j = JNull then Some None else map_option Some (d j))"

fun dec_struct :: "((string \<times> json) list \<Rightarrow> 'a option) \<Rightarrow> json \<Rightarrow> 'a option" where
  "dec_struct f (JObj fs) = f fs"
| "dec_struct f JNull = f []"
| "dec_struct f j = None"

definition dec_field :: "string \<Rightarrow> (json \<Rightarrow> 'a option) \<Rightarrow> (string \<times> json) list \<Rightarrow> 'a option" where
  "dec_field k d fs = (case map_of (rev fs) k of None \<Rightarrow> d JNull | Some j \<Rightarrow> d j)"

end
