(* ===== verification/Metadata.thy ===== *)
theory Metadata
  imports Json Stale
begin

text \<open>
  Exported forge metadata (\<open>metadata.go\<close>): which kinds there are, the records every forge's
  issues, releases and pull requests are mapped onto, and how they are written below a
  repository's metadata directory. A time is its RFC 3339 text, as it stands in the JSON
  the program reads and writes; a slice that may be nil is an optional list.
\<close>

type_synonym time = string

section \<open>Kinds\<close>

definition knownMetadataKinds :: "metadata_kind list" where
  "knownMetadataKinds = [MetadataIssues, MetadataReleases, MetadataPullRequests]"

fun parse_kinds :: "string list \<Rightarrow> metadata_kind list \<Rightarrow> err + metadata_kind list" where
  "parse_kinds [] kinds = Inr kinds"
| "parse_kinds (v # vs) kinds =
     (if v \<notin> set knownMetadataKinds then Inl (ErrBadMetadataKind v) else parse_kinds vs (kinds @ [v]))"

definition ParseMetadataKinds :: "string list \<Rightarrow> err + metadata_kind list" where
  "ParseMetadataKinds vals = (if vals = [] then Inr [] else parse_kinds vals [])"

definition wantsMetadata :: "metadata_kind list \<Rightarrow> metadata_kind \<Rightarrow> bool" where
  "wantsMetadata kinds kind \<longleftrightarrow> kind \<in> set kinds"

section \<open>Records\<close>

record comment =
  c_author :: string
  c_body :: string
  c_created_at :: time

record issue =
  i_number :: int
  i_title :: string
  i_body :: string
  i_author :: string
  i_state :: string
  i_labels :: "string list option"
  i_created_at :: time
  i_updated_at :: time
  i_closed_at :: "time option"
  i_comments :: "comment list option"

record release_asset =
  ra_name :: string
  ra_size :: int

record release =
  r_tag_name :: string
  r_name :: string
  r_body :: string
  r_author :: string
  r_created_at :: time
  r_published_at :: "time option"
  r_assets :: "release_asset list option"

record review_comment =
  rc_author :: string
  rc_body :: string
  rc_created_at :: time
  rc_file :: string
  rc_line :: int

record pull_request =
  pr_number :: int
  pr_title :: string
  pr_body :: string
  pr_author :: string
  pr_state :: string
  pr_source_branch :: string
  pr_target_branch :: string
  pr_created_at :: time
  pr_updated_at :: time
  pr_closed_at :: "time option"
  pr_merged_at :: "time option"
  pr_comments :: "review_comment list option"

definition comment_json :: "comment \<Rightarrow> json" where
  "comment_json c = JObj [(''author'', JStr (c_author c)), (''body'', JStr (c_body c)), (''created_at'', JStr (c_created_at c))]"

definition issue_json :: "issue \<Rightarrow> json" where
  "issue_json i = JObj ([(''number'', JNum (i_number i)), (''title'', JStr (i_title i)), (''body'', JStr (i_body i)),
     (''author'', JStr (i_author i)), (''state'', JStr (i_state i)), (''labels'', json_slice JStr (i_labels i)),
     (''created_at'', JStr (i_created_at i)), (''updated_at'', JStr (i_updated_at i))] @
     omit_nil ''closed_at'' (i_closed_at i) @ [(''comments'', json_slice comment_json (i_comments i))])"

definition asset_json :: "release_asset \<Rightarrow> json" where
  "asset_json a = JObj [(''name'', JStr (ra_name a)), (''size'', JNum (ra_size a))]"

definition release_json :: "release \<Rightarrow> json" where
  "release_json r = JObj ([(''tag_name'', JStr (r_tag_name r)), (''name'', JStr (r_name r)), (''body'', JStr (r_body r)),
     (''author'', JStr (r_author r)), (''created_at'', JStr (r_created_at r))] @
     omit_nil ''published_at'' (r_published_at r) @ [(''assets'', json_slice asset_json (r_assets r))])"

definition review_comment_json :: "review_comment \<Rightarrow> json" where
  "review_comment_json c = JObj ([(''author'', JStr (rc_author c)), (''body'', JStr (rc_body c)),
     (''created_at'', JStr (rc_created_at c))] @
     (if rc_file c = [] then [] else [(''file'', JStr (rc_file c))]) @
     (if rc_line c = 0 then [] else [(''line'', JNum (rc_line c))]))"

definition pull_request_json :: "pull_request \<Rightarrow> json" where
  "pull_request_json p = JObj ([(''number'', JNum (pr_number p)), (''title'', JStr (pr_title p)), (''body'', JStr (pr_body p)),
     (''author'', JStr (pr_author p)), (''state'', JStr (pr_state p)), (''source_branch'', JStr (pr_source_branch p)),
     (''target_branch'', JStr (pr_target_branch p)), (''created_at'', JStr (pr_created_at p)),
     (''updated_at'', JStr (pr_updated_at p))] @
     omit_nil ''closed_at'' (pr_closed_at p) @ omit_nil ''merged_at'' (pr_merged_at p) @
     [(''comments'', json_slice review_comment_json (pr_comments p))])"

section \<open>Writing\<close>

definition WriteIssue :: "string \<Rightarrow> issue \<Rightarrow> os \<Rightarrow> (err + unit) \<times> os" where
  "WriteIssue dir issue s =
     (let issue = (if i_comments issue = None then issue\<lparr>i_comments := Some []\<rparr> else issue);
          data = MarshalIndent (issue_json issue);
          path = fpjoin [dir, itoa (i_number issue) @ ''.json'']
      in case sys_write_file (at_path s path) data s of
           (Inl e, s1) \<Rightarrow> (Inl (Wrap (''write issue '' @ itoa (i_number issue)) (OsErr e)), s1)
         | (Inr _, s1) \<Rightarrow> (Inr (), s1))"

definition MaxReleaseAssetSize :: nat where
  "MaxReleaseAssetSize = 4294967296"

definition sanitizeName :: "string \<Rightarrow> string" where
  "sanitizeName name =
     (let name = map (\<lambda>c. if c = CHR ''/'' \<or> c = CHR 0x5C then CHR ''-'' else c) name
      in if name = [] \<or> name = ''.'' \<or> name = ''..'' then ''_'' else name)"

definition releaseDir :: "string \<Rightarrow> string \<Rightarrow> string" where
  "releaseDir dir tag_name = fpjoin [dir, sanitizeName tag_name]"

definition WriteRelease :: "string \<Rightarrow> release \<Rightarrow> os \<Rightarrow> (err + unit) \<times> os" where
  "WriteRelease dir release s =
     (let release = (if r_assets release = None then release\<lparr>r_assets := Some []\<rparr> else release);
          data = MarshalIndent (release_json release);
          rd = releaseDir dir (r_tag_name release);
          ctx = ''write release '' @ r_tag_name release
      in case sys_mkdir_all (at_path s rd) s of
           (Inl e, s1) \<Rightarrow> (Inl (Wrap ctx (OsErr e)), s1)
         | (Inr _, s1) \<Rightarrow>
             (case sys_write_file (at_path s1 (fpjoin [rd, ''release.json''])) data s1 of
                (Inl e, s2) \<Rightarrow> (Inl (Wrap ctx (OsErr e)), s2)
              | (Inr _, s2) \<Rightarrow> (Inr (), s2)))"

definition WritePullRequest :: "string \<Rightarrow> pull_request \<Rightarrow> os \<Rightarrow> (err + unit) \<times> os" where
  "WritePullRequest dir pr s =
     (let pr = (if pr_comments pr = None then pr\<lparr>pr_comments := Some []\<rparr> else pr);
          data = MarshalIndent (pull_request_json pr);
          path = fpjoin [dir, itoa (pr_number pr) @ ''.json'']
      in case sys_write_file (at_path s path) data s of
           (Inl e, s1) \<Rightarrow> (Inl (Wrap (''write pull request '' @ itoa (pr_number pr)) (OsErr e)), s1)
         | (Inr _, s1) \<Rightarrow> (Inr (), s1))"

text \<open>A response body: the bytes it yields, then its end or an error.\<close>

record stream =
  st_data :: string
  st_error :: "err option"

text \<open>\<open>io.LimitReader\<close>: the end is reported once the limit is reached.\<close>

definition LimitReader :: "stream \<Rightarrow> nat \<Rightarrow> stream" where
  "LimitReader body n =
     \<lparr>st_data = take n (st_data body), st_error = (if length (st_data body) < n then st_error body else None)\<rparr>"

text \<open>
  \<open>io.Copy(f, body)\<close> into the open file \<open>p\<close>: how many bytes were written, and the error of the
  write or else of the body.
\<close>

definition io_copy :: "fpath \<Rightarrow> stream \<Rightarrow> os \<Rightarrow> (nat \<times> err option) \<times> os" where
  "io_copy p body s =
     (case fault s (SysWrite p) of
        Some e \<Rightarrow> (let part = take (m_short (os_mach s) p) (st_data body) in ((length part, Some (OsErr e)), put p (File part) s))
      | None \<Rightarrow> ((length (st_data body), st_error body), put p (File (st_data body)) s))"

definition WriteReleaseAsset :: "string \<Rightarrow> string \<Rightarrow> string \<Rightarrow> stream \<Rightarrow> os \<Rightarrow> (err + int) \<times> os" where
  "WriteReleaseAsset dir tag_name asset_name body s =
     (let asset_dir = fpjoin [releaseDir dir tag_name, ''assets''];
          ctx = ''write release asset '' @ asset_name
      in case sys_mkdir_all (at_path s asset_dir) s of
           (Inl e, s1) \<Rightarrow> (Inl (Wrap ctx (OsErr e)), s1)
         | (Inr _, s1) \<Rightarrow>
             (let path = at_path s1 (fpjoin [asset_dir, sanitizeName asset_name]) in
              case sys_create path s1 of
                (Inl e, s2) \<Rightarrow> (Inl (Wrap ctx (OsErr e)), s2)
              | (Inr _, s2) \<Rightarrow>
                  (case io_copy path (LimitReader body (MaxReleaseAssetSize + 1)) s2 of
                     ((n, copy_err), s3) \<Rightarrow>
                       (case copy_err of
                          Some e \<Rightarrow> (case sys_remove path s3 of (_, s4) \<Rightarrow> (Inl (Wrap ctx e), s4))
                        | None \<Rightarrow>
                            if n > MaxReleaseAssetSize then
                              (case sys_remove path s3 of (_, s4) \<Rightarrow> (Inl (Wrap ctx ErrReleaseAssetTooLarge), s4))
                            else (case fault s3 (SysClose path) of
                                    Some e \<Rightarrow> (Inl (Wrap ctx (OsErr e)), s3)
                                  | None \<Rightarrow> (Inr (int n), s3))))))"

section \<open>Names\<close>

lemma sanitizeName_plain_name: "plain_name (sanitizeName n)"
proof -
  have "CHR ''/'' \<notin> set (map (\<lambda>c. if c = CHR ''/'' \<or> c = CHR 0x5C then CHR ''-'' else c) n)" by auto
  then show ?thesis by (simp add: sanitizeName_def Let_def plain_name_def)
qed

lemma plain_itoa_json: "plain_name (itoa i @ ''.json'')"
proof (rule plain_name_append)
  have "itoa i \<noteq> ''.''" "itoa i \<noteq> ''..''"
    using itoa_chars [of "CHR ''.''" i] by auto
  then show "plain_name (itoa i)" using itoa_no_slash by (simp add: plain_name_def)
qed auto

definition numbered_file :: "string \<Rightarrow> int \<Rightarrow> os \<Rightarrow> fpath" where
  "numbered_file dir n s = at_path s dir @ [itoa n @ ''.json'']"

lemma at_numbered: "at_path s (fpjoin [dir, itoa n @ ''.json'']) = numbered_file dir n s"
  by (simp only: at_path_def numbered_file_def resolve_fpjoin_name [OF plain_itoa_json])

lemma numbered_file_inject [simp]: "numbered_file dir m s = numbered_file dir n s \<longleftrightarrow> m = n"
  by (simp add: numbered_file_def)

definition release_file :: "string \<Rightarrow> string \<Rightarrow> os \<Rightarrow> fpath" where
  "release_file dir tag s = at_path s dir @ [sanitizeName tag, ''release.json'']"

definition asset_file :: "string \<Rightarrow> string \<Rightarrow> string \<Rightarrow> os \<Rightarrow> fpath" where
  "asset_file dir tag name s = at_path s dir @ [sanitizeName tag, ''assets'', sanitizeName name]"

lemma plain_literals: "plain_name ''release.json''" "plain_name ''assets''"
  by (simp_all add: plain_name_def)

lemma at_releaseDir: "at_path s (releaseDir dir tag) = at_path s dir @ [sanitizeName tag]"
  by (simp only: at_path_def releaseDir_def resolve_fpjoin_name [OF sanitizeName_plain_name])

lemma at_release_file: "at_path s (fpjoin [releaseDir dir tag, ''release.json'']) = release_file dir tag s"
  using at_releaseDir [of s dir tag]
  by (simp only: at_path_def release_file_def resolve_fpjoin_name [OF plain_literals(1)] append.assoc append.simps)

lemma at_assets: "at_path s (fpjoin [releaseDir dir tag, ''assets'']) = at_path s dir @ [sanitizeName tag, ''assets'']"
  using at_releaseDir [of s dir tag]
  by (simp only: at_path_def resolve_fpjoin_name [OF plain_literals(2)] append.assoc append.simps)

lemma at_asset_file:
  "at_path s (fpjoin [fpjoin [releaseDir dir tag, ''assets''], sanitizeName name]) = asset_file dir tag name s"
  using at_assets [of s dir tag]
  by (simp only: at_path_def asset_file_def resolve_fpjoin_name [OF sanitizeName_plain_name] append.assoc append.simps)

section \<open>Where a write lands\<close>

definition full_issue :: "issue \<Rightarrow> issue" where
  "full_issue i = i\<lparr>i_comments := Some (case i_comments i of None \<Rightarrow> [] | Some cs \<Rightarrow> cs)\<rparr>"

definition full_pull_request :: "pull_request \<Rightarrow> pull_request" where
  "full_pull_request p = p\<lparr>pr_comments := Some (case pr_comments p of None \<Rightarrow> [] | Some cs \<Rightarrow> cs)\<rparr>"

definition full_release :: "release \<Rightarrow> release" where
  "full_release r = r\<lparr>r_assets := Some (case r_assets r of None \<Rightarrow> [] | Some as \<Rightarrow> as)\<rparr>"

lemma WriteIssue_alt:
  "WriteIssue dir i s = (case sys_write_file (numbered_file dir (i_number i) s) (MarshalIndent (issue_json (full_issue i))) s of
     (Inl e, s1) \<Rightarrow> (Inl (Wrap (''write issue '' @ itoa (i_number i)) (OsErr e)), s1) | (Inr _, s1) \<Rightarrow> (Inr (), s1))"
proof -
  have "(if i_comments i = None then i\<lparr>i_comments := Some []\<rparr> else i) = full_issue i"
    by (cases i) (auto simp: full_issue_def split: option.splits)
  moreover have "i_number (full_issue i) = i_number i" by (simp add: full_issue_def)
  ultimately show ?thesis unfolding WriteIssue_def Let_def by (simp only: at_numbered)
qed

lemma WritePullRequest_alt:
  "WritePullRequest dir p s = (case sys_write_file (numbered_file dir (pr_number p) s) (MarshalIndent (pull_request_json (full_pull_request p))) s of
     (Inl e, s1) \<Rightarrow> (Inl (Wrap (''write pull request '' @ itoa (pr_number p)) (OsErr e)), s1) | (Inr _, s1) \<Rightarrow> (Inr (), s1))"
proof -
  have "(if pr_comments p = None then p\<lparr>pr_comments := Some []\<rparr> else p) = full_pull_request p"
    by (cases p) (auto simp: full_pull_request_def split: option.splits)
  moreover have "pr_number (full_pull_request p) = pr_number p" by (simp add: full_pull_request_def)
  ultimately show ?thesis unfolding WritePullRequest_def Let_def by (simp only: at_numbered)
qed

lemma WriteRelease_alt:
  "WriteRelease dir r s =
     (let ctx = ''write release '' @ r_tag_name r in
      case sys_mkdir_all (at_path s dir @ [sanitizeName (r_tag_name r)]) s of
        (Inl e, s1) \<Rightarrow> (Inl (Wrap ctx (OsErr e)), s1)
      | (Inr _, s1) \<Rightarrow>
          (case sys_write_file (release_file dir (r_tag_name r) s1) (MarshalIndent (release_json (full_release r))) s1 of
             (Inl e, s2) \<Rightarrow> (Inl (Wrap ctx (OsErr e)), s2) | (Inr _, s2) \<Rightarrow> (Inr (), s2)))"
proof -
  have "(if r_assets r = None then r\<lparr>r_assets := Some []\<rparr> else r) = full_release r"
    by (cases r) (auto simp: full_release_def split: option.splits)
  moreover have "r_tag_name (full_release r) = r_tag_name r" by (simp add: full_release_def)
  ultimately show ?thesis unfolding WriteRelease_def Let_def by (simp only: at_releaseDir at_release_file)
qed

lemma confined_below: "confined {R @ xs} s s' \<Longrightarrow> confined {R} s s'"
  by (erule confined_mono) simp

lemma confined_write_below: "sys_write_file (R @ xs) d s = (r, s') \<Longrightarrow> confined {R} s s'"
  by (rule confined_below, rule confined_write_file) auto

lemma confined_WriteIssue [frame_intros]:
  assumes "WriteIssue dir i s = (r, s')"
  shows "confined {at_path s dir} s s'"
proof -
  obtain x where "sys_write_file (numbered_file dir (i_number i) s) (MarshalIndent (issue_json (full_issue i))) s = (x, s')"
    using assms by (auto simp: WriteIssue_alt split: prod.splits sum.splits)
  then have "confined {numbered_file dir (i_number i) s} s s'" by (rule confined_write_file) simp
  then show ?thesis unfolding numbered_file_def by (rule confined_below)
qed

lemma confined_WritePullRequest [frame_intros]:
  assumes "WritePullRequest dir p s = (r, s')"
  shows "confined {at_path s dir} s s'"
proof -
  obtain x where "sys_write_file (numbered_file dir (pr_number p) s) (MarshalIndent (pull_request_json (full_pull_request p))) s = (x, s')"
    using assms by (auto simp: WritePullRequest_alt split: prod.splits sum.splits)
  then have "confined {numbered_file dir (pr_number p) s} s s'" by (rule confined_write_file) simp
  then show ?thesis unfolding numbered_file_def by (rule confined_below)
qed

lemma confined_WriteRelease [frame_intros]:
  assumes "WriteRelease dir r s = (x, s')"
  shows "confined {at_path s dir} s s'"
proof -
  obtain y s1 where m: "sys_mkdir_all (at_path s dir @ [sanitizeName (r_tag_name r)]) s = (y, s1)" by fastforce
  then have c: "confined {at_path s dir} s s1" by (rule confined_mkdir_all)
  have "s' = s1 \<or> (\<exists>z. sys_write_file (release_file dir (r_tag_name r) s1) (MarshalIndent (release_json (full_release r))) s1 = (z, s'))"
    using assms m by (auto simp: WriteRelease_alt Let_def split: prod.splits sum.splits)
  then have "confined {at_path s dir} s1 s'"
    using confined_write_below unfolding release_file_def confined_at [OF c] by auto
  with c show ?thesis by (rule confined_trans)
qed

lemma io_copy_effect: "io_copy p body s = (x, s') \<Longrightarrow> \<exists>c. s' = put p (File c) s"
  by (auto simp: io_copy_def Let_def split: option.splits)

text \<open>How writing an asset can go once its directory is there and its file is open.\<close>

lemma WriteReleaseAsset_cases:
  assumes "WriteReleaseAsset dir tag name body s = (x, s')"
  obtains (not_opened) e y s1 z where "sys_mkdir_all (at_path s dir @ [sanitizeName tag, ''assets'']) s = (y, s1)"
      "s' = s1 \<or> sys_create (asset_file dir tag name s) s1 = (Inl z, s')" "x = Inl (Wrap (''write release asset '' @ name) (OsErr e))"
  | (opened) s1 n c s3 where "sys_mkdir_all (at_path s dir @ [sanitizeName tag, ''assets'']) s = (Inr (), s1)"
      "sys_create (asset_file dir tag name s) s1 = (Inr (), put (asset_file dir tag name s) (File []) s1)"
      "io_copy (asset_file dir tag name s) (LimitReader body (MaxReleaseAssetSize + 1)) (put (asset_file dir tag name s) (File []) s1) = ((n, c), s3)"
      "(case c of Some e \<Rightarrow> x = Inl (Wrap (''write release asset '' @ name) e) \<and> s' = snd (sys_remove (asset_file dir tag name s) s3)
        | None \<Rightarrow> if n > MaxReleaseAssetSize
                  then x = Inl (Wrap (''write release asset '' @ name) ErrReleaseAssetTooLarge) \<and> s' = snd (sys_remove (asset_file dir tag name s) s3)
                  else s' = s3 \<and> x = (case fault s3 (SysClose (asset_file dir tag name s)) of
                          Some e \<Rightarrow> Inl (Wrap (''write release asset '' @ name) (OsErr e)) | None \<Rightarrow> Inr (int n)))"
proof -
  let ?p = "asset_file dir tag name s"
  obtain y s1 where m: "sys_mkdir_all (at_path s dir @ [sanitizeName tag, ''assets'']) s = (y, s1)" by fastforce
  have at: "asset_file dir tag name s1 = ?p" by (simp add: asset_file_def at_path_cong [OF mkdir_all_mach [OF m]])
  obtain z s2 where c: "sys_create ?p s1 = (z, s2)" by fastforce
  obtain n ce s3 where i: "io_copy ?p (LimitReader body (MaxReleaseAssetSize + 1)) s2 = ((n, ce), s3)"
    by (metis prod.collapse)
  note def = assms [unfolded WriteReleaseAsset_def Let_def at_assets at_asset_file m prod.case at]
  consider e where "y = Inl e" | e where "y = Inr ()" "z = Inl e" | "y = Inr ()" "z = Inr ()"
    by (metis (full_types) obj_sumE unit.exhaust)
  then show ?thesis
  proof cases
    case 3
    with create_ok [of ?p s1 _ s2] c have s2: "s2 = put ?p (File []) s1" by simp
    show ?thesis
      using opened [of s1 n ce s3] def m c i 3 unfolding s2
      by (auto split: prod.splits option.splits if_splits)
  qed (use def m c in \<open>auto intro: not_opened\<close>)
qed

lemma confined_WriteReleaseAsset [frame_intros]:
  assumes "WriteReleaseAsset dir tag name body s = (x, s')"
  shows "confined {at_path s dir} s s'"
  using assms
proof (cases rule: WriteReleaseAsset_cases)
  case (not_opened e y s1 z)
  then show ?thesis using confined_mkdir_all [OF not_opened(1)] by (auto dest: create_err)
next
  case (opened s1 n c s3)
  let ?p = "asset_file dir tag name s"
  have c1: "confined {?p} s s1" using opened(1) by (rule confined_mkdir_all)
  obtain d where "s3 = put ?p (File d) (put ?p (File []) s1)" using io_copy_effect [OF opened(3)] by blast
  then have c3: "confined {?p} s s3"
    by (auto intro: confined_trans [OF c1] confined_trans [OF confined_put] confined_put)
  have "confined {?p} s3 (snd (sys_remove ?p s3))" by (rule confined_remove [OF surjective_pairing]) simp
  with opened(4) have "s' = s3 \<or> confined {?p} s3 s'" by (auto split: option.splits if_splits)
  with c3 have "confined {?p} s s'" by (auto intro: confined_trans)
  then show ?thesis unfolding asset_file_def by (rule confined_below)
qed

section \<open>Properties\<close>

text \<open>C15: Names a forge supplies cannot lead out of the export directory: whatever the tag and the
  asset are called, the asset's file is exactly three levels below it, and every component of its
  path is an ordinary file name.\<close>

theorem asset_path_contained:
  "at_path s (fpjoin [fpjoin [releaseDir dir tag, ''assets''], sanitizeName name])
     = at_path s dir @ [sanitizeName tag, ''assets'', sanitizeName name]
   \<and> plain_name (sanitizeName tag) \<and> plain_name (sanitizeName name)"
  by (simp add: at_asset_file sanitizeName_plain_name) (simp add: asset_file_def)

text \<open>Writing an issue sets one file, the one named by its number, to the issue's JSON with a nil
  comment list written as an empty one; when it fails nothing but that file can differ.\<close>

lemma WriteIssue_result:
  "case WriteIssue dir issue s of
     (Inl e, s') \<Rightarrow> unchanged_but (numbered_file dir (i_number issue) s) s s'
   | (Inr _, s') \<Rightarrow> look s' = (look s)(numbered_file dir (i_number issue) s \<mapsto> File (MarshalIndent (issue_json (full_issue issue))))"
proof -
  obtain x s' where w: "sys_write_file (numbered_file dir (i_number issue) s) (MarshalIndent (issue_json (full_issue issue))) s = (x, s')"
    by fastforce
  then show ?thesis
    using write_file_look(1,2) [OF w] by (cases x) (auto simp: WriteIssue_alt unchanged_but_def)
qed

text \<open>The same for a pull request.\<close>

lemma WritePullRequest_result:
  "case WritePullRequest dir pr s of
     (Inl e, s') \<Rightarrow> unchanged_but (numbered_file dir (pr_number pr) s) s s'
   | (Inr _, s') \<Rightarrow> look s' = (look s)(numbered_file dir (pr_number pr) s \<mapsto> File (MarshalIndent (pull_request_json (full_pull_request pr))))"
proof -
  obtain x s' where w: "sys_write_file (numbered_file dir (pr_number pr) s) (MarshalIndent (pull_request_json (full_pull_request pr))) s = (x, s')"
    by fastforce
  then show ?thesis
    using write_file_look(1,2) [OF w] by (cases x) (auto simp: WritePullRequest_alt unchanged_but_def)
qed

lemma unlinked_gone:
  assumes "wf_os s" "look s p \<noteq> Some Dir" "fault s (SysUnlink p) = None"
  shows "look (snd (sys_remove p s)) p = None"
proof -
  have "p \<noteq> []" using assms(2) by auto
  have "\<not> list_ex (strict_prefix p) (below p s)"
  proof
    assume "list_ex (strict_prefix p) (below p s)"
    then obtain q where q: "q \<in> set (below p s)" "strict_prefix p q" by (auto simp: list_ex_iff)
    then have "q \<noteq> []" "q \<in> fst ` set (os_tree s)" by (auto simp: in_below)
    then have "look s q \<noteq> None" using look_in_tree by blast
    then show False using no_child_of_file [OF assms(1,2) q(2)] by simp
  qed
  with assms(3) \<open>p \<noteq> []\<close> show ?thesis by (auto simp: sys_remove_def split: option.splits)
qed

text \<open>C16: An asset on disk is never a truncated one. A successful write reports the number of
  bytes of the whole body, at most the maximum, and the file holds exactly the body, which ended
  without an error. After a failure the file is absent or as it was, given that the program may
  delete and close it.\<close>

theorem WriteReleaseAsset_whole:
  assumes "wf_os s"
    and "fault s (SysUnlink (asset_file dir tag name s)) = None" "fault s (SysClose (asset_file dir tag name s)) = None"
  shows "case WriteReleaseAsset dir tag name body s of
      (Inl e, s') \<Rightarrow> look s' (asset_file dir tag name s) \<in> {None, look s (asset_file dir tag name s)}
    | (Inr n, s') \<Rightarrow> n = int (length (st_data body)) \<and> n \<le> 4294967296 \<and> st_error body = None \<and>
        look s' (asset_file dir tag name s) = Some (File (st_data body))"
proof -
  let ?p = "asset_file dir tag name s" and ?lim = "LimitReader body (MaxReleaseAssetSize + 1)"
  obtain x s' where w: "WriteReleaseAsset dir tag name body s = (x, s')" by fastforce
  have plain: "plain_path ?p" "plain_path (at_path s dir @ [sanitizeName tag, ''assets''])"
    using wf_at_path [OF assms(1)] by (simp_all add: asset_file_def sanitizeName_plain_name plain_literals)
  from w show ?thesis
  proof (cases rule: WriteReleaseAsset_cases)
    case (not_opened e y s1 z)
    have "\<not> prefix ?p (at_path s dir @ [sanitizeName tag, ''assets''])" by (simp add: asset_file_def)
    then have "look s1 ?p = look s ?p"
      using not_opened(1) by (cases y) (auto simp: mkdir_all_ok asset_file_def dest: mkdir_all_err)
    with w not_opened(2,3) show ?thesis by (auto dest: create_err)
  next
    case (opened s1 n c s3)
    note m = mkdir_all_mach [OF opened(1)]
    have wf1: "wf_os s1" using wf_mkdir_all [OF opened(1) assms(1) plain(2)] .
    note created = create_ok [OF opened(2)]
    have parent: "look s1 (butlast ?p) = Some Dir" using opened(2) by (auto simp: sys_create_def split: if_splits)
    obtain d where s3: "s3 = put ?p (File d) (put ?p (File []) s1)" using io_copy_effect [OF opened(3)] by blast
    have "butlast ?p \<noteq> ?p" by (simp add: asset_file_def butlast_append)
    then have "wf_os s3" unfolding s3 using wf1 plain(1) parent created by (intro wf_put) auto
    moreover have "look s3 ?p = Some (File d)" using created by (simp add: s3)
    moreover have f: "fault s3 q = fault s q" for q using m by (simp add: s3 fault_def)
    ultimately have gone: "look (snd (sys_remove ?p s3)) ?p = None"
      using unlinked_gone [of s3 ?p] assms(2) by simp
    show ?thesis
    proof (cases "c = None \<and> n \<le> MaxReleaseAssetSize")
      case False
      with opened(4) gone w show ?thesis by (auto split: option.splits if_splits)
    next
      case True
      with opened(3) have n: "n = length (st_data ?lim)" "st_error ?lim = None"
        and "s3 = put ?p (File (st_data ?lim)) (put ?p (File []) s1)"
        by (auto simp: io_copy_def Let_def split: option.splits)
      then have d: "d = st_data ?lim" using created \<open>look s3 ?p = Some (File d)\<close> by simp
      from True n(1) have short: "length (st_data body) \<le> MaxReleaseAssetSize"
        by (simp add: LimitReader_def min_def split: if_splits)
      then have "st_data ?lim = st_data body" "st_error ?lim = st_error body" by (simp_all add: LimitReader_def)
      with True n d short opened(4) w f assms(3) \<open>look s3 ?p = Some (File d)\<close> show ?thesis
        by (simp add: MaxReleaseAssetSize_def)
    qed
  qed
qed

lemma WriteReleaseAsset_whole_witness:
  "wf_os (quiet_os [([''w'', ''r''], Dir)]) \<and>
   (case WriteReleaseAsset ''r'' ''v1/x'' ''a.zip'' \<lparr>st_data = ''data'', st_error = None\<rparr> (quiet_os [([''w'', ''r''], Dir)]) of
      (Inl e, s') \<Rightarrow> False | (Inr n, s') \<Rightarrow> n = 4 \<and> look s' [''w'', ''r'', ''v1-x'', ''assets'', ''a.zip''] = Some (File ''data''))"
proof -
  let ?s = "quiet_os [([''w'', ''r''], Dir)]"
  have wf: "wf_os ?s"
    by (auto simp: wf_os_def look_def quiet_os_def quiet_machine_def plain_name_def split: if_splits)
  have at: "asset_file ''r'' ''v1/x'' ''a.zip'' ?s = [''w'', ''r'', ''v1-x'', ''assets'', ''a.zip'']" by code_simp
  have no: "fault ?s c = None" for c by (simp add: fault_def quiet_os_def quiet_machine_def)
  have at': "asset_file ''r'' ''v1/x'' ''a.zip'' (?s\<lparr>os_tree := t\<rparr>) = [''w'', ''r'', ''v1-x'', ''assets'', ''a.zip'']" for t
    using at by (simp add: asset_file_def at_path_def)
  have dir: "at_path ?s ''r'' @ [sanitizeName ''v1/x'', ''assets''] = [''w'', ''r'', ''v1-x'', ''assets'']" by code_simp
  have lk: "look ?s q = (if q = [] \<or> q = [''w''] \<or> q = [''w'', ''r''] then Some Dir else None)" for q
    by (simp add: look_def quiet_os_def)
  define t where "t = [([''w'', ''r'', ''v1-x''], Dir), ([''w'', ''r'', ''v1-x'', ''assets''], Dir)] @ os_tree ?s"
  have mk: "sys_mkdir_all [''w'', ''r'', ''v1-x'', ''assets''] ?s = (Inr (), ?s\<lparr>os_tree := t\<rparr>)"
    by (simp add: sys_mkdir_all_def no lk t_def)
  have t: "map_of t [''w'', ''r'', ''v1-x'', ''assets''] = Some Dir" "map_of t [''w'', ''r'', ''v1-x'', ''assets'', ''a.zip''] = None"
    by (simp_all add: t_def quiet_os_def)
  have ok: "\<not> isl (fst (WriteReleaseAsset ''r'' ''v1/x'' ''a.zip'' \<lparr>st_data = ''data'', st_error = None\<rparr> ?s))"
    unfolding WriteReleaseAsset_def Let_def at_assets dir mk
    by (simp add: at_asset_file at' no sys_create_def look_def t io_copy_def LimitReader_def MaxReleaseAssetSize_def)
  from WriteReleaseAsset_whole [OF wf no no, where dir = "''r''" and tag = "''v1/x''" and name = "''a.zip''" and body = "\<lparr>st_data = ''data'', st_error = None\<rparr>"] ok wf
  show ?thesis unfolding at by (auto split: prod.splits sum.splits)
qed

lemma parse_kinds_find:
  "parse_kinds vs ks = (case find (\<lambda>v. v \<notin> set knownMetadataKinds) vs of
     None \<Rightarrow> Inr (ks @ vs) | Some v \<Rightarrow> Inl (ErrBadMetadataKind v))"
proof (induction vs arbitrary: ks)
  case (Cons v vs)
  then show ?case by (simp add: Cons.IH split: option.splits)
qed simp

text \<open>The kinds to export are accepted exactly when every one is known, and then are what was
  asked for; otherwise the first unknown one is the error.\<close>

lemma ParseMetadataKinds_result:
  "ParseMetadataKinds vals = (case find (\<lambda>v. v \<notin> {''issues'', ''releases'', ''pull-requests''}) vals of
     None \<Rightarrow> Inr vals | Some v \<Rightarrow> Inl (ErrBadMetadataKind v))"
proof -
  have known: "{''issues'', ''releases'', ''pull-requests''} = set knownMetadataKinds"
    by (simp add: knownMetadataKinds_def MetadataIssues_def MetadataReleases_def MetadataPullRequests_def)
  show ?thesis unfolding ParseMetadataKinds_def parse_kinds_find known by (simp split: option.splits)
qed

lemma WriteRelease_ok:
  assumes "WriteRelease dir r s = (Inr u, s')"
  shows "look s' (release_file dir (r_tag_name r) s) = Some (File (MarshalIndent (release_json (full_release r))))"
    and "q \<noteq> release_file dir (r_tag_name r) s \<Longrightarrow> \<not> prefix q (release_file dir (r_tag_name r) s) \<Longrightarrow> look s' q = look s q"
    and "os_mach s' = os_mach s"
proof -
  obtain v s1 w where m: "sys_mkdir_all (at_path s dir @ [sanitizeName (r_tag_name r)]) s = (Inr v, s1)"
    and f: "sys_write_file (release_file dir (r_tag_name r) s1) (MarshalIndent (release_json (full_release r))) s1 = (Inr w, s')"
    using assms by (auto simp: WriteRelease_alt Let_def split: prod.splits sum.splits)
  have at: "release_file dir (r_tag_name r) s1 = release_file dir (r_tag_name r) s"
    by (simp add: release_file_def at_path_cong [OF mkdir_all_mach [OF m]])
  note f' = write_file_look [OF f [unfolded at]]
  show "look s' (release_file dir (r_tag_name r) s) = Some (File (MarshalIndent (release_json (full_release r))))"
    by (rule f'(2)) simp
  show "os_mach s' = os_mach s" using f'(3) mkdir_all_mach [OF m] by simp
  assume q: "q \<noteq> release_file dir (r_tag_name r) s" "\<not> prefix q (release_file dir (r_tag_name r) s)"
  have "prefix (at_path s dir @ [sanitizeName (r_tag_name r)]) (release_file dir (r_tag_name r) s)"
    by (simp add: release_file_def)
  with q(2) have "\<not> prefix q (at_path s dir @ [sanitizeName (r_tag_name r)])"
    using prefix_order.trans by blast
  with q(1) show "look s' q = look s q" by (simp add: f'(1) mkdir_all_ok [OF m])
qed

text \<open>Two releases whose tags are the same after sanitizing share one file: writing the second
  silently replaces what was exported for the first. Tags \<open>a/b\<close> and \<open>a-b\<close> are such a pair.\<close>

lemma release_tags_collide:
  assumes "sanitizeName (r_tag_name r1) = sanitizeName (r_tag_name r2)"
    and "WriteRelease dir r1 s = (Inr u, s1)" and "WriteRelease dir r2 s1 = (Inr v, s2)"
  shows "look s1 (release_file dir (r_tag_name r1) s) = Some (File (MarshalIndent (release_json (full_release r1)))) \<and>
    look s2 (release_file dir (r_tag_name r1) s) = Some (File (MarshalIndent (release_json (full_release r2))))"
proof -
  have "release_file dir (r_tag_name r1) s = release_file dir (r_tag_name r2) s1"
    using assms(1) by (simp add: release_file_def at_path_cong [OF WriteRelease_ok(3) [OF assms(2)]])
  with WriteRelease_ok(1) [OF assms(2)] WriteRelease_ok(1) [OF assms(3)]
  show ?thesis by simp
qed

definition sample_release :: "string \<Rightarrow> release" where
  "sample_release tag = \<lparr>r_tag_name = tag, r_name = tag, r_body = [], r_author = [], r_created_at = [], r_published_at = None, r_assets = None\<rparr>"

lemma release_tags_collide_witness:
  "let s = quiet_os [([''w'', ''r''], Dir)]; s1 = snd (WriteRelease ''r'' (sample_release ''a/b'') s); s2 = snd (WriteRelease ''r'' (sample_release ''a-b'') s1)
   in look s2 (release_file ''r'' ''a/b'' s) = Some (File (MarshalIndent (release_json (full_release (sample_release ''a-b'')))))"
proof -
  let ?s = "quiet_os [([''w'', ''r''], Dir)]"
  let ?w1 = "WriteRelease ''r'' (sample_release ''a/b'') ?s"
  let ?w2 = "WriteRelease ''r'' (sample_release ''a-b'') (snd ?w1)"
  have "sanitizeName (r_tag_name (sample_release ''a/b'')) = sanitizeName (r_tag_name (sample_release ''a-b''))" by code_simp
  moreover have "fst ?w1 = Inr ()" "fst ?w2 = Inr ()" by code_simp+
  then have "?w1 = (Inr (), snd ?w1)" "?w2 = (Inr (), snd ?w2)" by (metis prod.collapse)+
  ultimately show ?thesis
    using release_tags_collide [of "sample_release ''a/b''" "sample_release ''a-b''" "''r''" ?s "()" "snd ?w1" "()" "snd ?w2"]
    by (simp add: Let_def sample_release_def)
qed

end
