(* ===== verification/Run.thy ===== *)
theory Run
  imports Prune Mirror Archive Metadata
begin

text \<open>
  A whole run (\<open>run.go\<close>): listing the forge, mirroring, archiving and exporting the metadata of
  each repository, and what becomes of the mirrors the forge no longer lists. Here the
  repositories are worked on one after the other, the schedule a concurrency of one gives; the
  theory \<open>Run_Concurrent\<close> is about the others. Timeouts and cancellation reach the program only as
  errors of the adapters, which are arbitrary here.
\<close>

section \<open>Temporary directories\<close>

definition getenv :: "string \<Rightarrow> os \<Rightarrow> string" where
  "getenv key s =
     (case find (\<lambda>kv. has_prefix kv (key @ ''='')) (m_environ (os_mach s)) of
        None \<Rightarrow> [] | Some kv \<Rightarrow> drop (length key + 1) kv)"

definition temp_dir :: "os \<Rightarrow> string" where
  "temp_dir s = (if getenv ''TMPDIR'' s = [] then ''/tmp'' else getenv ''TMPDIR'' s)"

definition abs_string :: "fpath \<Rightarrow> string" where
  "abs_string p = ''/'' @ join_with ''/'' p"

section \<open>One repository\<close>

record mirror_outcome =
  mo_synced :: bool
  mo_archived :: bool
  mo_failed :: bool
  mo_metadata_exported :: int

fun exportMetadata ::
  "metadata_exporter list \<Rightarrow> options \<Rightarrow> repo \<Rightarrow> int \<Rightarrow> bool \<Rightarrow> os \<Rightarrow> ((int \<times> bool) \<times> os) option"
where
  "exportMetadata [] opts r exported bad s = Some ((exported, bad), s)"
| "exportMetadata (exp # exps) opts r exported bad s =
     (if \<not> wantsMetadata (o_export_metadata opts) (exp_kind exp) then exportMetadata exps opts r exported bad s
      else
        (let dir = fpjoin [metadata_dir (o_dest opts) (repo_path r), exp_kind exp] in
         case sys_mkdir_all (at_path s dir) s of
           (Inl e, s1) \<Rightarrow> exportMetadata exps opts r exported True (log_at LError ''metadata export failed'' (repo_path r) s1)
         | (Inr _, s1) \<Rightarrow>
             (case exp_export exp r dir (log_at LDebug ''exporting metadata'' (repo_path r) s1) of
                None \<Rightarrow> None
              | Some (Inl e, s2) \<Rightarrow>
                  exportMetadata exps opts r exported True (log_at LError ''metadata export failed'' (repo_path r) s2)
              | Some (Inr _, s2) \<Rightarrow> exportMetadata exps opts r (exported + 1) bad s2)))"

definition failed_outcome :: mirror_outcome where
  "failed_outcome = \<lparr>mo_synced = False, mo_archived = False, mo_failed = True, mo_metadata_exported = 0\<rparr>"

text \<open>The work on a repository once it is known in which directory to mirror it.\<close>

definition mirror_in :: "targz \<Rightarrow> runner \<Rightarrow> options \<Rightarrow> repo \<Rightarrow> string \<Rightarrow> os \<Rightarrow> (mirror_outcome \<times> os) option" where
  "mirror_in targz rn opts r dir s =
     (let want_archive = wants (o_archive opts) (repo_archived r) in
      case sys_mkdir_all (at_path s (fpdir dir)) s of
        (Inl e, s1) \<Rightarrow> Some (failed_outcome, log_at LError ''mirror failed'' (repo_path r) s1)
      | (Inr _, s1) \<Rightarrow>
          (case run_mirrorer rn (run_remoter rn r) dir (log_at LDebug ''mirroring'' (repo_path r) s1) of
             (Inl e, s2) \<Rightarrow> Some (failed_outcome, log_at LError ''mirror failed'' (repo_path r) s2)
           | (Inr _, s2) \<Rightarrow>
               (case exportMetadata (run_exporters rn) opts r 0 False s2 of
                  None \<Rightarrow> None
                | Some ((exported, bad), s3) \<Rightarrow>
                    (let outcome = \<lparr>mo_synced = True, mo_archived = False, mo_failed = bad, mo_metadata_exported = exported\<rparr> in
                     if \<not> want_archive then Some (outcome, s3)
                     else
                       (let archive_out = archive_path (o_archive_dir opts) (repo_path r) in
                        case archiveRepo targz dir archive_out (log_at LDebug ''archiving'' (repo_path r) s3) of
                          (Inl e, s4) \<Rightarrow> Some (outcome\<lparr>mo_failed := True\<rparr>, log_at LError ''archive failed'' (repo_path r) s4)
                        | (Inr _, s4) \<Rightarrow> Some (outcome\<lparr>mo_archived := True\<rparr>, s4))))))"

definition mirrorRepo :: "targz \<Rightarrow> runner \<Rightarrow> options \<Rightarrow> repo \<Rightarrow> os \<Rightarrow> (mirror_outcome \<times> os) option" where
  "mirrorRepo targz rn opts r s =
     (let want_archive = wants (o_archive opts) (repo_archived r);
          dir = mirror_path (o_dest opts) (repo_path r)
      in if repo_archived r \<and> want_archive then
           (case sys_mkdir_temp (at_path s (temp_dir s)) ''backup-git-repos-'' s of
              (Inl e, s1) \<Rightarrow> Some (failed_outcome, log_at LError ''mirror failed'' (repo_path r) s1)
            | (Inr scratch, s1) \<Rightarrow>
                (case mirror_in targz rn opts r (fpjoin [abs_string scratch, fpbase dir]) s1 of
                   None \<Rightarrow> None
                 | Some (outcome, s2) \<Rightarrow> (case sys_remove_all scratch s2 of (_, s3) \<Rightarrow> Some (outcome, s3))))
         else mirror_in targz rn opts r dir s)"

section \<open>Counters\<close>

record run_counters =
  k_synced :: int
  k_skipped :: int
  k_failed :: int
  k_archived :: int
  k_metadata_exported :: int
  k_done :: int
  k_total :: int
  k_progress :: "(int \<times> int) list"

definition new_counters :: "int \<Rightarrow> run_counters" where
  "new_counters n = \<lparr>k_synced = 0, k_skipped = 0, k_failed = 0, k_archived = 0, k_metadata_exported = 0,
     k_done = 0, k_total = n, k_progress = []\<rparr>"

definition reportDone :: "run_counters \<Rightarrow> run_counters" where
  "reportDone c = (let n = k_done c + 1 in c\<lparr>k_done := n, k_progress := k_progress c @ [(n, k_total c)]\<rparr>)"

definition count_outcome :: "mirror_outcome \<Rightarrow> run_counters \<Rightarrow> run_counters" where
  "count_outcome o1 c =
     c\<lparr>k_synced := (if mo_synced o1 then k_synced c + 1 else k_synced c),
       k_archived := (if mo_archived o1 then k_archived c + 1 else k_archived c),
       k_failed := (if mo_failed o1 then k_failed c + 1 else k_failed c),
       k_metadata_exported := k_metadata_exported c + mo_metadata_exported o1\<rparr>"

definition runRepo :: "targz \<Rightarrow> runner \<Rightarrow> options \<Rightarrow> repo \<Rightarrow> run_counters \<times> os \<Rightarrow> (run_counters \<times> os) option" where
  "runRepo targz rn opts r cs =
     (case mirrorRepo targz rn opts r (snd cs) of
        None \<Rightarrow> None
      | Some (outcome, s1) \<Rightarrow> Some (count_outcome outcome (fst cs), s1))"

section \<open>The run\<close>

definition listRepos :: "runner \<Rightarrow> state \<Rightarrow> os \<Rightarrow> ((err + repo list \<times> repo list) \<times> os) option" where
  "listRepos rn st s =
     (case run_lister rn st s of
        None \<Rightarrow> None
      | Some (Inl e, s1) \<Rightarrow> Some (Inl (Wrap ''run'' e), s1)
      | Some (Inr repos, s1) \<Rightarrow>
          if st \<noteq> StateAll then
            (case run_lister rn StateAll s1 of
               None \<Rightarrow> None
             | Some (Inl e, s2) \<Rightarrow> Some (Inl (Wrap ''run'' e), s2)
             | Some (Inr canonical, s2) \<Rightarrow> Some (Inr (repos, canonical), s2))
          else Some (Inr (repos, repos), s1))"

fun run_repos :: "targz \<Rightarrow> runner \<Rightarrow> options \<Rightarrow> repo list \<Rightarrow> run_counters \<times> os \<Rightarrow> (run_counters \<times> os) option" where
  "run_repos targz rn opts [] cs = Some cs"
| "run_repos targz rn opts (r # rs) (c, s) =
     (if repo_empty r then
        run_repos targz rn opts rs
          (reportDone (c\<lparr>k_skipped := k_skipped c + 1\<rparr>), log_at LWarn ''skipping empty repository'' (repo_path r) s)
      else
        (case runRepo targz rn opts r (c, s) of
           None \<Rightarrow> None
         | Some (c1, s1) \<Rightarrow> run_repos targz rn opts rs (reportDone c1, s1)))"

definition Run_result :: "run_counters \<Rightarrow> int \<Rightarrow> run_result" where
  "Run_result c n = \<lparr>synced = k_synced c, skipped = k_skipped c, failed = k_failed c, archived = k_archived c,
     pruned = n, metadata_exported = k_metadata_exported c\<rparr>"

text \<open>The result is paired with the progress calls the run made.\<close>

definition Run :: "targz \<Rightarrow> runner \<Rightarrow> options \<Rightarrow> os \<Rightarrow> ((err + run_result \<times> (int \<times> int) list) \<times> os) option" where
  "Run targz rn opts s =
     (case listRepos rn (o_state opts) s of
        None \<Rightarrow> None
      | Some (Inl e, s1) \<Rightarrow> Some (Inl e, s1)
      | Some (Inr (repos, canonical), s1) \<Rightarrow>
          (case staleMirrors (o_dest opts) (o_archive_dir opts) canonical s1 of
             Inl e \<Rightarrow> Some (Inl (Wrap ''run'' e), s1)
           | Inr stale \<Rightarrow>
               (case run_repos targz rn opts repos (new_counters (int (length repos)), s1) of
                  None \<Rightarrow> None
                | Some (c, s2) \<Rightarrow>
                    (case prune opts stale s2 of (n, s3) \<Rightarrow> Some (Inr (Run_result c n, k_progress c), s3)))))"

section \<open>Where a run works\<close>

text \<open>
  The contract of a whole runner: each adapter keeps its own.
\<close>

locale runner_contract =
  fixes rn :: runner
  assumes lister: "lister_contract (run_lister rn)"
    and mirrorer: "mirrorer_contract (run_mirrorer rn)"
    and exporters: "exp \<in> set (run_exporters rn) \<Longrightarrow> exporter_contract exp"

definition scratch_dirs :: "os \<Rightarrow> fpath set" where
  "scratch_dirs s = range (\<lambda>n. at_path s (temp_dir s) @ [''backup-git-repos-'' @ show_nat n])"

definition dir_reach :: "string \<Rightarrow> os \<Rightarrow> fpath set" where
  "dir_reach d s = {at_path s d, at_path s (d @ ''.partial'')}"

text \<open>The places one repository's backup may touch, besides a scratch directory.\<close>

definition repo_reach :: "options \<Rightarrow> repo \<Rightarrow> os \<Rightarrow> fpath set" where
  "repo_reach opts r s =
     dir_reach (mirror_path (o_dest opts) (repo_path r)) s \<union>
     {at_path s (metadata_dir (o_dest opts) (repo_path r)),
      at_path s (archive_path (o_archive_dir opts) (repo_path r)),
      at_path s (archive_path (o_archive_dir opts) (repo_path r) @ ''.tmp'')}"

lemma reach_cong:
  assumes "os_mach s' = os_mach s"
  shows "dir_reach d s' = dir_reach d s" "repo_reach opts r s' = repo_reach opts r s" "scratch_dirs s' = scratch_dirs s"
  using assms by (simp_all add: dir_reach_def repo_reach_def scratch_dirs_def at_path_def temp_dir_def getenv_def)

lemma at_kind: "plain_name k \<Longrightarrow> at_path s (fpjoin [d, k]) = at_path s d @ [k]"
  unfolding at_path_def by (rule resolve_fpjoin_name)

lemma confined_export:
  assumes "exporter_contract e" "exp_export e r (fpjoin [d, exp_kind e]) s = Some (x, s')"
  shows "confined {at_path s d} s s'"
  using exporter_contract.export_confined [OF assms] at_kind [OF exporter_contract.kind_plain [OF assms(1)]]
  by (metis confined_below)

lemma confined_exportMetadata:
  assumes "\<And>e. e \<in> set exps \<Longrightarrow> exporter_contract e"
    and "exportMetadata exps opts r n b s = Some (x, s')"
  shows "confined {at_path s (metadata_dir (o_dest opts) (repo_path r))} s s'"
  using assms
proof (induction exps opts r n b s rule: exportMetadata.induct)
  case (2 e exps opts r n b s)
  let ?d = "fpjoin [metadata_dir (o_dest opts) (repo_path r), exp_kind e]"
  let ?A = "{at_path s (metadata_dir (o_dest opts) (repo_path r))}"
  show ?case
  proof (cases "wantsMetadata (o_export_metadata opts) (exp_kind e)")
    case False
    with 2 show ?thesis by simp
  next
    case True
    obtain y s1 where m: "sys_mkdir_all (at_path s ?d) s = (y, s1)" by fastforce
    then have c1: "confined ?A s s1" by (rule confined_mkdir_all)
    note at1 = confined_at [OF c1]
    show ?thesis
    proof (cases y)
      case (Inl er)
      from 2(2) [OF _ refl m [symmetric] Inl] True 2(5,6) m Inl
      have "confined ?A s1 s'" by (simp add: Let_def at1)
      with c1 show ?thesis by (rule confined_trans)
    next
      case (Inr u)
      let ?s1 = "log_at LDebug ''exporting metadata'' (repo_path r) s1"
      from 2(6) True m Inr obtain z s2 where ex: "exp_export e r ?d ?s1 = Some (z, s2)"
        by (auto simp: Let_def split: option.splits)
      have "confined {at_path ?s1 (metadata_dir (o_dest opts) (repo_path r))} ?s1 s2"
        by (rule confined_export [OF _ ex]) (simp add: 2(5))
      then have "confined ?A s1 s2" by (simp only: confined_effects at_path_effects at1)
      with c1 have c2: "confined ?A s s2" by (rule confined_trans)
      note at2 = confined_at [OF c2]
      show ?thesis
      proof (cases z)
        case (Inl er)
        from 2(3) [OF _ refl m [symmetric] Inr ex refl Inl] True 2(5,6) m Inr ex Inl
        have "confined ?A s2 s'" by (simp add: Let_def at2)
        with c2 show ?thesis by (rule confined_trans)
      next
        case (Inr u')
        from 2(4) [OF _ refl m [symmetric] \<open>y = Inr u\<close> ex refl Inr] True 2(5,6) m \<open>y = Inr u\<close> ex Inr
        have "confined ?A s2 s'" by (simp add: Let_def at2)
        with c2 show ?thesis by (rule confined_trans)
      qed
    qed
  qed
qed simp

lemma mirror_in_cases:
  assumes "mirror_in targz rn opts r dir s = Some (out, s')"
  obtains (no_dir) e s1 where "sys_mkdir_all (at_path s (fpdir dir)) s = (Inl e, s1)"
      "out = failed_outcome" "s' = log_at LError ''mirror failed'' (repo_path r) s1"
  | (not_synced) s1 e s2 where "sys_mkdir_all (at_path s (fpdir dir)) s = (Inr (), s1)"
      "run_mirrorer rn (run_remoter rn r) dir (log_at LDebug ''mirroring'' (repo_path r) s1) = (Inl e, s2)"
      "out = failed_outcome" "s' = log_at LError ''mirror failed'' (repo_path r) s2"
  | (not_archived) s1 s2 n b where "sys_mkdir_all (at_path s (fpdir dir)) s = (Inr (), s1)"
      "run_mirrorer rn (run_remoter rn r) dir (log_at LDebug ''mirroring'' (repo_path r) s1) = (Inr (), s2)"
      "exportMetadata (run_exporters rn) opts r 0 False s2 = Some ((n, b), s')"
      "\<not> wants (o_archive opts) (repo_archived r)"
      "out = \<lparr>mo_synced = True, mo_archived = False, mo_failed = b, mo_metadata_exported = n\<rparr>"
  | (archived) s1 s2 n b s3 x s4 where "sys_mkdir_all (at_path s (fpdir dir)) s = (Inr (), s1)"
      "run_mirrorer rn (run_remoter rn r) dir (log_at LDebug ''mirroring'' (repo_path r) s1) = (Inr (), s2)"
      "exportMetadata (run_exporters rn) opts r 0 False s2 = Some ((n, b), s3)"
      "wants (o_archive opts) (repo_archived r)"
      "archiveRepo targz dir (archive_path (o_archive_dir opts) (repo_path r)) (log_at LDebug ''archiving'' (repo_path r) s3) = (x, s4)"
      "s' = (if isl x then log_at LError ''archive failed'' (repo_path r) s4 else s4)"
      "out = \<lparr>mo_synced = True, mo_archived = \<not> isl x, mo_failed = (isl x \<or> b), mo_metadata_exported = n\<rparr>"
proof -
  obtain y s1 where m: "sys_mkdir_all (at_path s (fpdir dir)) s = (y, s1)" by fastforce
  note def = assms [unfolded mirror_in_def Let_def m prod.case]
  show ?thesis
  proof (cases y)
    case (Inl e)
    with def m show ?thesis by (intro no_dir) auto
  next
    case y: (Inr u)
    obtain z s2 where sy: "run_mirrorer rn (run_remoter rn r) dir (log_at LDebug ''mirroring'' (repo_path r) s1) = (z, s2)" by fastforce
    show ?thesis
    proof (cases z)
      case (Inl e)
      with def m y sy show ?thesis by (intro not_synced) auto
    next
      case z: (Inr u')
      with def y sy obtain n b s3 where ex: "exportMetadata (run_exporters rn) opts r 0 False s2 = Some ((n, b), s3)"
        by (auto split: option.splits)
      obtain x s4 where ar: "archiveRepo targz dir (archive_path (o_archive_dir opts) (repo_path r)) (log_at LDebug ''archiving'' (repo_path r) s3) = (x, s4)"
        by fastforce
      show ?thesis
      proof (cases "wants (o_archive opts) (repo_archived r)")
        case False
        with def m y sy z ex show ?thesis by (intro not_archived) auto
      next
        case True
        have "s' = (if isl x then log_at LError ''archive failed'' (repo_path r) s4 else s4)"
          "out = \<lparr>mo_synced = True, mo_archived = \<not> isl x, mo_failed = (isl x \<or> b), mo_metadata_exported = n\<rparr>"
          using def y sy z ex ar True by (cases x; simp)+
        with m y sy z ex True ar show ?thesis by (intro archived) auto
      qed
    qed
  qed
qed

context runner_contract
begin

lemma confined_mirror_in:
  assumes "mirror_in targz rn opts r dir s = Some (out, s')"
  shows "confined (dir_reach dir s \<union> repo_reach opts r s) s s'"
  using assms
proof (cases rule: mirror_in_cases)
  case (no_dir e s1)
  then show ?thesis using confined_mkdir_all [OF no_dir(1)] by simp
next
  case (not_synced s1 e s2)
  note c1 = confined_mkdir_all [OF not_synced(1), of "dir_reach dir s"]
  from mirrorer_contract.sync_confined [OF mirrorer not_synced(2)]
  have "confined (dir_reach dir s) s1 s2" by (simp add: dir_reach_def confined_at [OF c1])
  from confined_trans [OF c1 this] show ?thesis unfolding not_synced(4) by (auto elim: confined_subset)
next
  case (not_archived s1 s2 n b)
  note c1 = confined_mkdir_all [OF not_archived(1), of "dir_reach dir s"]
  from mirrorer_contract.sync_confined [OF mirrorer not_archived(2)]
  have "confined (dir_reach dir s) s1 s2" by (simp add: dir_reach_def confined_at [OF c1])
  note c2 = confined_trans [OF c1 this]
  from confined_exportMetadata [OF exporters not_archived(3)]
  have "confined {at_path s (metadata_dir (o_dest opts) (repo_path r))} s2 s'" by (simp add: confined_at [OF c2])
  then show ?thesis using c2
    by (auto simp: repo_reach_def intro: confined_trans confined_subset)
next
  case (archived s1 s2 n b s3 x s4)
  let ?B = "dir_reach dir s \<union> repo_reach opts r s"
  note c1 = confined_mkdir_all [OF archived(1), of "dir_reach dir s"]
  from mirrorer_contract.sync_confined [OF mirrorer archived(2)]
  have "confined (dir_reach dir s) s1 s2" by (simp add: dir_reach_def confined_at [OF c1])
  note c2 = confined_trans [OF c1 this]
  from confined_exportMetadata [OF exporters archived(3)]
  have "confined {at_path s (metadata_dir (o_dest opts) (repo_path r))} s2 s3" by (simp add: confined_at [OF c2])
  then have c3: "confined ?B s s3" using c2
    by (auto simp: repo_reach_def intro: confined_trans confined_subset)
  have "confined ?B (log_at LDebug ''archiving'' (repo_path r) s3) s4"
    using archived(5) by (rule confined_archiveRepo) (simp_all add: repo_reach_def confined_at [OF c3])
  then have "confined ?B s3 s'" using archived(6) by simp
  with c3 show ?thesis by (rule confined_trans)
qed

end

text \<open>A scratch directory: everything mirrored into it stays below it.\<close>

lemma layout_base:
  assumes "CHR ''/'' \<notin> set e" "length e > 2"
  shows "plain_name (last (split_on CHR ''/'' (p @ e)))" and "fpbase (fpjoin [d, p @ e]) = last (split_on CHR ''/'' (p @ e))"
proof -
  show pl: "plain_name (last (split_on CHR ''/'' (p @ e)))"
    using assms split_on_no_sep [of "last (split_on CHR ''/'' p)" "CHR ''/''" p]
    by (auto simp: split_on_ext plain_name_def append_eq_Cons_conv)
  show "fpbase (fpjoin [d, p @ e]) = last (split_on CHR ''/'' (p @ e))"
    using fpbase_last [of "fpjoin [d, p @ e]"] pl by (simp add: proper_dir_fpjoin(2) [OF pl])
qed

lemma resolve_abs_string: "plain_path p \<Longrightarrow> at_path s (abs_string p) = p"
proof (cases "p = []")
  case False
  assume p: "plain_path p"
  then have "split_on CHR ''/'' (join_with ''/'' p) = p" using False by (intro plain_join_split)
  with p show ?thesis by (simp add: at_path_def resolve_def abs_string_def clean_step_def clean_stack_plain)
qed (simp add: at_path_def resolve_def abs_string_def clean_step_def)

lemma scratch_reach:
  assumes "plain_path p" "plain_name b" "x \<in> dir_reach (fpjoin [abs_string p, b]) s"
  shows "prefix p x"
proof -
  let ?d = "fpjoin [abs_string p, b]"
  have at: "at_path s ?d = p @ [b]"
    using assms at_kind [OF assms(2)] by (simp add: resolve_abs_string)
  have l: "split_on CHR ''/'' b = [b]" using assms(2) by (simp add: plain_name_def split_on_free)
  have pd: "proper_dir ?d" using proper_dir_fpjoin(1) [of b "abs_string p"] assms(2) by (simp add: l)
  obtain R where R: "\<And>e. CHR ''/'' \<notin> set e \<Longrightarrow> e = [] \<or> length e > 2 \<Longrightarrow>
      resolve (m_wd (os_mach s)) (?d @ e) = R @ [last (split_on CHR ''/'' ?d) @ e]"
    using resolve_last [OF pd, where wd = "m_wd (os_mach s)"] by blast
  from R [of "[]"] at have "R = p" by (simp add: at_path_def)
  with R [of "''.partial''"] have "prefix p (at_path s (?d @ ''.partial''))" by (simp add: at_path_def)
  with assms(3) at show ?thesis by (auto simp: dir_reach_def)
qed

lemma mkdir_temp_ok:
  assumes "sys_mkdir_temp tmp name s = (Inr p, s')"
  obtains n where "p = tmp @ [name @ show_nat n]" "s' = put p Dir s" "look s p = None" "below p s = []"
proof -
  from assms have *: "find (\<lambda>p. look s p = None \<and> below p s = [])
            (map (\<lambda>n. tmp @ [name @ show_nat n]) [0..<Suc (length (os_tree s))]) = Some p" "s' = put p Dir s"
    by (auto simp: sys_mkdir_temp_def simp del: upt_Suc split: option.splits if_splits)
  then obtain n where "p = tmp @ [name @ show_nat n]"
    by (metis (no_types, lifting) find_Some_iff imageE list.set_map nth_mem)
  moreover have "look s p = None" "below p s = []" using *(1) by (auto simp: find_Some_iff)
  ultimately show ?thesis using *(2) that by blast
qed

lemma plain_scratch: "plain_name (''backup-git-repos-'' @ show_nat n)"
  using show_nat_digits [of "CHR ''/''" n] by (auto simp: plain_name_def)

lemma mirrorRepo_cases:
  assumes "mirrorRepo targz rn opts r s = Some (out, s')"
  obtains (direct) "\<not> (repo_archived r \<and> wants (o_archive opts) (repo_archived r))"
      "mirror_in targz rn opts r (mirror_path (o_dest opts) (repo_path r)) s = Some (out, s')"
  | (no_scratch) e s1 where "repo_archived r" "wants (o_archive opts) (repo_archived r)"
      "sys_mkdir_temp (at_path s (temp_dir s)) ''backup-git-repos-'' s = (Inl e, s1)"
      "out = failed_outcome" "s' = log_at LError ''mirror failed'' (repo_path r) s1"
  | (scratch) p s1 s2 where "repo_archived r" "wants (o_archive opts) (repo_archived r)"
      "sys_mkdir_temp (at_path s (temp_dir s)) ''backup-git-repos-'' s = (Inr p, s1)"
      "mirror_in targz rn opts r (fpjoin [abs_string p, fpbase (mirror_path (o_dest opts) (repo_path r))]) s1 = Some (out, s2)"
      "s' = snd (sys_remove_all p s2)"
proof (cases "repo_archived r \<and> wants (o_archive opts) (repo_archived r)")
  case False
  with assms show ?thesis by (intro direct) (auto simp: mirrorRepo_def Let_def)
next
  case True
  obtain y s1 where t: "sys_mkdir_temp (at_path s (temp_dir s)) ''backup-git-repos-'' s = (y, s1)" by fastforce
  show ?thesis
  proof (cases y)
    case (Inl e)
    with True t assms show ?thesis by (intro no_scratch) (auto simp: mirrorRepo_def Let_def)
  next
    case (Inr p)
    with True t assms show ?thesis
      by (auto simp: mirrorRepo_def Let_def split: option.splits prod.splits intro: scratch)
  qed
qed

context runner_contract
begin

lemma confined_mirrorRepo:
  assumes "mirrorRepo targz rn opts r s = Some (out, s')" "plain_path (m_wd (os_mach s))"
  shows "confined (repo_reach opts r s \<union> scratch_dirs s) s s'"
  using assms(1)
proof (cases rule: mirrorRepo_cases)
  case direct
  from confined_mirror_in [OF direct(2)] show ?thesis
    by (rule confined_subset) (auto simp: repo_reach_def)
next
  case (no_scratch e s1)
  then show ?thesis using confined_mkdir_temp [OF no_scratch(3)] by simp
next
  case (scratch p s1 s2)
  let ?B = "repo_reach opts r s \<union> scratch_dirs s"
  let ?b = "fpbase (mirror_path (o_dest opts) (repo_path r))"
  obtain n where p: "p = at_path s (temp_dir s) @ [''backup-git-repos-'' @ show_nat n]" and s1: "s1 = put p Dir s"
    using mkdir_temp_ok [OF scratch(3)] by metis
  have pp: "plain_path p" using assms(2) plain_scratch by (simp add: p at_path_def resolve_plain)
  have pB: "p \<in> scratch_dirs s" by (auto simp: p scratch_dirs_def)
  have b: "plain_name ?b" unfolding mirror_path_def using layout_base [of "''.git''"] by simp
  have c1: "confined ?B s s1" unfolding s1 using pB by (auto intro: confined_put)
  have m1: "os_mach s1 = os_mach s" by (simp add: s1)
  have reach: "\<forall>x \<in> dir_reach (fpjoin [abs_string p, ?b]) s1. prefix p x" using scratch_reach [OF pp b] by blast
  have "confined ?B s1 s2"
    using confined_mirror_in [OF scratch(4)]
  proof (rule confined_mono)
    show "\<forall>x \<in> dir_reach (fpjoin [abs_string p, ?b]) s1 \<union> repo_reach opts r s1. \<exists>y \<in> ?B. prefix y x"
      using reach pB reach_cong(2) [OF m1] by blast
  qed
  with c1 have c2: "confined ?B s s2" by (rule confined_trans)
  have "confined ?B s2 s'" unfolding scratch(5) using pB by (intro confined_remove_all [OF surjective_pairing]) simp
  with c2 show ?thesis by (rule confined_trans)
qed

lemma confined_runRepo:
  assumes "runRepo targz rn opts r cs = Some (c', s')" "plain_path (m_wd (os_mach (snd cs)))"
  shows "confined (repo_reach opts r (snd cs) \<union> scratch_dirs (snd cs)) (snd cs) s'"
  using assms confined_mirrorRepo by (auto simp: runRepo_def split: option.splits)

lemma confined_run_repos:
  assumes "run_repos targz rn opts rs (c, s) = Some (c', s')" "plain_path (m_wd (os_mach s))"
  shows "confined (\<Union> {repo_reach opts r s | r. r \<in> set rs \<and> \<not> repo_empty r} \<union> scratch_dirs s) s s'"
  using assms
proof (induction rs arbitrary: c s)
  case (Cons r rs)
  let ?A = "\<lambda>rs. \<Union> {repo_reach opts r s | r. r \<in> set rs \<and> \<not> repo_empty r} \<union> scratch_dirs s"
  have sub: "?A rs \<subseteq> ?A (r # rs)" by auto
  show ?case
  proof (cases "repo_empty r")
    case True
    with Cons.prems(1) have "run_repos targz rn opts rs
        (reportDone (c\<lparr>k_skipped := k_skipped c + 1\<rparr>), log_at LWarn ''skipping empty repository'' (repo_path r) s) = Some (c', s')" by simp
    from Cons.IH [OF this] Cons.prems(2) have "confined (?A rs) s s'" by (simp add: reach_cong [of "log_at l m p s" s for l m p])
    then show ?thesis using sub by (rule confined_subset)
  next
    case False
    with Cons.prems(1) obtain c1 s1 where r: "runRepo targz rn opts r (c, s) = Some (c1, s1)"
      and rest: "run_repos targz rn opts rs (reportDone c1, s1) = Some (c', s')" by (auto split: option.splits)
    have c1: "confined (repo_reach opts r s \<union> scratch_dirs s) s s1" using confined_runRepo [OF r] Cons.prems(2) by simp
    note m1 = confined_mach [OF c1]
    from Cons.IH [OF rest] Cons.prems(2) m1 have "confined (?A rs) s1 s'" by (simp add: reach_cong [OF m1])
    then have "confined (?A (r # rs)) s1 s'" using sub by (rule confined_subset)
    moreover have "confined (?A (r # rs)) s s1" using c1 by (rule confined_subset) (use False in auto)
    ultimately show ?thesis by (blast intro: confined_trans)
  qed
qed simp

end

section \<open>How a run goes\<close>

lemma Run_cases:
  assumes "Run targz rn opts s = Some (x, s')"
  obtains (refused) e where "x = Inl e" "listRepos rn (o_state opts) s = Some (Inl e, s') \<or>
      (\<exists>repos canonical. listRepos rn (o_state opts) s = Some (Inr (repos, canonical), s'))"
  | (completed) repos canonical s1 stale c s2 n where
      "listRepos rn (o_state opts) s = Some (Inr (repos, canonical), s1)"
      "staleMirrors (o_dest opts) (o_archive_dir opts) canonical s1 = Inr stale"
      "run_repos targz rn opts repos (new_counters (int (length repos)), s1) = Some (c, s2)"
      "prune opts stale s2 = (n, s')" "x = Inr (Run_result c n, k_progress c)"
proof -
  from assms obtain l s1 where l: "listRepos rn (o_state opts) s = Some (l, s1)"
    by (auto simp: Run_def split: option.splits)
  show ?thesis
  proof (cases l)
    case (Inl e)
    with assms l show ?thesis by (intro refused) (auto simp: Run_def)
  next
    case l': (Inr rc)
    obtain repos canonical where rc: "rc = (repos, canonical)" by fastforce
    show ?thesis
    proof (cases "staleMirrors (o_dest opts) (o_archive_dir opts) canonical s1")
      case (Inl e)
      with assms l l' rc show ?thesis by (intro refused) (auto simp: Run_def)
    next
      case (Inr stale)
      with assms l l' rc obtain c s2 where rr: "run_repos targz rn opts repos (new_counters (int (length repos)), s1) = Some (c, s2)"
        by (auto simp: Run_def split: option.splits)
      obtain n s3 where "prune opts stale s2 = (n, s3)" by fastforce
      with assms l l' rc Inr rr show ?thesis by (intro completed) (auto simp: Run_def)
    qed
  qed
qed

context runner_contract
begin

lemma listRepos_reads_only:
  assumes "listRepos rn st s = Some (x, s')"
  shows "reads_only s s'"
proof -
  note ro = lister_contract.list_reads_only [OF lister]
  from assms obtain y s1 where 1: "run_lister rn st s = Some (y, s1)"
    and "s' = s1 \<or> (\<exists>z. run_lister rn StateAll s1 = Some (z, s'))"
    by (auto simp: listRepos_def split: option.splits sum.splits if_splits)
  then show ?thesis using ro [OF 1] by (auto intro: reads_only_trans dest: ro)
qed

end

section \<open>Counting\<close>

definition progress_calls :: "int \<Rightarrow> nat \<Rightarrow> int \<Rightarrow> (int \<times> int) list" where
  "progress_calls d n t = map (\<lambda>i. (d + int i, t)) [1..<Suc n]"

lemma progress_calls_Suc: "progress_calls d (Suc n) t = (d + 1, t) # progress_calls (d + 1) n t"
proof -
  have "[1..<Suc (Suc n)] = 1 # map Suc [1..<Suc n]" by (simp add: upt_conv_Cons map_Suc_upt del: upt_Suc)
  then show ?thesis by (simp add: progress_calls_def comp_def del: upt_Suc)
qed

text \<open>What an outcome can be: a repository is synced or has failed, and is archived only if synced.\<close>

definition sane :: "mirror_outcome \<Rightarrow> bool" where
  "sane out \<longleftrightarrow> (mo_synced out \<or> mo_failed out) \<and> (mo_archived out \<longrightarrow> mo_synced out) \<and> mo_metadata_exported out \<ge> 0"

lemma exportMetadata_count:
  "exportMetadata exps opts r n b s = Some ((n', b'), s') \<Longrightarrow> n \<le> n'"
proof (induction exps opts r n b s rule: exportMetadata.induct)
  case (2 e exps opts r n b s)
  then show ?case by (fastforce simp: Let_def split: if_splits sum.splits prod.splits option.splits)
qed simp

lemma sane_mirror_in: "mirror_in targz rn opts r dir s = Some (out, s') \<Longrightarrow> sane out"
  by (erule mirror_in_cases) (auto simp: sane_def failed_outcome_def dest: exportMetadata_count)

lemma sane_mirrorRepo: "mirrorRepo targz rn opts r s = Some (out, s') \<Longrightarrow> sane out"
  by (erule mirrorRepo_cases) (auto simp: sane_def failed_outcome_def dest: sane_mirror_in)

lemma run_repos_progress:
  "run_repos targz rn opts rs (c, s) = Some (c', s') \<Longrightarrow>
   k_progress c' = k_progress c @ progress_calls (k_done c) (length rs) (k_total c) \<and>
   k_done c' = k_done c + int (length rs) \<and> k_total c' = k_total c"
proof (induction rs arbitrary: c s)
  case Nil
  then show ?case by (simp add: progress_calls_def)
next
  case (Cons r rs)
  from Cons.prems obtain c1 s1 where "run_repos targz rn opts rs (reportDone c1, s1) = Some (c', s')"
    and c1: "k_progress c1 = k_progress c" "k_done c1 = k_done c" "k_total c1 = k_total c"
    by (auto simp: runRepo_def count_outcome_def split: if_splits option.splits)
  from Cons.IH [OF this(1)] c1 show ?case by (simp add: reportDone_def Let_def progress_calls_Suc)
qed

definition counts_between :: "nat \<Rightarrow> run_counters \<Rightarrow> run_counters \<Rightarrow> bool" where
  "counts_between n c c' \<longleftrightarrow>
     k_synced c \<le> k_synced c' \<and> k_synced c' \<le> k_synced c + int n \<and>
     k_failed c' \<le> k_failed c + int n \<and>
     k_synced c + k_failed c + int n \<le> k_synced c' + k_failed c' \<and>
     k_archived c' - k_archived c \<le> k_synced c' - k_synced c \<and>
     k_metadata_exported c \<le> k_metadata_exported c'"

lemma counts_one: "sane out \<Longrightarrow> counts_between 1 c (count_outcome out c)"
  by (auto simp: counts_between_def count_outcome_def sane_def)

lemma counts_trans: "counts_between m c c1 \<Longrightarrow> counts_between n c1 c2 \<Longrightarrow> counts_between (m + n) c c2"
  by (auto simp: counts_between_def)

lemma counts_reportDone [simp]:
  "counts_between n (reportDone c) c' = counts_between n c c'" "k_skipped (reportDone c) = k_skipped c"
  "counts_between n (c\<lparr>k_skipped := m\<rparr>) c' = counts_between n c c'"
  by (auto simp: counts_between_def reportDone_def Let_def)

lemma run_repos_counts:
  "run_repos targz rn opts rs (c, s) = Some (c', s') \<Longrightarrow>
   k_skipped c' = k_skipped c + int (length (filter repo_empty rs)) \<and>
   counts_between (length (filter (\<lambda>r. \<not> repo_empty r) rs)) c c'"
proof (induction rs arbitrary: c s)
  case Nil
  then show ?case by (simp add: counts_between_def)
next
  case (Cons r rs)
  show ?case
  proof (cases "repo_empty r")
    case True
    with Cons.prems have "run_repos targz rn opts rs
        (reportDone (c\<lparr>k_skipped := k_skipped c + 1\<rparr>), log_at LWarn ''skipping empty repository'' (repo_path r) s) = Some (c', s')"
      by simp
    from Cons.IH [OF this] True show ?thesis by simp
  next
    case False
    with Cons.prems obtain out c1 s1 where m: "mirrorRepo targz rn opts r s = Some (out, s1)"
      and c1: "c1 = count_outcome out c" and rest: "run_repos targz rn opts rs (reportDone c1, s1) = Some (c', s')"
      by (auto simp: runRepo_def split: option.splits)
    from Cons.IH [OF rest] have "k_skipped c' = k_skipped c + int (length (filter repo_empty rs))"
      and "counts_between (length (filter (\<lambda>r. \<not> repo_empty r) rs)) c1 c'"
      by (simp_all add: c1 count_outcome_def)
    with counts_trans [OF counts_one [OF sane_mirrorRepo [OF m], of c], of "length (filter (\<lambda>r. \<not> repo_empty r) rs)" c'] False
    show ?thesis by (simp add: c1)
  qed
qed

section \<open>Mirrors a run leaves alone\<close>

lemma at_layout_ext:
  assumes "plain_rel p" "CHR ''/'' \<notin> set e" "length e > 2" "CHR ''/'' \<notin> set f" "length f > 2"
  shows "at_path s (fpjoin [d, p @ e] @ f) = at_path s d @ split_on CHR ''/'' (p @ e @ f)"
proof -
  let ?l = "last (split_on CHR ''/'' (p @ e))"
  have pl: "plain_name ?l" by (rule layout_base(1) [OF assms(2,3)])
  obtain R where R: "\<And>g. CHR ''/'' \<notin> set g \<Longrightarrow> g = [] \<or> length g > 2 \<Longrightarrow>
      resolve (m_wd (os_mach s)) (fpjoin [d, p @ e] @ g) = R @ [?l @ g]"
    using resolve_last [OF proper_dir_fpjoin(1) [OF pl], where wd = "m_wd (os_mach s)"]
    unfolding proper_dir_fpjoin(2) [OF pl] by blast
  have "R @ [?l] = at_path s d @ split_on CHR ''/'' (p @ e)"
    using R [of "[]"] at_layout [OF assms(1-3), of s d] by (simp add: at_path_def)
  then have "R = at_path s d @ butlast (split_on CHR ''/'' (p @ e))"
    by (metis append_butlast_last_id butlast_append butlast_snoc split_on_not_Nil)
  with R [of f] assms(4,5) show ?thesis
    by (simp add: at_path_def split_on_ext [OF assms(4), of "p @ e", simplified])
qed

definition settled_path :: "string \<Rightarrow> bool" where
  "settled_path p \<longleftrightarrow> tidy_path p \<and>
     (\<forall>c \<in> set (butlast (split_on CHR ''/'' p)). \<not> has_suffix c ''.git.partial'' \<and> \<not> has_suffix c ''.metadata'')"

lemma suffix_last: "p @ e = r @ f \<Longrightarrow> e \<noteq> [] \<Longrightarrow> f \<noteq> [] \<Longrightarrow> last e = last f"
  by (metis last_appendR)

lemma repo_reach_apart:
  assumes r: "settled_path (repo_path r)" and r': "tidy_path (repo_path r')" and ne: "repo_path r' \<noteq> repo_path r"
    and apart: "at_path s (o_dest opts) \<parallel> at_path s (o_archive_dir opts)"
    and x: "x \<in> repo_reach opts r' s"
  shows "x \<parallel> at_path s (mirror_path (o_dest opts) (repo_path r))"
proof -
  let ?D = "at_path s (o_dest opts)" and ?A = "at_path s (o_archive_dir opts)"
  let ?p = "repo_path r" and ?p' = "repo_path r'"
  have pl: "plain_rel ?p" "plain_rel ?p'"
    and comps: "\<forall>c \<in> set (butlast (split_on CHR ''/'' ?p')). \<not> has_suffix c ''.git''"
    using r r' by (auto simp: settled_path_def tidy_path_def)
  have M: "at_path s (mirror_path (o_dest opts) ?p) = ?D @ split_on CHR ''/'' (?p @ ''.git'')"
    unfolding mirror_path_def by (rule at_layout [OF pl(1)]) auto
  have lay: "?D @ split_on CHR ''/'' (?p' @ e) \<parallel> ?D @ split_on CHR ''/'' (?p @ ''.git'')"
    if "e \<in> {''.git'', ''.git.partial'', ''.metadata''}" for e
  proof (rule parallel_extend, rule layout_parallel)
    show "?p' @ e \<noteq> ?p @ ''.git''" using that ne suffix_last [of ?p' e ?p "''.git''"] by auto
    show "\<forall>c \<in> set (butlast (split_on CHR ''/'' ?p)). \<not> has_suffix c e"
      using that r by (auto simp: settled_path_def tidy_path_def)
  qed (use that comps in auto)
  have arch: "?A @ ys \<parallel> ?D @ zs" for ys zs using apart parallel_append parallel_commute by metis
  have "at_path s (mirror_path (o_dest opts) ?p') = ?D @ split_on CHR ''/'' (?p' @ ''.git'')"
    "at_path s (mirror_path (o_dest opts) ?p' @ ''.partial'') = ?D @ split_on CHR ''/'' (?p' @ ''.git.partial'')"
    "at_path s (metadata_dir (o_dest opts) ?p') = ?D @ split_on CHR ''/'' (?p' @ ''.metadata'')"
    "at_path s (archive_path (o_archive_dir opts) ?p') = ?A @ split_on CHR ''/'' (?p' @ ''.tar.gz'')"
    "at_path s (archive_path (o_archive_dir opts) ?p' @ ''.tmp'') = ?A @ split_on CHR ''/'' (?p' @ ''.tar.gz.tmp'')"
    unfolding mirror_path_def metadata_dir_def archive_path_def
    using at_layout [OF pl(2)] at_layout_ext [OF pl(2), of "''.git''" "''.partial''" s] at_layout_ext [OF pl(2), of "''.tar.gz''" "''.tmp''" s]
    by auto
  with x show ?thesis unfolding M repo_reach_def dir_reach_def using lay arch by auto
qed

lemma run_keeps:
  assumes c: "runner_contract rn" and wd: "plain_path (m_wd (os_mach s))"
    and run: "run_repos targz rn opts rs (c, s) = Some (c', s')"
    and r: "settled_path (repo_path r)" "\<forall>r' \<in> set rs. tidy_path (repo_path r') \<and> (repo_empty r' \<or> repo_path r' \<noteq> repo_path r)"
    and apart: "at_path s (o_dest opts) \<parallel> at_path s (o_archive_dir opts)" "at_path s (temp_dir s) \<parallel> at_path s (o_dest opts)"
    and q: "prefix (at_path s (mirror_path (o_dest opts) (repo_path r))) q" "look s q = Some n"
  shows "look s' q = Some n"
proof -
  let ?M = "at_path s (mirror_path (o_dest opts) (repo_path r))"
  let ?B = "\<Union> {repo_reach opts r s | r. r \<in> set rs \<and> \<not> repo_empty r} \<union> scratch_dirs s"
  have conf: "confined ?B s s'" by (rule runner_contract.confined_run_repos [OF c run wd])
  have "x \<parallel> ?M" if "x \<in> ?B" for x
  proof (cases "x \<in> scratch_dirs s")
    case True
    have "?M = at_path s (o_dest opts) @ split_on CHR ''/'' (repo_path r @ ''.git'')"
      unfolding mirror_path_def using r(1) by (intro at_layout) (auto simp: settled_path_def tidy_path_def)
    with True apart(2) show ?thesis by (auto simp: scratch_dirs_def intro: parallel_append)
  next
    case False
    with that obtain r' where "r' \<in> set rs" "\<not> repo_empty r'" "x \<in> repo_reach opts r' s" by auto
    with r apart(1) show ?thesis by (intro repo_reach_apart) auto
  qed
  then have "\<not> prefix x (?M @ as)" if "x \<in> ?B" for x as
    using that parallel_not_prefix(2) by blast
  moreover obtain as where "q = ?M @ as" using q(1) by (auto simp: prefix_def)
  ultimately have "\<forall>x \<in> ?B. \<not> prefix x q" by blast
  from confined_keeps [OF conf q(2) this] show ?thesis .
qed

text \<open>Whatever a completed run changes or removes lies where it works.\<close>

lemma run_touches:
  assumes "runner_contract rn" and "plain_path (m_wd (os_mach s))"
    and "Run targz rn opts s = Some (Inr x, s')" and "look s q = Some n" and "look s' q \<noteq> Some n"
  shows "\<exists>repos canonical s1 stale. listRepos rn (o_state opts) s = Some (Inr (repos, canonical), s1) \<and>
     staleMirrors (o_dest opts) (o_archive_dir opts) canonical s1 = Inr stale \<and>
     ((\<exists>r \<in> set repos. \<not> repo_empty r \<and> (\<exists>p \<in> repo_reach opts r s. prefix p q)) \<or>
      (\<exists>p \<in> scratch_dirs s. prefix p q) \<or>
      (o_prune_removed opts \<and> q \<in> prune_reach opts stale s))"
  using assms(3)
proof (cases rule: Run_cases)
  case (completed repos canonical s1 stale c s2 m)
  have ro: "reads_only s s1" by (rule runner_contract.listRepos_reads_only [OF assms(1) completed(1)])
  then have m1: "os_mach s1 = os_mach s" and l1: "look s1 q = Some n"
    using assms(4) by (simp_all add: reads_only_look) (simp add: reads_only_def)
  let ?B = "\<Union> {repo_reach opts r s | r. r \<in> set repos \<and> \<not> repo_empty r} \<union> scratch_dirs s"
  have conf: "confined ?B s1 s2"
    using runner_contract.confined_run_repos [OF assms(1) completed(3)] assms(2) by (simp add: m1 reach_cong [OF m1])
  show ?thesis
  proof (cases "\<exists>p \<in> ?B. prefix p q")
    case True
    then show ?thesis using completed(1,2) by blast
  next
    case False
    then have l2: "look s2 q = Some n" using confined_keeps [OF conf l1] by blast
    have m2: "os_mach s2 = os_mach s" using confined_mach [OF conf] m1 by simp
    have "o_prune_removed opts"
    proof (rule ccontr)
      assume "\<not> o_prune_removed opts"
      from prune_off [OF this, of stale s2] completed(4) l2 assms(5) show False by auto
    qed
    moreover have "q \<in> prune_reach opts stale s"
      using prune_removed_only [OF completed(4)] l2 assms(5) unfolding removed_only_def prune_reach_cong [OF m2] by metis
    ultimately show ?thesis using completed(1,2) by blast
  qed
qed simp

lemma repo_reach_below:
  assumes "plain_rel (repo_path r)" "p \<in> repo_reach opts r s"
  shows "prefix (at_path s (o_dest opts)) p \<or> prefix (at_path s (o_archive_dir opts)) p"
proof -
  let ?p = "repo_path r"
  have "at_path s (mirror_path (o_dest opts) ?p) = at_path s (o_dest opts) @ split_on CHR ''/'' (?p @ ''.git'')"
    "at_path s (mirror_path (o_dest opts) ?p @ ''.partial'') = at_path s (o_dest opts) @ split_on CHR ''/'' (?p @ ''.git.partial'')"
    "at_path s (metadata_dir (o_dest opts) ?p) = at_path s (o_dest opts) @ split_on CHR ''/'' (?p @ ''.metadata'')"
    "at_path s (archive_path (o_archive_dir opts) ?p) = at_path s (o_archive_dir opts) @ split_on CHR ''/'' (?p @ ''.tar.gz'')"
    "at_path s (archive_path (o_archive_dir opts) ?p @ ''.tmp'') = at_path s (o_archive_dir opts) @ split_on CHR ''/'' (?p @ ''.tar.gz.tmp'')"
    unfolding mirror_path_def metadata_dir_def archive_path_def
    using at_layout [OF assms(1)] at_layout_ext [OF assms(1), of "''.git''" "''.partial''" s] at_layout_ext [OF assms(1), of "''.tar.gz''" "''.tmp''" s]
    by auto
  with assms(2) show ?thesis by (auto simp: repo_reach_def dir_reach_def)
qed

lemma prune_reach_below:
  assumes wf: "wf_os s" and stale: "staleMirrors (o_dest opts) (o_archive_dir opts) repos s = Inr stale"
    and q: "q \<in> prune_reach opts stale s"
  shows "prefix (at_path s (o_dest opts)) q \<or> prefix (at_path s (o_archive_dir opts)) q"
proof -
  from q obtain p where p: "p \<in> set stale"
    "prefix (at_path s (mirror_path (o_dest opts) p)) q \<or> q = at_path s (archive_path (o_archive_dir opts) p)"
    by (auto simp: prune_reach_def)
  have "mirror_on_disk (o_dest opts) s p \<or> archive_on_disk (o_archive_dir opts) s p"
    using stale_paths(3) [OF wf stale] p(1) by auto
  then have "at_path s (mirror_path (o_dest opts) p) = at_path s (o_dest opts) @ split_on CHR ''/'' (p @ ''.git'')"
    "at_path s (archive_path (o_archive_dir opts) p) = at_path s (o_archive_dir opts) @ split_on CHR ''/'' (p @ ''.tar.gz'')"
    unfolding mirror_path_def archive_path_def using on_disk_at(1) [OF wf] by auto
  with p(2) show ?thesis by (auto dest: append_prefixD)
qed

text \<open>The repositories a run is given have paths that name entries below a directory.\<close>

definition lists_plain :: "runner \<Rightarrow> state \<Rightarrow> os \<Rightarrow> bool" where
  "lists_plain rn st s =
     (case listRepos rn st s of Some (Inr (repos, canonical), s1) \<Rightarrow> list_all (\<lambda>r. plain_rel (repo_path r)) repos | _ \<Rightarrow> True)"

lemma run_within:
  assumes c: "runner_contract rn" and wf: "wf_os s" and plain: "lists_plain rn (o_state opts) s"
    and run: "Run targz rn opts s = Some (x, s')" and q: "look s q = Some n" "look s' q \<noteq> Some n"
  shows "prefix (at_path s (o_dest opts)) q \<or> prefix (at_path s (o_archive_dir opts)) q \<or> (\<exists>p \<in> scratch_dirs s. prefix p q)"
proof (cases x)
  case (Inl e)
  with run have "reads_only s s'"
    by (cases rule: Run_cases) (use runner_contract.listRepos_reads_only [OF c] in \<open>blast+\<close>)
  with q show ?thesis by (simp add: reads_only_look)
next
  case (Inr y)
  from run_touches [OF c wf_osD(1) [OF wf] run [unfolded Inr] q] obtain repos canonical s1 stale where
    l: "listRepos rn (o_state opts) s = Some (Inr (repos, canonical), s1)"
    and st: "staleMirrors (o_dest opts) (o_archive_dir opts) canonical s1 = Inr stale"
    and at: "(\<exists>r \<in> set repos. \<not> repo_empty r \<and> (\<exists>p \<in> repo_reach opts r s. prefix p q)) \<or>
      (\<exists>p \<in> scratch_dirs s. prefix p q) \<or> (o_prune_removed opts \<and> q \<in> prune_reach opts stale s)" by blast
  have ro: "reads_only s s1" by (rule runner_contract.listRepos_reads_only [OF c l])
  then have m1: "os_mach s1 = os_mach s" by (simp add: reads_only_def)
  have wf1: "wf_os s1" using wf by (simp add: wf_os_def m1 reads_only_look [OF ro])
  from at show ?thesis
  proof (elim disjE bexE conjE)
    fix r p assume "r \<in> set repos" "p \<in> repo_reach opts r s" "prefix p q"
    moreover have "plain_rel (repo_path r)" using plain l \<open>r \<in> set repos\<close> by (simp add: lists_plain_def list_all_iff)
    ultimately show ?thesis using repo_reach_below prefix_order.trans by blast
  next
    assume "q \<in> prune_reach opts stale s"
    then show ?thesis
      using prune_reach_below [OF wf1 st] unfolding prune_reach_cong [OF m1] at_path_cong [OF m1] by blast
  qed blast
qed

section \<open>Properties\<close>

definition sample_runner :: "repo list \<Rightarrow> runner" where
  "sample_runner rs =
     \<lparr>run_lister = (\<lambda>st s. Some (Inr (filter (\<lambda>r. state_selects st (repo_archived r)) rs), s)),
      run_mirrorer = Sync sample_git (\<lambda>_. None) \<lparr>git_path = ''git'', git_lfs_path = []\<rparr>,
      run_remoter = (\<lambda>r. \<lparr>clone_url = repo_path r, auth_header = []\<rparr>), run_exporters = []\<rparr>"

lemma sample_runner_contract: "runner_contract (sample_runner rs)"
  by unfold_locales (auto simp: sample_runner_def intro: confined_Sync)

definition sample_options :: options where
  "sample_options = \<lparr>o_dest = ''/w/d'', o_state = StateActive, o_archive = ArchiveNone, o_archive_dir = ''/w/a'',
     o_concurrency = 1, o_prune_removed = True, o_export_metadata = []\<rparr>"

definition sample_repo :: "string \<Rightarrow> bool \<Rightarrow> bool \<Rightarrow> repo" where
  "sample_repo p a e = \<lparr>repo_path = p, repo_archived = a, repo_empty = e\<rparr>"



text \<open>C10: A completed run accounts for every repository it was given. Empty ones are the skipped
  ones; each of the others is synced or has failed, or both; none is archived that is not synced; and
  progress is reported once for each, counting up to the total without a gap or a step back.\<close>

theorem Run_accounts_for_all:
  assumes "Run targz rn opts s = Some (Inr (res, calls), s')"
  shows "\<exists>repos canonical s1. listRepos rn (o_state opts) s = Some (Inr (repos, canonical), s1) \<and>
     skipped res = int (length (filter repo_empty repos)) \<and>
     (let n = int (length repos) - skipped res in
        synced res \<le> n \<and> failed res \<le> n \<and> n \<le> synced res + failed res \<and> archived res \<le> synced res \<and> metadata_exported res \<ge> 0) \<and>
     calls = map (\<lambda>i. (int i, int (length repos))) [1..<Suc (length repos)]"
  using assms
proof (cases rule: Run_cases)
  case (completed repos canonical s1 stale c s2 n)
  have len: "length repos = length (filter repo_empty repos) + length (filter (\<lambda>r. \<not> repo_empty r) repos)"
    by (simp add: sum_length_filter_compl)
  show ?thesis
    using completed(1,5) run_repos_counts [OF completed(3)] run_repos_progress [OF completed(3)] len
    by (auto simp: Run_result_def new_counters_def counts_between_def progress_calls_def Let_def simp del: upt_Suc)
qed simp

lemma Run_accounts_for_all_witness:
  "\<exists>res calls s'. Run sample_targz (sample_runner [sample_repo ''x'' False True, sample_repo ''y'' False False]) sample_options (quiet_os [])
     = Some (Inr (res, calls), s') \<and> skipped res = 1 \<and> calls = [(1, 2), (2, 2)]"
proof -
  let ?rn = "sample_runner [sample_repo ''x'' False True, sample_repo ''y'' False False]"
  have "case Run sample_targz ?rn sample_options (quiet_os []) of Some (Inr _, _) \<Rightarrow> True | _ \<Rightarrow> False" by code_simp
  then obtain res calls s' where r: "Run sample_targz ?rn sample_options (quiet_os []) = Some (Inr (res, calls), s')"
    by (auto split: option.splits sum.splits prod.splits)
  have l: "listRepos ?rn StateActive (quiet_os []) = Some (Inr (rs, can), s1) \<Longrightarrow>
      rs = [sample_repo ''x'' False True, sample_repo ''y'' False False]" for rs can s1
    by (simp add: listRepos_def sample_runner_def sample_repo_def)
  from Run_accounts_for_all [OF r] obtain rs can s1 where
    "listRepos ?rn StateActive (quiet_os []) = Some (Inr (rs, can), s1)" "skipped res = int (length (filter repo_empty rs))"
    "calls = map (\<lambda>i. (int i, int (length rs))) [1..<Suc (length rs)]"
    by (auto simp: sample_options_def)
  with l have "skipped res = 1 \<and> calls = [(1, 2), (2, 2)]" by (fastforce simp: sample_repo_def)
  with r show ?thesis by blast
qed

text \<open>C6: Whatever an entry of the file system is, a completed run changes or removes it only if it
  lies in the mirror, the partial clone, the metadata or the archive of a repository it was given, or in
  a scratch directory, or if it belongs to a stale mirror and pruning was asked for.\<close>

theorem Run_touches_only_its_own:
  assumes "runner_contract rn" and "plain_path (m_wd (os_mach s))"
    and "Run targz rn opts s = Some (Inr x, s')" and "look s q = Some n" and "look s' q \<noteq> Some n"
  shows "\<exists>repos canonical s1 stale. listRepos rn (o_state opts) s = Some (Inr (repos, canonical), s1) \<and>
     staleMirrors (o_dest opts) (o_archive_dir opts) canonical s1 = Inr stale \<and>
     ((\<exists>r \<in> set repos. \<not> repo_empty r \<and> (\<exists>p \<in> repo_reach opts r s. prefix p q)) \<or>
      (\<exists>p \<in> scratch_dirs s. prefix p q) \<or>
      (o_prune_removed opts \<and> q \<in> prune_reach opts stale s))"
  by (rule run_touches [OF assms])

text \<open>What one completed run with pruning does is evaluated once, for the witnesses.\<close>

definition sample_state :: os where
  "sample_state = quiet_os
     [([''w'', ''d''], Dir), ([''w'', ''d'', ''gone.git''], Dir), ([''w'', ''d'', ''gone.git'', ''HEAD''], File ''ref''),
      ([''w'', ''d'', ''old.git''], Dir), ([''w'', ''d'', ''old.git'', ''HEAD''], File ''ref''), ([''w'', ''a''], Dir)]"

definition sample_forge :: runner where
  "sample_forge = sample_runner [sample_repo ''new'' False False, sample_repo ''old'' True False]"

lemma sample_run:
  obtains x s' where "Run sample_targz sample_forge sample_options sample_state = Some (Inr x, s')"
    and "look s' [''w'', ''d'', ''gone.git'', ''HEAD''] = None"
proof -
  have *: "case Run sample_targz sample_forge sample_options sample_state of
      Some (Inr _, s') \<Rightarrow> look s' [''w'', ''d'', ''gone.git'', ''HEAD''] = None | _ \<Rightarrow> False" by code_simp
  then obtain y s' where r: "Run sample_targz sample_forge sample_options sample_state = Some (y, s')"
    by (cases "Run sample_targz sample_forge sample_options sample_state") auto
  then show ?thesis using * that by (cases y) auto
qed

lemma Run_touches_only_its_own_witness:
  "\<exists>stale. staleMirrors ''/w/d'' ''/w/a'' [sample_repo ''new'' False False, sample_repo ''old'' True False] sample_state = Inr stale \<and>
     [''w'', ''d'', ''gone.git'', ''HEAD''] \<in> prune_reach sample_options stale sample_state"
proof -
  obtain x s' where r: "Run sample_targz sample_forge sample_options sample_state = Some (Inr x, s')"
    and gone: "look s' [''w'', ''d'', ''gone.git'', ''HEAD''] = None" by (rule sample_run)
  have wd: "plain_path (m_wd (os_mach sample_state))" by code_simp
  have before: "look sample_state [''w'', ''d'', ''gone.git'', ''HEAD''] = Some (File ''ref'')" by code_simp
  have after: "look s' [''w'', ''d'', ''gone.git'', ''HEAD''] \<noteq> Some (File ''ref'')" using gone by simp
  have l: "listRepos sample_forge StateActive sample_state
      = Some (Inr ([sample_repo ''new'' False False], [sample_repo ''new'' False False, sample_repo ''old'' True False]), sample_state)"
    by (simp add: listRepos_def sample_forge_def sample_runner_def sample_repo_def)
  have reach: "list_all (\<lambda>p. \<not> prefix p [''w'', ''d'', ''gone.git'', ''HEAD''])
     [at_path sample_state ''/w/d/new.git'', at_path sample_state ''/w/d/new.git.partial'', at_path sample_state ''/w/d/new.metadata'',
      at_path sample_state ''/w/a/new.tar.gz'', at_path sample_state ''/w/a/new.tar.gz.tmp'']" by code_simp
  have paths: "mirror_path ''/w/d'' ''new'' = ''/w/d/new.git''" "metadata_dir ''/w/d'' ''new'' = ''/w/d/new.metadata''"
    "archive_path ''/w/a'' ''new'' = ''/w/a/new.tar.gz''" by code_simp+
  have "at_path sample_state (temp_dir sample_state) = [''tmp'']" by code_simp
  then have scratch: "\<not> (\<exists>p \<in> scratch_dirs sample_state. prefix p [''w'', ''d'', ''gone.git'', ''HEAD''])"
    by (auto simp: scratch_dirs_def)
  have opts: "o_dest sample_options = ''/w/d''" "o_archive_dir sample_options = ''/w/a''" "o_state sample_options = StateActive"
    by (simp_all add: sample_options_def)
  have c: "runner_contract sample_forge" by (simp add: sample_forge_def sample_runner_contract)
  from Run_touches_only_its_own [OF c wd r before after] obtain stale where
    "staleMirrors ''/w/d'' ''/w/a'' [sample_repo ''new'' False False, sample_repo ''old'' True False] sample_state = Inr stale"
    "(\<exists>p \<in> repo_reach sample_options (sample_repo ''new'' False False) sample_state. prefix p [''w'', ''d'', ''gone.git'', ''HEAD''])
     \<or> [''w'', ''d'', ''gone.git'', ''HEAD''] \<in> prune_reach sample_options stale sample_state"
    using scratch by (auto simp: l opts)
  moreover have "\<not> (\<exists>p \<in> repo_reach sample_options (sample_repo ''new'' False False) sample_state. prefix p [''w'', ''d'', ''gone.git'', ''HEAD''])"
    using reach by (simp add: repo_reach_def dir_reach_def opts sample_repo_def paths)
  ultimately show ?thesis by blast
qed

text \<open>C2: Pruning never deletes a mirror the run merely left out. A repository the full listing has,
  but which this run does not mirror (the state filter excluded it, or it is empty), keeps every entry of
  its mirror through the run, pruning included. This needs destination, archive directory and
  temporary directory to lie apart, and that no directory of a repository's path ends in a suffix of the
  layout.\<close>

theorem Run_keeps_excluded:
  assumes "runner_contract rn" and "wf_os s"
    and "Run targz rn opts s = Some (Inr x, s')"
    and "listRepos rn (o_state opts) s = Some (Inr (repos, canonical), s1)"
    and "r \<in> set canonical" and "settled_path (repo_path r)"
    and "\<forall>r' \<in> set repos. repo_empty r' \<or> repo_path r' \<noteq> repo_path r"
    and "\<forall>r' \<in> set (repos @ canonical). tidy_path (repo_path r')"
    and "\<forall>p. archive_on_disk (o_archive_dir opts) s p \<longrightarrow> (\<forall>c \<in> set (butlast (split_on CHR ''/'' p)). \<not> has_suffix c ''.git'')"
    and "at_path s (o_dest opts) \<parallel> at_path s (o_archive_dir opts)" and "at_path s (temp_dir s) \<parallel> at_path s (o_dest opts)"
    and "prefix (at_path s (mirror_path (o_dest opts) (repo_path r))) q" and "look s q = Some n"
  shows "look s' q = Some n"
  using assms(3)
proof (cases rule: Run_cases)
  case (completed repos2 canonical2 t1 stale c t2 m)
  with assms(4) have eq: "repos2 = repos" "canonical2 = canonical" "t1 = s1" by auto
  have ro: "reads_only s s1" by (rule runner_contract.listRepos_reads_only [OF assms(1,4)])
  then have m1: "os_mach s1 = os_mach s" and l1: "look s1 = look s"
    by (simp add: reads_only_def) (simp add: reads_only_look [OF ro])
  have wf1: "wf_os s1" using assms(2) by (simp add: wf_os_def m1 l1)
  have at1: "at_path s1 p = at_path s p" for p by (rule at_path_cong [OF m1])
  have tmp: "temp_dir s1 = temp_dir s" by (simp add: temp_dir_def getenv_def m1)
  have l2: "look t2 q = Some n"
    by (rule run_keeps [OF assms(1) wf_osD(1) [OF wf1] completed(3) [unfolded eq] assms(6)])
      (use assms(7-) in \<open>auto simp: at1 tmp l1\<close>)
  have m2: "os_mach t2 = os_mach s1"
    using confined_mach [OF runner_contract.confined_run_repos [OF assms(1) completed(3) [unfolded eq] wf_osD(1) [OF wf1]]] .
  have od: "archive_on_disk (o_archive_dir opts) s1 p = archive_on_disk (o_archive_dir opts) s p" for p
    by (simp add: on_disk_def l1 at1)
  have "look s' q = look t2 q"
    using prune_keeps_listed [OF wf1 completed(2) [unfolded eq] refl refl _ _ _ m2 completed(4) assms(5)] assms(8,9,10,12)
    by (simp add: at1 od)
  with l2 show ?thesis by simp
qed simp

lemma Run_keeps_excluded_witness:
  "\<exists>x s'. Run sample_targz sample_forge sample_options sample_state = Some (Inr x, s') \<and>
     o_prune_removed sample_options \<and> o_state sample_options = StateActive \<and>
     look s' [''w'', ''d'', ''old.git'', ''HEAD''] = Some (File ''ref'')"
proof -
  let ?s = sample_state and ?old = "sample_repo ''old'' True False" and ?new = "sample_repo ''new'' False False"
  obtain x s' where r: "Run sample_targz sample_forge sample_options ?s = Some (Inr x, s')" by (rule sample_run)
  have opts: "o_dest sample_options = ''/w/d''" "o_archive_dir sample_options = ''/w/a''" "o_state sample_options = StateActive"
    "o_prune_removed sample_options" by (simp_all add: sample_options_def)
  have l: "listRepos sample_forge StateActive ?s = Some (Inr ([?new], [?new, ?old]), ?s)"
    by (simp add: listRepos_def sample_forge_def sample_runner_def sample_repo_def)
  have at: "at_path ?s ''/w/a'' = [''w'', ''a'']" "at_path ?s ''/w/d'' = [''w'', ''d'']" "at_path ?s (temp_dir ?s) = [''tmp'']"
    "at_path ?s (mirror_path ''/w/d'' ''old'') = [''w'', ''d'', ''old.git'']" by code_simp+
  have none: "look ?s ([''w'', ''a''] @ cs) = None" if "cs \<noteq> []" for cs
    using that by (simp add: look_def sample_state_def quiet_os_def)
  have c: "runner_contract sample_forge" by (simp add: sample_forge_def sample_runner_contract)
  have wf: "wf_os ?s"
    by (auto simp: wf_os_def look_def sample_state_def quiet_os_def quiet_machine_def plain_name_def split: if_splits)
  have names: "settled_path ''old''" "tidy_path ''old''" "tidy_path ''new''"
    by (simp_all add: settled_path_def tidy_path_def plain_rel_def plain_name_def)
  have "look s' [''w'', ''d'', ''old.git'', ''HEAD''] = Some (File ''ref'')"
  proof (rule Run_keeps_excluded [OF c wf r, unfolded opts, OF l])
    show "?old \<in> set [?new, ?old]" by simp
    show "settled_path (repo_path ?old)" "\<forall>r' \<in> set [?new]. repo_empty r' \<or> repo_path r' \<noteq> repo_path ?old"
      "\<forall>r' \<in> set ([?new] @ [?new, ?old]). tidy_path (repo_path r')" using names by (simp_all add: sample_repo_def)
    show "\<forall>p. archive_on_disk ''/w/a'' ?s p \<longrightarrow> (\<forall>c \<in> set (butlast (split_on CHR ''/'' p)). \<not> has_suffix c ''.git'')"
      using none by (simp add: on_disk_def at)
    show "at_path ?s ''/w/d'' \<parallel> at_path ?s ''/w/a''" "at_path ?s (temp_dir ?s) \<parallel> at_path ?s ''/w/d''"
      by (simp_all add: at parallel_def)
    show "prefix (at_path ?s (mirror_path ''/w/d'' (repo_path ?old))) [''w'', ''d'', ''old.git'', ''HEAD'']" by (simp add: sample_repo_def at)
    show "look ?s [''w'', ''d'', ''old.git'', ''HEAD''] = Some (File ''ref'')" by code_simp
  qed
  with r opts show ?thesis by blast
qed

end
