(* ===== verification/Findings.thy ===== *)
theory Findings
  imports Run
begin

text \<open>
  Runs in which the program deletes what it should keep: the file layout cannot tell some
  exported metadata from a mirror or an archive.
\<close>

definition tag_repo :: repo where
  "tag_repo = \<lparr>repo_path = ''x'', repo_archived = False, repo_empty = False\<rparr>"

definition tag_options :: "string \<Rightarrow> options" where
  "tag_options adir = \<lparr>o_dest = ''d'', o_state = StateAll, o_archive = ArchiveNone, o_archive_dir = adir,
     o_concurrency = 1, o_prune_removed = True, o_export_metadata = [''releases'']\<rparr>"

definition tag_state :: os where
  "tag_state = quiet_os [([''w'', ''d''], Dir), ([''w'', ''d'', ''x.metadata''], Dir), ([''w'', ''d'', ''x.metadata'', ''releases''], Dir)]"

text \<open>The repository path the scan reads off the directory of a release.\<close>

definition release_as_repo :: "string \<Rightarrow> string \<Rightarrow> string" where
  "release_as_repo path tag = path @ ''.metadata/releases/'' @ trim_suffix (sanitizeName tag) ''.git''"

lemma sanitizeName_git: "has_suffix tag ''.git'' \<Longrightarrow> has_suffix (sanitizeName tag) ''.git''"
  by (auto simp: has_suffix_iff sanitizeName_def Let_def)

lemma WriteRelease_leaves:
  assumes "WriteRelease dir rl s = (Inr (), s1)" "wf_os s"
  shows "wf_os s1" "os_mach s1 = os_mach s" "look s1 (at_path s dir @ [sanitizeName (r_tag_name rl)]) = Some Dir"
    "look s1 (release_file dir (r_tag_name rl) s) \<noteq> None"
proof -
  let ?d = "at_path s dir @ [sanitizeName (r_tag_name rl)]"
  from assms(1) obtain s2 where m: "sys_mkdir_all ?d s = (Inr (), s2)"
    and w: "sys_write_file (release_file dir (r_tag_name rl) s2) (MarshalIndent (release_json (full_release rl))) s2 = (Inr (), s1)"
    by (auto simp: WriteRelease_alt Let_def split: prod.splits sum.splits)
  have mach: "os_mach s2 = os_mach s" by (rule mkdir_all_mach [OF m])
  have at: "release_file dir (r_tag_name rl) s2 = ?d @ [''release.json'']" by (simp add: release_file_def at_path_cong [OF mach])
  have plain: "plain_path ?d" "plain_path (?d @ [''release.json''])"
    using wf_at_path [OF assms(2)] by (simp_all add: sanitizeName_plain_name plain_literals)
  note written = write_file_look [OF w [unfolded at]]
  show "wf_os s1" by (rule wf_write_file [OF w [unfolded at] wf_mkdir_all [OF m assms(2) plain(1)] plain(2)])
  show "os_mach s1 = os_mach s" using written(3) mach by simp
  show "look s1 ?d = Some Dir" using written(1) [of ?d] mkdir_all_ok [OF m, of ?d] by simp
  show "look s1 (release_file dir (r_tag_name rl) s) \<noteq> None" using written(2) by (simp add: release_file_def)
qed

text \<open>The directory of such a release is a mirror on disk to the scan.\<close>

lemma release_on_disk:
  assumes "tidy_path path" "has_suffix tag ''.git''" "dest \<noteq> []"
    and "look s (at_path s (fpjoin [metadata_dir dest path, MetadataReleases]) @ [sanitizeName tag]) = Some Dir"
  shows "mirror_on_disk dest s (release_as_repo path tag)"
    and "at_path s (fpjoin [metadata_dir dest path, MetadataReleases]) @ [sanitizeName tag] =
      at_path s dest @ split_on CHR ''/'' (release_as_repo path tag @ ''.git'')"
proof -
  have cs: "split_on CHR ''/'' (release_as_repo path tag @ ''.git'') = split_on CHR ''/'' (path @ ''.metadata'') @ [''releases'', sanitizeName tag]"
  proof -
    have "release_as_repo path tag @ ''.git'' = (path @ ''.metadata'') @ CHR ''/'' # ''releases'' @ CHR ''/'' # sanitizeName tag"
      using trim_suffix_restore [OF sanitizeName_git [OF assms(2)]] by (simp add: release_as_repo_def)
    moreover have "CHR ''/'' \<notin> set (sanitizeName tag)" using sanitizeName_plain_name by (simp add: plain_name_def)
    ultimately show ?thesis by (simp only: split_on_append) (simp add: split_on_free)
  qed
  have "at_path s (metadata_dir dest path) = at_path s dest @ split_on CHR ''/'' (path @ ''.metadata'')"
    unfolding metadata_dir_def using assms(1) by (intro at_layout) (auto simp: tidy_path_def)
  moreover have "plain_name MetadataReleases" by (simp add: MetadataReleases_def plain_name_def)
  ultimately show at: "at_path s (fpjoin [metadata_dir dest path, MetadataReleases]) @ [sanitizeName tag] =
      at_path s dest @ split_on CHR ''/'' (release_as_repo path tag @ ''.git'')"
    by (simp add: at_kind cs) (simp add: MetadataReleases_def)
  have "\<not> has_suffix (last (split_on CHR ''/'' path) @ ''.metadata'') ''.git''"
    by (auto simp: has_suffix_iff)
  then have "\<forall>c \<in> set (split_on CHR ''/'' (path @ ''.metadata'') @ [''releases'']). \<not> has_suffix c ''.git''"
    using assms(1) by (auto simp: split_on_ext tidy_path_def has_suffix_def)
  then show "mirror_on_disk dest s (release_as_repo path tag)"
    using assms(3,4) unfolding at on_disk_def Let_def cs by (auto simp: isMirrorDir_def butlast_append)
qed

text \<open>C40: A release whose tag ends in \<open>.git\<close> is exported into a directory that the next run takes for
  the mirror of a repository that is gone. Whatever the repository, its other releases and the
  destination are: unless the forge lists a repository by the very path the scan reads off, the scan
  reports it, and with \<open>--prune-removed\<close> the exported release of a repository still on the
  forge is deleted.\<close>

theorem release_taken_for_stale_mirror:
  assumes "wf_os s" and "o_dest opts \<noteq> []" and "r \<in> set repos" and "tidy_path (repo_path r)"
    and "has_suffix (r_tag_name rl) ''.git''"
    and "WriteRelease (fpjoin [metadata_dir (o_dest opts) (repo_path r), MetadataReleases]) rl s = (Inr (), s1)"
    and "staleMirrors (o_dest opts) (o_archive_dir opts) repos s1 = Inr stale"
    and "release_as_repo (repo_path r) (r_tag_name rl) \<notin> repo_path ` set repos"
    and "o_prune_removed opts" and "\<forall>q. m_fault (os_mach s) (SysUnlink q) = None"
    and "prune opts stale s1 = (n, s2)"
  shows "release_as_repo (repo_path r) (r_tag_name rl) \<in> set stale \<and>
    look s1 (release_file (fpjoin [metadata_dir (o_dest opts) (repo_path r), MetadataReleases]) (r_tag_name rl) s) \<noteq> None \<and>
    look s2 (release_file (fpjoin [metadata_dir (o_dest opts) (repo_path r), MetadataReleases]) (r_tag_name rl) s) = None"
proof -
  let ?dir = "fpjoin [metadata_dir (o_dest opts) (repo_path r), MetadataReleases]" and ?p = "release_as_repo (repo_path r) (r_tag_name rl)"
  note left = WriteRelease_leaves [OF assms(6,1)]
  note at = at_path_cong [OF left(2)]
  note disk = release_on_disk [OF assms(4,5,2) left(3) [folded at]]
  have stale: "?p \<in> set stale" using stale_paths(3) [OF left(1) assms(7)] disk(1) assms(8) by blast
  have m: "at_path s1 (mirror_path (o_dest opts) ?p) = at_path s1 ?dir @ [sanitizeName (r_tag_name rl)]"
    unfolding mirror_path_def disk(2) using on_disk_at(1) [OF left(1) disk(1)] by simp
  have "through_dirs s1 (at_path s1 (mirror_path (o_dest opts) ?p))"
    unfolding m using wf_ancestors [OF left(1) left(3) [folded at]] by (auto simp: through_dirs_def)
  from prune_removes [OF left(1) assms(9) _ assms(11) stale this] assms(10)
  have "look s2 (release_file ?dir (r_tag_name rl) s) = None"
    unfolding m by (simp add: left(2) release_file_def at)
  with stale left(4) show ?thesis by blast
qed

lemma release_taken_for_stale_mirror_witness:
  "let s1 = snd (WriteRelease (fpjoin [metadata_dir ''d'' ''x'', MetadataReleases]) (sample_release ''v1.git'') tag_state);
       s2 = snd (prune (tag_options ''a'') [''x.metadata/releases/v1''] s1);
       file = [''w'', ''d'', ''x.metadata'', ''releases'', ''v1.git'', ''release.json'']
   in tag_repo \<in> set [tag_repo] \<and> look s1 file \<noteq> None \<and> look s2 file = None"
proof -
  let ?w = "WriteRelease (fpjoin [metadata_dir ''d'' ''x'', MetadataReleases]) (sample_release ''v1.git'') tag_state"
  let ?s1 = "snd ?w" and ?opts = "tag_options ''a''"
  let ?p = "prune ?opts [''x.metadata/releases/v1''] ?s1"
  have wf: "wf_os tag_state"
    by (auto simp: wf_os_def look_def tag_state_def quiet_os_def quiet_machine_def plain_name_def split: if_splits)
  have ok: "fst ?w = Inr ()" by code_simp
  then have w: "?w = (Inr (), ?s1)" by (metis prod.collapse)
  have stale: "staleMirrors ''d'' ''a'' [tag_repo] ?s1 = Inr [''x.metadata/releases/v1'']" by code_simp
  have names: "release_as_repo (repo_path tag_repo) ''v1.git'' = ''x.metadata/releases/v1''" "tidy_path (repo_path tag_repo)"
    "has_suffix ''v1.git'' ''.git''"
    by (code_simp, simp add: tag_repo_def tidy_path_def plain_rel_def plain_name_def, code_simp)
  have opts: "o_dest ?opts = ''d''" "o_archive_dir ?opts = ''a''" "o_prune_removed ?opts" by (simp_all add: tag_options_def)
  have path: "repo_path tag_repo = ''x''" by (simp add: tag_repo_def)
  have tag: "r_tag_name (sample_release ''v1.git'') = ''v1.git''" by (simp add: sample_release_def)
  have quiet: "\<forall>q. m_fault (os_mach tag_state) (SysUnlink q) = None" by (simp add: tag_state_def quiet_os_def quiet_machine_def)
  have at: "release_file (fpjoin [metadata_dir ''d'' (repo_path tag_repo), MetadataReleases]) ''v1.git'' tag_state =
      [''w'', ''d'', ''x.metadata'', ''releases'', ''v1.git'', ''release.json'']" by code_simp
  have p: "?p = (fst ?p, snd ?p)" by simp
  have w': "WriteRelease (fpjoin [metadata_dir (o_dest ?opts) (repo_path tag_repo), MetadataReleases]) (sample_release ''v1.git'') tag_state = (Inr (), ?s1)"
    using w by (simp add: opts path)
  from release_taken_for_stale_mirror [OF wf _ _ names(2) _ w' _ _ opts(3) quiet p, of "[tag_repo]"] stale
  show ?thesis unfolding tag opts at Let_def names(1) by (simp add: path names(3) del: prune.simps)
qed

text \<open>With the archive directory equal to the destination, an exported release asset named
  \<open>*.tar.gz\<close> counts as the archive of a repository that is gone and is deleted.\<close>

lemma asset_taken_for_stale_archive:
  "let s1 = put [''w'', ''d'', ''x.metadata'', ''releases'', ''v1'', ''assets'', ''src.tar.gz''] (File ''data'') tag_state
   in staleMirrors ''d'' ''d'' [tag_repo] s1 = Inr [''x.metadata/releases/v1/assets/src''] \<and>
      look (snd (prune (tag_options ''d'') [''x.metadata/releases/v1/assets/src''] s1))
        [''w'', ''d'', ''x.metadata'', ''releases'', ''v1'', ''assets'', ''src.tar.gz''] = None"
  by code_simp

end
