(* ===== verification/Run_Concurrent.thy ===== *)
theory Run_Concurrent
  imports Run
begin

text \<open>
  The concurrent schedule of a run (\<open>run.go\<close>): the loop that starts a worker for every
  repository under the error group's limit, the workers' atomic additions to the shared
  counters, and the progress calls under the mutex. A step is one atomic operation of one
  goroutine. What a worker's \<open>mirrorRepo\<close> comes to is given with the repository, so the
  theorems hold for all outcomes and all schedules; the work itself is one step here, because
  its calls to the system do not touch the counters.
\<close>

section \<open>Goroutines\<close>

datatype op =
    Work
  | AddSynced | AddSkipped | AddFailed | AddArchived | AddExported int
  | Lock | AddDone | CallProgress int | Unlock

text \<open>What is left to do of \<open>reportDone\<close>, of a worker, and of the loop at an empty repository.\<close>

definition report_ops :: "op list" where
  "report_ops = [Lock, AddDone, Unlock]"

definition count_ops :: "mirror_outcome \<Rightarrow> op list" where
  "count_ops o1 =
     (if mo_synced o1 then [AddSynced] else []) @ (if mo_archived o1 then [AddArchived] else []) @
     (if mo_failed o1 then [AddFailed] else []) @ [AddExported (mo_metadata_exported o1)]"

definition worker_ops :: "mirror_outcome \<Rightarrow> op list" where
  "worker_ops o1 = Work # count_ops o1 @ report_ops"

definition skip_ops :: "op list" where
  "skip_ops = AddSkipped # report_ops"

text \<open>
  One operation of a goroutine on the mutex and the counters; \<open>None\<close> is a goroutine that has to
  wait. \<open>AddDone\<close> is followed by the call with the number it returned.
\<close>

fun op_step :: "op list \<Rightarrow> bool \<times> run_counters \<Rightarrow> (op list \<times> bool \<times> run_counters) option" where
  "op_step [] _ = None"
| "op_step (Work # ops) (l, c) = Some (ops, l, c)"
| "op_step (AddSynced # ops) (l, c) = Some (ops, l, c\<lparr>k_synced := k_synced c + 1\<rparr>)"
| "op_step (AddSkipped # ops) (l, c) = Some (ops, l, c\<lparr>k_skipped := k_skipped c + 1\<rparr>)"
| "op_step (AddFailed # ops) (l, c) = Some (ops, l, c\<lparr>k_failed := k_failed c + 1\<rparr>)"
| "op_step (AddArchived # ops) (l, c) = Some (ops, l, c\<lparr>k_archived := k_archived c + 1\<rparr>)"
| "op_step (AddExported n # ops) (l, c) = Some (ops, l, c\<lparr>k_metadata_exported := k_metadata_exported c + n\<rparr>)"
| "op_step (Lock # ops) (l, c) = (if l then None else Some (ops, True, c))"
| "op_step (AddDone # ops) (l, c) = (let n = k_done c + 1 in Some (CallProgress n # ops, l, c\<lparr>k_done := n\<rparr>))"
| "op_step (CallProgress n # ops) (l, c) = Some (ops, l, c\<lparr>k_progress := k_progress c @ [(n, k_total c)]\<rparr>)"
| "op_step (Unlock # ops) (l, c) = Some (ops, False, c)"

section \<open>The pool\<close>

text \<open>
  The loop's remaining repositories, each with the outcome its worker will have; what is left of the
  loop's own operations at an empty one; the workers that run; and what they share.
\<close>

record pool =
  p_todo :: "(repo \<times> mirror_outcome) list"
  p_main :: "op list"
  p_workers :: "op list list"
  p_shared :: "bool \<times> run_counters"

definition start_pool :: "(repo \<times> mirror_outcome) list \<Rightarrow> pool" where
  "start_pool todo = \<lparr>p_todo = todo, p_main = [], p_workers = [], p_shared = (False, new_counters (int (length todo)))\<rparr>"

definition pool_limit :: "int \<Rightarrow> nat \<Rightarrow> nat" where
  "pool_limit concurrency gomaxprocs = (if concurrency < 1 then gomaxprocs else nat concurrency)"

definition finished :: "pool \<Rightarrow> bool" where
  "finished p \<longleftrightarrow> p_todo p = [] \<and> p_main p = [] \<and> p_workers p = []"

inductive pool_step :: "nat \<Rightarrow> pool \<Rightarrow> pool \<Rightarrow> bool" for limit where
  skip: "p_main p = [] \<Longrightarrow> p_todo p = (r, o1) # rest \<Longrightarrow> repo_empty r \<Longrightarrow>
    pool_step limit p (p\<lparr>p_todo := rest, p_main := skip_ops\<rparr>)"
| spawn: "p_main p = [] \<Longrightarrow> p_todo p = (r, o1) # rest \<Longrightarrow> \<not> repo_empty r \<Longrightarrow> length (p_workers p) < limit \<Longrightarrow>
    pool_step limit p (p\<lparr>p_todo := rest, p_workers := p_workers p @ [worker_ops o1]\<rparr>)"
| main: "op_step (p_main p) (p_shared p) = Some (ops, sh) \<Longrightarrow>
    pool_step limit p (p\<lparr>p_main := ops, p_shared := sh\<rparr>)"
| worker: "p_workers p = ws @ w # ws' \<Longrightarrow> op_step w (p_shared p) = Some (ops, sh) \<Longrightarrow>
    pool_step limit p (p\<lparr>p_workers := ws @ ops # ws', p_shared := sh\<rparr>)"
| finish: "p_workers p = ws @ [] # ws' \<Longrightarrow>
    pool_step limit p (p\<lparr>p_workers := ws @ ws'\<rparr>)"

inductive_cases pool_stepE: "pool_step limit p p'"

abbreviation pool_run :: "nat \<Rightarrow> pool \<Rightarrow> pool \<Rightarrow> bool" where
  "pool_run limit \<equiv> (pool_step limit)\<^sup>*\<^sup>*"

section \<open>No addition is lost\<close>

text \<open>All operations that are still to come, of every goroutine and of those not started.\<close>

definition repo_ops :: "repo \<times> mirror_outcome \<Rightarrow> op list" where
  "repo_ops ro = (if repo_empty (fst ro) then skip_ops else worker_ops (snd ro))"

definition ahead :: "pool \<Rightarrow> op list" where
  "ahead p = p_main p @ concat (p_workers p) @ concat (map repo_ops (p_todo p))"

lemma sum_map_concat: "sum_list (map f (concat (map g xs))) = sum_list (map (\<lambda>x. sum_list (map f (g x))) xs)"
  by (induction xs) simp_all

text \<open>A counter together with what each operation adds to it.\<close>

locale tally =
  fixes sel :: "run_counters \<Rightarrow> int" and adds :: "op \<Rightarrow> int"
  assumes added: "op_step (x # ops) (l, c) = Some (ops', l', c') \<Longrightarrow>
    sel c' + sum_list (map adds ops') = sel c + adds x + sum_list (map adds ops)"
begin

definition owed :: "pool \<Rightarrow> int" where
  "owed p = sel (snd (p_shared p)) + sum_list (map adds (ahead p))"

lemma op_owed:
  assumes "op_step w sh = Some (ops, sh')"
  shows "sel (snd sh') + sum_list (map adds ops) = sel (snd sh) + sum_list (map adds w)"
proof (cases w)
  case (Cons x xs)
  with assms show ?thesis using added [of x xs "fst sh" "snd sh" ops "fst sh'" "snd sh'"] by simp
qed (use assms in simp)

lemma step_owed: "pool_step limit p p' \<Longrightarrow> owed p' = owed p"
  by (erule pool_stepE) (auto simp: owed_def ahead_def repo_ops_def dest: op_owed)

lemma run_owed: "pool_run limit p p' \<Longrightarrow> owed p' = owed p"
  by (induction rule: rtranclp_induct) (auto simp: step_owed)

lemma total_at_end:
  assumes "pool_run limit (start_pool todo) p" "finished p" "sel (new_counters (int (length todo))) = 0"
  shows "sel (snd (p_shared p)) = sum_list (map (\<lambda>ro. sum_list (map adds (repo_ops ro))) todo)"
  using run_owed [OF assms(1)] assms(2,3)
  by (simp add: owed_def ahead_def start_pool_def finished_def sum_map_concat)

end

text \<open>What each operation adds to each counter.\<close>

definition adds_one :: "op \<Rightarrow> op \<Rightarrow> int" where
  "adds_one x y = (if x = y then 1 else 0)"

definition adds_exported :: "op \<Rightarrow> int" where
  "adds_exported x = (case x of AddExported n \<Rightarrow> n | _ \<Rightarrow> 0)"

fun_cases op_step_SomeE: "op_step (x # ops) lc = Some res"

interpretation synced: tally k_synced "adds_one AddSynced"
  by unfold_locales (erule op_step_SomeE, auto simp: adds_one_def Let_def split: if_splits)

interpretation skipped: tally k_skipped "adds_one AddSkipped"
  by unfold_locales (erule op_step_SomeE, auto simp: adds_one_def Let_def split: if_splits)

interpretation failed: tally k_failed "adds_one AddFailed"
  by unfold_locales (erule op_step_SomeE, auto simp: adds_one_def Let_def split: if_splits)

interpretation archived: tally k_archived "adds_one AddArchived"
  by unfold_locales (erule op_step_SomeE, auto simp: adds_one_def Let_def split: if_splits)

interpretation exported: tally k_metadata_exported adds_exported
  by unfold_locales (erule op_step_SomeE, auto simp: adds_exported_def Let_def split: if_splits)

interpretation reported: tally k_done "adds_one AddDone"
  by unfold_locales (erule op_step_SomeE, auto simp: adds_one_def Let_def split: if_splits)

section \<open>The progress calls\<close>

text \<open>
  Where a goroutine can be: before \<open>reportDone\<close> with only additions to do, inside its critical
  section, or at its end.
\<close>

definition adding :: "op \<Rightarrow> bool" where
  "adding x = (case x of Lock \<Rightarrow> False | AddDone \<Rightarrow> False | CallProgress _ \<Rightarrow> False | Unlock \<Rightarrow> False | _ \<Rightarrow> True)"

definition inside :: "op list \<Rightarrow> bool" where
  "inside ops \<longleftrightarrow> ops = [AddDone, Unlock] \<or> (\<exists>n. ops = [CallProgress n, Unlock]) \<or> ops = [Unlock]"

definition well_placed :: "op list \<Rightarrow> bool" where
  "well_placed ops \<longleftrightarrow> (\<exists>pre. list_all adding pre \<and> ops = pre @ report_ops) \<or> inside ops \<or> ops = []"

text \<open>
  At most one goroutine is inside, and only with the mutex; the calls made so far are in order,
  and \<open>done\<close> is ahead of them only while its new value is about to be reported.
\<close>

definition calling :: "op list list \<Rightarrow> int set" where
  "calling threads = {n. [CallProgress n, Unlock] \<in> set threads}"

definition orderly :: "int \<Rightarrow> op list list \<Rightarrow> bool \<times> run_counters \<Rightarrow> bool" where
  "orderly t threads sh =
     (case sh of (l, c) \<Rightarrow>
        list_all well_placed threads \<and> length (filter inside threads) = of_bool l \<and> k_total c = t \<and>
        (\<exists>k. k_progress c = progress_calls 0 k t \<and>
          (calling threads = {} \<and> k_done c = int k \<or> calling threads = {int k + 1} \<and> k_done c = int k + 1)))"

lemma progress_calls_snoc: "progress_calls 0 (Suc k) t = progress_calls 0 k t @ [(int k + 1, t)]"
  by (simp add: progress_calls_def)

lemma calling_simps [simp]:
  "calling [] = {}" "calling ([] # ts) = calling ts" "calling (xs @ ys) = calling xs \<union> calling ys"
  "calling ([CallProgress n, Unlock] # ts) = insert n (calling ts)" "calling ([Unlock] # ts) = calling ts"
  "calling ([AddDone, Unlock] # ts) = calling ts"
  by (auto simp: calling_def)

lemma nobody_calling: "length (filter inside ts) = 0 \<Longrightarrow> calling ts = {}"
  by (auto simp: filter_empty_conv inside_def calling_def)

lemma outside_report [simp]: "\<not> inside (pre @ report_ops)" "calling ((pre @ report_ops) # ts) = calling ts"
  by (auto simp: inside_def calling_def report_ops_def append_eq_Cons_conv Cons_eq_append_conv)

lemma inside_simps [simp]:
  "inside [AddDone, Unlock]" "inside [CallProgress n, Unlock]" "inside [Unlock]" "\<not> inside []"
  by (auto simp: inside_def)

lemma well_placed_simps [simp]:
  "well_placed []" "inside w \<Longrightarrow> well_placed w" "list_all adding pre \<Longrightarrow> well_placed (pre @ report_ops)"
  by (auto simp: well_placed_def)

lemma well_placed_cases:
  assumes "well_placed w" "w \<noteq> []"
  obtains (adding) x pre where "w = (x # pre) @ report_ops" "adding x" "list_all adding pre"
    | (lock) "w = [Lock, AddDone, Unlock]" | (critical) "w = [AddDone, Unlock]"
    | (call) n where "w = [CallProgress n, Unlock]" | (leave) "w = [Unlock]"
proof -
  consider pre where "list_all adding pre" "w = pre @ report_ops" | "inside w"
    using assms by (auto simp: well_placed_def)
  then show ?thesis
  proof cases
    case (1 pre)
    then show ?thesis by (cases pre) (auto simp: report_ops_def intro: lock adding)
  next
    case 2
    then show ?thesis by (auto simp: inside_def intro: critical call leave)
  qed
qed

lemma orderly_adding:
  assumes "orderly t (xs @ ((x # pre) @ report_ops) # ys) sh" "adding x" "list_all adding pre"
    and "op_step ((x # pre) @ report_ops) sh = Some (ops, sh')"
  shows "orderly t (xs @ ops # ys) sh'"
proof -
  obtain l c l' c' where sh: "sh = (l, c)" "sh' = (l', c')" by (cases sh; cases sh')
  have ops: "ops = pre @ report_ops" "l' = l" "k_done c' = k_done c" "k_progress c' = k_progress c" "k_total c' = k_total c"
    using assms(2,4) unfolding sh by (auto elim!: op_step_SomeE simp: adding_def)
  from assms(1,3) show ?thesis unfolding sh ops(1) orderly_def by (simp add: ops(2-5) del: append_Cons)
qed

lemma orderly_step:
  assumes "orderly t (xs @ w # ys) sh" "op_step w sh = Some (ops, sh')"
  shows "orderly t (xs @ ops # ys) sh'"
proof -
  obtain l c where sh: "sh = (l, c)" by (cases sh)
  have "well_placed w" "w \<noteq> []" using assms by (auto simp: orderly_def sh)
  then consider (adding) x pre where "w = (x # pre) @ report_ops" "adding x" "list_all adding pre"
    | (lock) "w = [Lock, AddDone, Unlock]" | (critical) "w = [AddDone, Unlock]"
    | (call) n where "w = [CallProgress n, Unlock]" | (leave) "w = [Unlock]"
    by (rule well_placed_cases)
  then show ?thesis
  proof cases
    case adding
    then show ?thesis using orderly_adding assms by blast
  next
    case lock
    then show ?thesis using assms unfolding sh orderly_def
      using outside_report(2) [of "[]"] by (auto simp: report_ops_def inside_def split: if_splits)
  next
    case critical
    with assms(1) have "length (filter inside (xs @ ys)) = 0" by (cases l) (simp_all add: orderly_def sh)
    from nobody_calling [OF this] critical assms show ?thesis by (auto simp: orderly_def sh Let_def)
  next
    case (call n)
    with assms(1) have "length (filter inside (xs @ ys)) = 0" by (cases l) (simp_all add: orderly_def sh)
    from nobody_calling [OF this] call assms show ?thesis
      by (auto simp: orderly_def sh progress_calls_snoc intro!: exI [where x = "Suc _"])
  next
    case leave
    then show ?thesis using assms by (cases l) (auto simp: orderly_def sh)
  qed
qed


definition goroutines :: "pool \<Rightarrow> op list list" where
  "goroutines p = p_main p # p_workers p"

lemma worker_ops_pre: "\<exists>pre. list_all adding pre \<and> worker_ops o1 = pre @ report_ops"
  by (rule exI [where x = "Work # count_ops o1"]) (auto simp: worker_ops_def count_ops_def adding_def)

lemma skip_ops_pre: "\<exists>pre. list_all adding pre \<and> skip_ops = pre @ report_ops"
  by (rule exI [where x = "[AddSkipped]"]) (simp add: skip_ops_def adding_def)

lemma orderly_new:
  assumes "\<exists>pre. list_all adding pre \<and> w = pre @ report_ops"
  shows "orderly t (w # ts) sh = orderly t ([] # ts) sh" "orderly t (ts @ [w]) sh = orderly t ts sh"
  using assms by (auto simp: orderly_def split: prod.splits)

lemma orderly_gone: "orderly t (xs @ [] # ys) sh = orderly t (xs @ ys) sh"
  by (simp add: orderly_def split: prod.split)

lemma step_orderly:
  assumes "pool_step limit p p'" "orderly t (goroutines p) (p_shared p)"
  shows "orderly t (goroutines p') (p_shared p')"
  using assms
proof (cases rule: pool_step.cases)
  case (skip r o1 rest)
  then show ?thesis using assms(2) by (simp add: goroutines_def orderly_new [OF skip_ops_pre])
next
  case (spawn r o1 rest)
  then show ?thesis
    using assms(2) orderly_new(2) [OF worker_ops_pre, of t "goroutines p" o1] by (simp add: goroutines_def)
next
  case (main ops sh)
  then show ?thesis using assms(2) orderly_step [of t "[]" "p_main p" "p_workers p" "p_shared p" ops sh] by (simp add: goroutines_def)
next
  case (worker ws w ws' ops sh)
  then show ?thesis using assms(2) orderly_step [of t "p_main p # ws" w ws' "p_shared p" ops sh] by (simp add: goroutines_def)
next
  case (finish ws ws')
  then show ?thesis using assms(2) orderly_gone [of t "p_main p # ws" ws' "p_shared p"] by (simp add: goroutines_def)
qed

lemma start_orderly: "orderly (int (length todo)) (goroutines (start_pool todo)) (p_shared (start_pool todo))"
  by (auto simp: orderly_def goroutines_def start_pool_def new_counters_def progress_calls_def)

lemma run_orderly:
  "pool_run limit (start_pool todo) p \<Longrightarrow> orderly (int (length todo)) (goroutines p) (p_shared p)"
  by (induction rule: rtranclp_induct) (auto simp: start_orderly intro: step_orderly)


section \<open>Every schedule ends\<close>

definition op_weight :: "op \<Rightarrow> nat" where
  "op_weight x = (if x = AddDone then 2 else 1)"

definition ops_weight :: "op list \<Rightarrow> nat" where
  "ops_weight ops = sum_list (map op_weight ops)"

definition pool_weight :: "pool \<Rightarrow> nat" where
  "pool_weight p = ops_weight (p_main p) + sum_list (map (\<lambda>w. 1 + ops_weight w) (p_workers p)) +
     sum_list (map (\<lambda>ro. 2 + ops_weight (repo_ops ro)) (p_todo p))"

lemma ops_weight_simps [simp]: "ops_weight [] = 0" "ops_weight (x # ops) = op_weight x + ops_weight ops"
  by (simp_all add: ops_weight_def)

lemma op_step_weight: "op_step w sh = Some (ops, sh') \<Longrightarrow> ops_weight ops < ops_weight w"
  by (cases w) (auto elim!: op_step_SomeE simp: op_weight_def Let_def split: if_splits)

lemma step_weight: "pool_step limit p p' \<Longrightarrow> pool_weight p' < pool_weight p"
  by (erule pool_stepE) (auto simp: pool_weight_def repo_ops_def dest!: op_step_weight)

lemma steps_weight: "(pool_step limit ^^ n) p q \<Longrightarrow> pool_weight q + n \<le> pool_weight p"
proof (induction n arbitrary: q)
  case (Suc n)
  then obtain t where t: "(pool_step limit ^^ n) p t" "pool_step limit t q" by auto
  from Suc.IH [OF t(1)] step_weight [OF t(2)] show ?case by simp
qed simp

lemma start_weight: "pool_weight (start_pool todo) \<le> 11 * length todo"
proof -
  have "2 + ops_weight (repo_ops ro) \<le> 11" for ro
    by (auto simp: repo_ops_def skip_ops_def worker_ops_def count_ops_def report_ops_def op_weight_def)
  then have "sum_list (map (\<lambda>ro. 2 + ops_weight (repo_ops ro)) todo) \<le> sum_list (map (\<lambda>_. 11) todo)"
    by (intro sum_list_mono) blast
  then show ?thesis by (simp add: pool_weight_def start_pool_def sum_list_triv mult.commute)
qed

lemma inside_runs: "inside w \<Longrightarrow> \<exists>ops sh'. op_step w (l, c) = Some (ops, sh')"
  by (auto simp: inside_def Let_def)

lemma unlocked_runs: "w \<noteq> [] \<Longrightarrow> \<exists>ops sh'. op_step w (False, c) = Some (ops, sh')"
  by (cases "(w, (False, c))" rule: op_step.cases) (auto simp: Let_def)

lemma goroutine_steps:
  assumes "w \<in> set (goroutines p)" "op_step w (p_shared p) = Some (ops, sh)"
  shows "\<exists>p'. pool_step limit p p'"
proof (cases "w = p_main p")
  case True
  with assms(2) show ?thesis by (blast intro: pool_step.main)
next
  case False
  with assms(1) obtain ws ws' where "p_workers p = ws @ w # ws'" by (auto simp: goroutines_def dest: split_list)
  with assms(2) show ?thesis by (blast intro: pool_step.worker)
qed

lemma pool_progresses:
  assumes "0 < limit" "orderly t (goroutines p) (p_shared p)" "\<not> finished p"
  shows "\<exists>p'. pool_step limit p p'"
proof -
  obtain l c where sh: "p_shared p = (l, c)" by (cases "p_shared p")
  consider (locked) l | (running) w where "\<not> l" "w \<in> set (goroutines p)" "w \<noteq> []" | (ended) "[] \<in> set (p_workers p)"
    | (idle) "p_main p = []" "p_workers p = []"
    by (cases "p_workers p") (auto simp: goroutines_def)
  then show ?thesis
  proof cases
    case locked
    with assms(2) obtain w where "filter inside (goroutines p) = [w]" by (auto simp: orderly_def sh length_Suc_conv)
    then have "w \<in> set (filter inside (goroutines p))" by simp
    then have "w \<in> set (goroutines p)" "inside w" by simp_all
    with inside_runs show ?thesis using goroutine_steps sh by metis
  next
    case running
    then show ?thesis using unlocked_runs goroutine_steps sh by (metis (full_types))
  next
    case ended
    then obtain ws ws' where "p_workers p = ws @ [] # ws'" by (auto dest: split_list)
    then show ?thesis by (blast intro: pool_step.finish)
  next
    case idle
    with assms(3) obtain r o1 rest where todo: "p_todo p = (r, o1) # rest"
      by (cases "p_todo p") (auto simp: finished_def)
    show ?thesis
    proof (cases "repo_empty r")
      case True
      with idle todo show ?thesis by (blast intro: pool_step.skip)
    next
      case False
      with idle todo assms(1) show ?thesis using pool_step.spawn [of p r o1 rest limit] by auto
    qed
  qed
qed


section \<open>The sequential run is one of the schedules\<close>

text \<open>What the repositories come to one after the other, and the counters that leaves.\<close>

fun sequential_outcomes :: "targz \<Rightarrow> runner \<Rightarrow> options \<Rightarrow> repo list \<Rightarrow> os \<Rightarrow> mirror_outcome list option" where
  "sequential_outcomes targz rn opts [] s = Some []"
| "sequential_outcomes targz rn opts (r # rs) s =
     (if repo_empty r then
        map_option ((#) failed_outcome) (sequential_outcomes targz rn opts rs (log_at LWarn ''skipping empty repository'' (repo_path r) s))
      else (case mirrorRepo targz rn opts r s of
              None \<Rightarrow> None
            | Some (o1, s1) \<Rightarrow> map_option ((#) o1) (sequential_outcomes targz rn opts rs s1)))"

fun count_all :: "(repo \<times> mirror_outcome) list \<Rightarrow> run_counters \<Rightarrow> run_counters" where
  "count_all [] c = c"
| "count_all ((r, o1) # rest) c =
     count_all rest (reportDone (if repo_empty r then c\<lparr>k_skipped := k_skipped c + 1\<rparr> else count_outcome o1 c))"

lemma run_repos_count_all:
  "run_repos targz rn opts rs (c, s) = Some (c', s') \<Longrightarrow> sequential_outcomes targz rn opts rs s = Some outs \<Longrightarrow>
   length outs = length rs \<and> c' = count_all (zip rs outs) c"
proof (induction rs arbitrary: c s outs)
  case (Cons r rs)
  show ?case
  proof (cases "repo_empty r")
    case True
    with Cons.prems Cons.IH show ?thesis by auto
  next
    case False
    with Cons.prems Cons.IH show ?thesis by (auto simp: runRepo_def split: option.splits)
  qed
qed simp

text \<open>The work on the repositories returns when the exporters do.\<close>

lemma exportMetadata_returns:
  "\<forall>e \<in> set exps. \<forall>r dir s. exp_export e r dir s \<noteq> None \<Longrightarrow> exportMetadata exps opts r n b s \<noteq> None"
  by (induction exps opts r n b s rule: exportMetadata.induct) (auto simp: Let_def simp del: not_None_eq split: option.split sum.split prod.split)

lemma mirrorRepo_returns:
  assumes "\<forall>e \<in> set (run_exporters rn). \<forall>r dir s. exp_export e r dir s \<noteq> None"
  shows "mirrorRepo targz rn opts r s \<noteq> None"
proof -
  have "mirror_in targz rn opts r dir s \<noteq> None" for dir s
    using exportMetadata_returns [OF assms] by (auto simp: mirror_in_def Let_def simp del: not_None_eq split: option.split sum.split prod.split)
  then show ?thesis by (auto simp: mirrorRepo_def Let_def simp del: not_None_eq split: option.split sum.split prod.split)
qed

lemma run_repos_returns:
  assumes "\<forall>e \<in> set (run_exporters rn). \<forall>r dir s. exp_export e r dir s \<noteq> None"
  shows "\<exists>c' s'. run_repos targz rn opts rs (c, s) = Some (c', s')"
proof (induction rs arbitrary: c s)
  case (Cons r rs)
  obtain out s1 where "mirrorRepo targz rn opts r s = Some (out, s1)" using mirrorRepo_returns [OF assms] by fast
  with Cons show ?case by (simp add: runRepo_def)
qed simp

lemma sequential_returns:
  assumes "\<forall>e \<in> set (run_exporters rn). \<forall>r dir s. exp_export e r dir s \<noteq> None"
  shows "\<exists>outs. sequential_outcomes targz rn opts rs s = Some outs"
proof (induction rs arbitrary: s)
  case (Cons r rs)
  obtain out s1 where m: "mirrorRepo targz rn opts r s = Some (out, s1)" using mirrorRepo_returns [OF assms] by fast
  obtain o1 o2 where "sequential_outcomes targz rn opts rs s1 = Some o1"
    "sequential_outcomes targz rn opts rs (log_at LWarn ''skipping empty repository'' (repo_path r) s) = Some o2"
    using Cons.IH by blast
  with m show ?case by simp
qed simp

definition op_next :: "op list \<times> bool \<times> run_counters \<Rightarrow> op list \<times> bool \<times> run_counters \<Rightarrow> bool" where
  "op_next x y \<longleftrightarrow> op_step (fst x) (snd x) = Some y"

lemma op_then: "op_step ops sh = Some y \<Longrightarrow> op_next\<^sup>*\<^sup>* y z \<Longrightarrow> op_next\<^sup>*\<^sup>* (ops, sh) z"
  by (rule converse_rtranclp_into_rtranclp) (simp_all add: op_next_def)

lemma report_alone: "op_next\<^sup>*\<^sup>* (report_ops, False, c) ([], False, reportDone c)"
  unfolding report_ops_def
  by (rule op_then, (simp add: Let_def; fail))+ (simp add: reportDone_def Let_def)

lemma skip_alone: "op_next\<^sup>*\<^sup>* (skip_ops, False, c) ([], False, reportDone (c\<lparr>k_skipped := k_skipped c + 1\<rparr>))"
  unfolding skip_ops_def by (rule op_then [OF _ report_alone]) simp

lemma optional_alone:
  "op_step (x # ops) (l, c) = Some (ops, l, f c) \<Longrightarrow> op_next\<^sup>*\<^sup>* ((if b then [x] else []) @ ops, l, c) (ops, l, if b then f c else c)"
  by (auto intro: op_then)

lemma count_alone: "op_next\<^sup>*\<^sup>* (count_ops o1 @ ops, l, c) (ops, l, count_outcome o1 c)"
proof -
  let ?f = "\<lambda>c. c\<lparr>k_synced := k_synced c + 1\<rparr>" and ?g = "\<lambda>c. c\<lparr>k_archived := k_archived c + 1\<rparr>"
    and ?h = "\<lambda>c. c\<lparr>k_failed := k_failed c + 1\<rparr>"
  let ?c1 = "if mo_synced o1 then ?f c else c"
  let ?c2 = "if mo_archived o1 then ?g ?c1 else ?c1"
  let ?c3 = "if mo_failed o1 then ?h ?c2 else ?c2"
  let ?c4 = "?c3\<lparr>k_metadata_exported := k_metadata_exported ?c3 + mo_metadata_exported o1\<rparr>"
  let ?last = "AddExported (mo_metadata_exported o1) # ops"
  let ?mid = "(if mo_failed o1 then [AddFailed] else []) @ ?last"
  have a: "op_next\<^sup>*\<^sup>* (count_ops o1 @ ops, l, c) ((if mo_archived o1 then [AddArchived] else []) @ ?mid, l, ?c1)"
    unfolding count_ops_def append_assoc append_Cons append_Nil by (rule optional_alone [where f = ?f]) simp
  have b: "op_next\<^sup>*\<^sup>* ((if mo_archived o1 then [AddArchived] else []) @ ?mid, l, ?c1) (?mid, l, ?c2)" by (rule optional_alone [where f = ?g]) simp
  have c: "op_next\<^sup>*\<^sup>* (?mid, l, ?c2) (?last, l, ?c3)" by (rule optional_alone [where f = ?h]) simp
  have d: "op_next\<^sup>*\<^sup>* (?last, l, ?c3) (ops, l, ?c4)" by (rule op_then [OF op_step.simps(7)]) (rule rtranclp.rtrancl_refl)
  have e: "?c4 = count_outcome o1 c" by (cases "mo_synced o1"; cases "mo_archived o1"; cases "mo_failed o1") (simp_all add: count_outcome_def)
  show ?thesis by (rule rtranclp_trans [OF rtranclp_trans [OF rtranclp_trans [OF a b] c] d [unfolded e]])
qed

lemma worker_alone: "op_next\<^sup>*\<^sup>* (worker_ops o1, False, c) ([], False, reportDone (count_outcome o1 c))"
proof -
  have "op_next (worker_ops o1, False, c) (count_ops o1 @ report_ops, False, c)" by (simp add: op_next_def worker_ops_def)
  with count_alone [of o1 report_ops False c] report_alone [of "count_outcome o1 c"] show ?thesis
    by (meson converse_rtranclp_into_rtranclp rtranclp_trans)
qed

lemma main_alone:
  "op_next\<^sup>*\<^sup>* (ops, sh) (ops', sh') \<Longrightarrow> pool_run limit (p\<lparr>p_main := ops, p_shared := sh\<rparr>) (p\<lparr>p_main := ops', p_shared := sh'\<rparr>)"
proof (induction "(ops', sh')" arbitrary: ops' sh' rule: rtranclp_induct)
  case (step y)
  obtain ops1 sh1 where y: "y = (ops1, sh1)" by (cases y)
  have "pool_step limit (p\<lparr>p_main := ops1, p_shared := sh1\<rparr>) (p\<lparr>p_main := ops', p_shared := sh'\<rparr>)"
    using pool_step.main [of "p\<lparr>p_main := ops1, p_shared := sh1\<rparr>" ops' sh' limit] step(2) by (simp add: op_next_def y)
  with step(3) [OF y] show ?case by (rule rtranclp.rtrancl_into_rtrancl)
qed simp

lemma single_worker_alone:
  "op_next\<^sup>*\<^sup>* (ops, sh) (ops', sh') \<Longrightarrow> pool_run limit (p\<lparr>p_workers := [ops], p_shared := sh\<rparr>) (p\<lparr>p_workers := [ops'], p_shared := sh'\<rparr>)"
proof (induction "(ops', sh')" arbitrary: ops' sh' rule: rtranclp_induct)
  case (step y)
  obtain ops1 sh1 where y: "y = (ops1, sh1)" by (cases y)
  have "pool_step limit (p\<lparr>p_workers := [ops1], p_shared := sh1\<rparr>) (p\<lparr>p_workers := [ops'], p_shared := sh'\<rparr>)"
    using pool_step.worker [of "p\<lparr>p_workers := [ops1], p_shared := sh1\<rparr>" "[]" ops1 "[]" ops' sh' limit] step(2)
    by (simp add: op_next_def y)
  with step(3) [OF y] show ?case by (rule rtranclp.rtrancl_into_rtrancl)
qed simp

text \<open>One repository after the other is a schedule of the pool, whatever the limit.\<close>

definition idle :: "(repo \<times> mirror_outcome) list \<Rightarrow> run_counters \<Rightarrow> pool" where
  "idle todo c = \<lparr>p_todo = todo, p_main = [], p_workers = [], p_shared = (False, c)\<rparr>"

lemma sequential_schedule:
  assumes "0 < limit"
  shows "pool_run limit (idle todo c) (idle [] (count_all todo c))"
proof (induction todo arbitrary: c)
  case (Cons ro rest)
  obtain r o1 where ro: "ro = (r, o1)" by (cases ro)
  let ?c = "reportDone (if repo_empty r then c\<lparr>k_skipped := k_skipped c + 1\<rparr> else count_outcome o1 c)"
  have "pool_run limit (idle (ro # rest) c) (idle rest ?c)"
  proof (cases "repo_empty r")
    case True
    have "pool_step limit (idle (ro # rest) c) ((idle rest c)\<lparr>p_main := skip_ops, p_shared := (False, c)\<rparr>)"
      using pool_step.skip [of "idle (ro # rest) c" r o1 rest limit] True by (simp add: idle_def ro)
    with main_alone [OF skip_alone [of c], of limit "idle rest c"] True show ?thesis
      by (simp add: idle_def converse_rtranclp_into_rtranclp)
  next
    case False
    let ?p = "(idle rest c)\<lparr>p_workers := [worker_ops o1], p_shared := (False, c)\<rparr>"
    let ?q = "(idle rest c)\<lparr>p_workers := [[]], p_shared := (False, ?c)\<rparr>"
    have "pool_step limit (idle (ro # rest) c) ?p"
      using pool_step.spawn [of "idle (ro # rest) c" r o1 rest limit] False assms by (simp add: idle_def ro)
    moreover have "pool_run limit ?p ?q"
      using single_worker_alone [OF worker_alone [of o1 c], of limit "idle rest c"] False by simp
    moreover have "pool_step limit ?q (idle rest ?c)"
      using pool_step.finish [of ?q "[]" "[]" limit] by (simp add: idle_def)
    ultimately show ?thesis by (meson converse_rtranclp_into_rtranclp rtranclp.rtrancl_into_rtrancl)
  qed
  with Cons.IH [of ?c] show ?case by (simp add: ro)
qed simp


lemma start_is_idle: "start_pool todo = idle todo (new_counters (int (length todo)))"
  by (simp add: start_pool_def idle_def)

lemmas totals_at_end = synced.total_at_end skipped.total_at_end failed.total_at_end archived.total_at_end
  exported.total_at_end reported.total_at_end

lemma end_of_run:
  assumes "pool_run limit (start_pool todo) p" "finished p"
  shows "\<not> fst (p_shared p)" "k_total (snd (p_shared p)) = int (length todo)"
    "\<exists>k. k_done (snd (p_shared p)) = int k \<and> k_progress (snd (p_shared p)) = progress_calls 0 k (int (length todo))"
  using run_orderly [OF assms(1)] assms(2) by (auto simp: orderly_def goroutines_def finished_def split: prod.splits)

lemma end_unique:
  assumes "pool_run limit (start_pool todo) p" "finished p" "pool_run limit' (start_pool todo) q" "finished q"
  shows "p_shared p = p_shared q"
proof -
  let ?c = "snd (p_shared p)" and ?d = "snd (p_shared q)"
  note zero = new_counters_def
  have "k_synced ?c = k_synced ?d" "k_skipped ?c = k_skipped ?d" "k_failed ?c = k_failed ?d" "k_archived ?c = k_archived ?d"
    "k_metadata_exported ?c = k_metadata_exported ?d" and dn: "k_done ?c = k_done ?d"
    using totals_at_end [OF assms(1,2)] totals_at_end [OF assms(3,4)] by (simp_all add: zero)
  moreover have "k_progress ?c = k_progress ?d"
    using end_of_run(3) [OF assms(1,2)] end_of_run(3) [OF assms(3,4)] dn by auto
  ultimately have "?c = ?d" using end_of_run(2) [OF assms(1,2)] end_of_run(2) [OF assms(3,4)] by (simp add: run_counters.equality)
  then show ?thesis using end_of_run(1) [OF assms(1,2)] end_of_run(1) [OF assms(3,4)] by (simp add: prod_eq_iff)
qed

lemma end_counters:
  assumes "pool_run limit (start_pool todo) p" "finished p"
  shows "p_shared p = (False, count_all todo (new_counters (int (length todo))))"
proof -
  let ?q = "idle [] (count_all todo (new_counters (int (length todo))))"
  have "pool_run 1 (start_pool todo) ?q" unfolding start_is_idle by (rule sequential_schedule) simp
  moreover have "finished ?q" by (simp add: finished_def idle_def)
  ultimately show ?thesis using end_unique [OF assms] by (simp add: idle_def)
qed

section \<open>Schedules that compute\<close>

text \<open>A schedule is a list that says who moves next: the loop is 0, the workers come after it.\<close>

definition pool_move :: "nat \<Rightarrow> nat \<Rightarrow> pool \<Rightarrow> pool option" where
  "pool_move limit n p =
     (case n of
        0 \<Rightarrow> (if p_main p \<noteq> [] then
                map_option (\<lambda>(ops, sh). p\<lparr>p_main := ops, p_shared := sh\<rparr>) (op_step (p_main p) (p_shared p))
              else (case p_todo p of
                      [] \<Rightarrow> None
                    | (r, o1) # rest \<Rightarrow>
                        if repo_empty r then Some (p\<lparr>p_todo := rest, p_main := skip_ops\<rparr>)
                        else if length (p_workers p) < limit
                        then Some (p\<lparr>p_todo := rest, p_workers := p_workers p @ [worker_ops o1]\<rparr>) else None))
      | Suc i \<Rightarrow>
          if i < length (p_workers p) then
            (let ws = take i (p_workers p); w = p_workers p ! i; ws' = drop (Suc i) (p_workers p) in
             if w = [] then Some (p\<lparr>p_workers := ws @ ws'\<rparr>)
             else map_option (\<lambda>(ops, sh). p\<lparr>p_workers := ws @ ops # ws', p_shared := sh\<rparr>) (op_step w (p_shared p)))
          else None)"

fun pool_moves :: "nat \<Rightarrow> nat list \<Rightarrow> pool \<Rightarrow> pool option" where
  "pool_moves limit [] p = Some p"
| "pool_moves limit (n # ns) p = Option.bind (pool_move limit n p) (pool_moves limit ns)"

lemma pool_move_step: "pool_move limit n p = Some p' \<Longrightarrow> pool_step limit p p'"
proof (cases n)
  case 0
  assume "pool_move limit n p = Some p'"
  with 0 show ?thesis
    by (auto simp: pool_move_def intro: pool_step.main pool_step.skip pool_step.spawn split: if_splits list.splits)
next
  case (Suc i)
  assume m: "pool_move limit n p = Some p'"
  then have i: "i < length (p_workers p)" by (simp add: pool_move_def Suc split: if_splits)
  note ws = id_take_nth_drop [OF i]
  show ?thesis
  proof (cases "p_workers p ! i = []")
    case True
    with m i ws show ?thesis using pool_step.finish [of p "take i (p_workers p)" "drop (Suc i) (p_workers p)" limit]
      by (simp add: pool_move_def Suc Let_def)
  next
    case False
    with m i obtain ops sh where "op_step (p_workers p ! i) (p_shared p) = Some (ops, sh)"
      "p' = p\<lparr>p_workers := take i (p_workers p) @ ops # drop (Suc i) (p_workers p), p_shared := sh\<rparr>"
      by (auto simp: pool_move_def Suc Let_def)
    with ws show ?thesis using pool_step.worker by metis
  qed
qed

lemma pool_moves_run: "pool_moves limit ns p = Some p' \<Longrightarrow> pool_run limit p p'"
  by (induction limit ns p rule: pool_moves.induct)
    (auto intro: converse_rtranclp_into_rtranclp pool_move_step split: Option.bind_splits)


section \<open>Properties\<close>

lemma adds_one_nonneg: "0 \<le> sum_list (map (adds_one x) ops)"
  by (rule sum_list_nonneg) (auto simp: adds_one_def)

lemma report_once: "sum_list (map (adds_one AddDone) (repo_ops ro)) = 1"
  by (simp add: repo_ops_def skip_ops_def worker_ops_def count_ops_def report_ops_def adds_one_def)

lemma done_so_far:
  assumes "pool_run limit (start_pool todo) p"
  shows "k_done (snd (p_shared p)) \<le> int (length todo)"
    and "finished p \<Longrightarrow> k_done (snd (p_shared p)) = int (length todo)"
proof -
  have "reported.owed (start_pool todo) = int (length todo)"
    by (simp add: reported.owed_def start_pool_def new_counters_def ahead_def sum_map_concat report_once sum_list_triv)
  with reported.run_owed [OF assms] have owed: "reported.owed p = int (length todo)" by simp
  with adds_one_nonneg [of AddDone "ahead p"] show "k_done (snd (p_shared p)) \<le> int (length todo)"
    by (simp add: reported.owed_def)
  show "k_done (snd (p_shared p)) = int (length todo)" if "finished p"
    using owed that by (simp add: reported.owed_def finished_def ahead_def)
qed

text \<open>C12:
  However the workers interleave, the progress calls made so far are (1, total), (2, total) and so
  on, without a gap, a repetition or a step back, never beyond the total, and up to it once the
  pool has finished. That is what the lock around the increment and the call is for.
\<close>

theorem pool_progress_in_order:
  assumes "pool_run limit (start_pool todo) p"
  shows "\<exists>k \<le> length todo. k_progress (snd (p_shared p)) = map (\<lambda>i. (int i, int (length todo))) [1..<Suc k] \<and>
     (finished p \<longrightarrow> k = length todo)"
proof -
  obtain l c where sh: "p_shared p = (l, c)" by (cases "p_shared p")
  from run_orderly [OF assms] obtain k where k: "k_progress c = progress_calls 0 k (int (length todo))"
    and d: "calling (goroutines p) = {} \<and> k_done c = int k \<or> calling (goroutines p) = {int k + 1} \<and> k_done c = int k + 1"
    by (auto simp: orderly_def sh)
  have "k \<le> length todo" using d done_so_far(1) [OF assms] by (auto simp: sh)
  moreover have "k = length todo" if "finished p"
    using d done_so_far(2) [OF assms that] that by (auto simp: sh goroutines_def finished_def)
  ultimately show ?thesis using k by (auto simp: sh progress_calls_def simp del: upt_Suc)
qed

definition sample_todo :: "(repo \<times> mirror_outcome) list" where
  "sample_todo =
     [(sample_repo ''a'' False False, \<lparr>mo_synced = True, mo_archived = False, mo_failed = False, mo_metadata_exported = 2\<rparr>),
      (sample_repo ''b'' False True, failed_outcome),
      (sample_repo ''c'' False False, failed_outcome)]"

text \<open>Two workers at once: the first has to wait for the lock while the loop reports, and the second overtakes it.\<close>

definition sample_schedule :: "nat list" where
  "sample_schedule = [0, 0, 0, 1, 0, 1, 1, 0, 0, 0, 0, 2, 2, 2, 2, 2, 2, 2, 2, 1, 1, 1, 1, 1]"

lemma sample_pool:
  obtains p where "pool_run 2 (start_pool sample_todo) p" "finished p"
    and "k_synced (snd (p_shared p)) = 1" "k_progress (snd (p_shared p)) = [(1, 3), (2, 3), (3, 3)]"
proof -
  have "case pool_moves 2 sample_schedule (start_pool sample_todo) of
      Some p \<Rightarrow> finished p \<and> k_synced (snd (p_shared p)) = 1 \<and> k_progress (snd (p_shared p)) = [(1, 3), (2, 3), (3, 3)]
    | None \<Rightarrow> False" by code_simp
  then show ?thesis using that by (auto dest: pool_moves_run split: option.splits)
qed


lemma pool_progress_in_order_witness:
  "\<exists>p. pool_run 2 (start_pool sample_todo) p \<and> finished p \<and> k_progress (snd (p_shared p)) = [(1, 3), (2, 3), (3, 3)]"
proof -
  obtain p where p: "pool_run 2 (start_pool sample_todo) p" "finished p" by (rule sample_pool)
  from pool_progress_in_order [OF p(1)] p(2)
  have "k_progress (snd (p_shared p)) = map (\<lambda>i. (int i, int (length sample_todo))) [1..<Suc (length sample_todo)]" by auto
  with p show ?thesis by (auto simp: sample_todo_def)
qed

text \<open>
  The pool never runs more workers than the limit the options give, whatever the schedule.
\<close>

lemma pool_within_limit:
  assumes "pool_run (pool_limit (o_concurrency opts) gomaxprocs) (start_pool todo) p"
  shows "length (p_workers p) \<le> pool_limit (o_concurrency opts) gomaxprocs"
  using assms
proof (induction rule: rtranclp_induct)
  case (step p p')
  from step(2,3) show ?case by (auto elim!: pool_stepE)
qed (simp add: start_pool_def)

lemma pool_within_limit_witness:
  "\<exists>p. pool_run 2 (start_pool sample_todo) p \<and> length (p_workers p) = 2 \<and> length (p_workers p) \<le> pool_limit 2 8"
proof -
  have "case pool_moves 2 (take 11 sample_schedule) (start_pool sample_todo) of Some p \<Rightarrow> length (p_workers p) = 2 | None \<Rightarrow> False"
    by code_simp
  then obtain p where "pool_run 2 (start_pool sample_todo) p" "length (p_workers p) = 2"
    by (auto dest: pool_moves_run split: option.splits)
  with pool_within_limit [of "sample_options\<lparr>o_concurrency := 2\<rparr>" 8 sample_todo p] show ?thesis
    by (auto simp: pool_limit_def)
qed

text \<open>C38:
  A run comes to its end, and to the right one. When the exporters return, the work on every repository
  does; and then no schedule of the pool takes more than eleven steps for each repository, and a
  schedule that can go no further has worked on every repository, has let every worker end and has
  left the lock free and the counters of the sequential run. So there is no deadlock, no
  endless schedule, and no schedule that ends early or counts differently.
\<close>

theorem pool_ends_right:
  assumes "0 < gomaxprocs" and "\<forall>e \<in> set (run_exporters rn). \<forall>r dir s. exp_export e r dir s \<noteq> None"
  shows "\<exists>outs c s'. sequential_outcomes targz rn opts repos s = Some outs \<and>
    run_repos targz rn opts repos (new_counters (int (length repos)), s) = Some (c, s') \<and>
    (\<forall>n p. (pool_step (pool_limit (o_concurrency opts) gomaxprocs) ^^ n) (start_pool (zip repos outs)) p \<longrightarrow> n \<le> 11 * length repos) \<and>
    (\<forall>p. pool_run (pool_limit (o_concurrency opts) gomaxprocs) (start_pool (zip repos outs)) p \<and>
       (\<nexists>p'. pool_step (pool_limit (o_concurrency opts) gomaxprocs) p p') \<longrightarrow> finished p \<and> p_shared p = (False, c))"
proof -
  let ?l = "pool_limit (o_concurrency opts) gomaxprocs"
  obtain outs c s' where outs: "sequential_outcomes targz rn opts repos s = Some outs"
    and run: "run_repos targz rn opts repos (new_counters (int (length repos)), s) = Some (c, s')"
    using sequential_returns [OF assms(2)] run_repos_returns [OF assms(2)] by fast
  note counted = run_repos_count_all [OF run outs]
  have limit: "0 < ?l" using assms(1) by (simp add: pool_limit_def)
  have "n \<le> 11 * length repos" if "(pool_step ?l ^^ n) (start_pool (zip repos outs)) p" for n p
    using steps_weight [OF that] start_weight [of "zip repos outs"] counted by simp
  moreover have "finished p \<and> p_shared p = (False, c)"
    if p: "pool_run ?l (start_pool (zip repos outs)) p" and stuck: "\<nexists>p'. pool_step ?l p p'" for p
  proof -
    have "finished p" using pool_progresses [OF limit run_orderly [OF p]] stuck by blast
    with end_counters [OF p] counted show ?thesis by simp
  qed
  ultimately show ?thesis using outs run by blast
qed

lemma pool_ends_right_witness:
  "\<exists>outs p. sequential_outcomes sample_targz (sample_runner []) sample_options [sample_repo ''x'' False True, sample_repo ''y'' False False] (quiet_os []) = Some outs \<and>
     pool_run 1 (start_pool (zip [sample_repo ''x'' False True, sample_repo ''y'' False False] outs)) p \<and>
     (\<nexists>p'. pool_step 1 p p') \<and> finished p \<and> k_synced (snd (p_shared p)) = 1 \<and> k_skipped (snd (p_shared p)) = 1"
proof -
  let ?rn = "sample_runner []" and ?repos = "[sample_repo ''x'' False True, sample_repo ''y'' False False]" and ?s = "quiet_os []"
  have ex: "\<forall>e \<in> set (run_exporters ?rn). \<forall>r dir s. exp_export e r dir s \<noteq> None" by (simp add: sample_runner_def)
  have l: "pool_limit (o_concurrency sample_options) 4 = 1" by (simp add: pool_limit_def sample_options_def)
  from pool_ends_right [OF _ ex, of 4 sample_targz sample_options ?repos ?s] obtain outs c s' where
    outs: "sequential_outcomes sample_targz ?rn sample_options ?repos ?s = Some outs"
    and run: "run_repos sample_targz ?rn sample_options ?repos (new_counters (int (length ?repos)), ?s) = Some (c, s')"
    and ends: "\<forall>p. pool_run 1 (start_pool (zip ?repos outs)) p \<and> (\<nexists>p'. pool_step 1 p p') \<longrightarrow> finished p \<and> p_shared p = (False, c)"
    unfolding l by auto
  have "case run_repos sample_targz ?rn sample_options ?repos (new_counters (int (length ?repos)), ?s) of
      Some (c, _) \<Rightarrow> k_synced c = 1 \<and> k_skipped c = 1 | None \<Rightarrow> False" by code_simp
  then have c: "k_synced c = 1 \<and> k_skipped c = 1" unfolding run by simp
  let ?q = "idle [] (count_all (zip ?repos outs) (new_counters (int (length (zip ?repos outs)))))"
  have "pool_run 1 (start_pool (zip ?repos outs)) ?q" unfolding start_is_idle by (rule sequential_schedule) simp
  moreover have "\<nexists>p'. pool_step 1 ?q p'" by (auto simp: idle_def elim!: pool_stepE)
  ultimately show ?thesis using ends outs c by fastforce
qed

text \<open>C37:
  The pool never gets stuck: whatever has happened so far, and whichever goroutine holds the
  lock, the run can go on to a state where every repository has been worked on and every worker
  has ended.
\<close>

theorem pool_finishes:
  assumes "0 < gomaxprocs" and "pool_run (pool_limit concurrency gomaxprocs) (start_pool todo) p"
  shows "\<exists>p'. pool_run (pool_limit concurrency gomaxprocs) p p' \<and> finished p'"
  using assms(2)
proof (induction p rule: measure_induct_rule [of pool_weight])
  case (less p)
  let ?l = "pool_limit concurrency gomaxprocs"
  show ?case
  proof (cases "finished p")
    case False
    have "0 < ?l" using assms(1) by (simp add: pool_limit_def)
    from pool_progresses [OF this run_orderly [OF less.prems] False] obtain q where q: "pool_step ?l p q" by blast
    from less.IH [OF step_weight [OF q] rtranclp.rtrancl_into_rtrancl [OF less.prems q]] q show ?thesis
      by (meson converse_rtranclp_into_rtranclp)
  qed blast
qed

lemma pool_finishes_witness:
  "\<exists>p. pool_run (pool_limit 0 2) (start_pool sample_todo) p \<and> \<not> finished p \<and>
     (\<exists>p'. pool_run (pool_limit 0 2) p p' \<and> finished p')"
proof -
  have "case pool_moves 2 (take 13 sample_schedule) (start_pool sample_todo) of Some p \<Rightarrow> \<not> finished p | None \<Rightarrow> False"
    by code_simp
  then obtain p where p: "pool_run (pool_limit 0 2) (start_pool sample_todo) p" "\<not> finished p"
    by (auto simp: pool_limit_def dest: pool_moves_run split: option.splits)
  with pool_finishes [OF _ p(1)] show ?thesis by auto
qed

text \<open>C5:
  Concurrency does not change what a run reports: when every repository comes to what it comes to in
  the sequential run, then every schedule of the pool, under any limit, ends with the very
  counters, progress calls included, of the sequential run, and with the lock free. No addition
  is lost or counted twice.
\<close>

theorem pool_matches_sequential:
  assumes "run_repos targz rn opts repos (new_counters (int (length repos)), s) = Some (c, s')"
    and "sequential_outcomes targz rn opts repos s = Some outs"
    and "pool_run limit (start_pool (zip repos outs)) p" and "finished p"
  shows "p_shared p = (False, c)"
  using end_counters [OF assms(3,4)] run_repos_count_all [OF assms(1,2)] by simp

lemma pool_matches_sequential_witness:
  "\<exists>c s' outs p. run_repos sample_targz (sample_runner []) sample_options [sample_repo ''x'' False True, sample_repo ''y'' False False]
       (new_counters 2, quiet_os []) = Some (c, s') \<and> k_synced c = 1 \<and>
     pool_run 3 (start_pool (zip [sample_repo ''x'' False True, sample_repo ''y'' False False] outs)) p \<and> finished p \<and> p_shared p = (False, c)"
proof -
  let ?rn = "sample_runner []" and ?repos = "[sample_repo ''x'' False True, sample_repo ''y'' False False]"
  let ?s = "quiet_os []"
  have "case run_repos sample_targz ?rn sample_options ?repos (new_counters 2, ?s) of Some (c, _) \<Rightarrow> k_synced c = 1 | None \<Rightarrow> False"
    by code_simp
  then obtain c s' where run: "run_repos sample_targz ?rn sample_options ?repos (new_counters (int (length ?repos)), ?s) = Some (c, s')"
    and sy: "k_synced c = 1" by (auto split: option.splits)
  have "sequential_outcomes sample_targz ?rn sample_options ?repos ?s \<noteq> None" by code_simp
  then obtain outs where outs: "sequential_outcomes sample_targz ?rn sample_options ?repos ?s = Some outs" by blast
  obtain p where p: "pool_run 3 (start_pool (zip ?repos outs)) p" "finished p"
  proof -
    have "pool_run 3 (start_pool (zip ?repos outs)) (idle [] (count_all (zip ?repos outs) (new_counters (int (length (zip ?repos outs))))))"
      unfolding start_is_idle by (rule sequential_schedule) simp
    then show thesis by (rule that) (simp add: finished_def idle_def)
  qed
  from pool_matches_sequential [OF run outs p] run sy p show ?thesis by auto
qed

end
