(* ===== verification/Json_Read.thy ===== *)
theory Json_Read
  imports Metadata
begin

text \<open>
  A reader for the exported files, after the JSON grammar (RFC 8259), and what it shows of the
  writer (\<open>metadata.go\<close>): a file that was written can be read back to the value it was written
  from, whatever the strings in it hold. The program has no such reader; it is the reference the
  round trips are stated with.
\<close>

section \<open>A reader of JSON\<close>

definition utf8 :: "nat \<Rightarrow> string" where
  "utf8 n =
     (if n < 128 then [char_of n]
      else if n < 2048 then [char_of (192 + n div 64), char_of (128 + n mod 64)]
      else [char_of (224 + n div 4096), char_of (128 + n div 64 mod 64), char_of (128 + n mod 64)])"

definition hex_value :: "char \<Rightarrow> nat" where
  "hex_value c = (let n = (of_char c :: nat) in if n < 58 then n - 48 else n - 87)"

definition hex4 :: "string \<Rightarrow> nat" where
  "hex4 s = foldl (\<lambda>n c. 16 * n + hex_value c) 0 s"

definition unescaped :: "char \<Rightarrow> char" where
  "unescaped c =
     (if c = CHR ''b'' then CHR 0x08 else if c = CHR ''f'' then CHR 0x0C else if c = CHR ''n'' then CHR 0x0A
      else if c = CHR ''r'' then CHR 0x0D else if c = CHR ''t'' then CHR 0x09 else c)"

fun read_chars :: "string \<Rightarrow> (string \<times> string) option" where
  "read_chars [] = None"
| "read_chars (c # s) =
     (if c = CHR 0x22 then Some ([], s)
      else if c = CHR 0x5C then
        (case s of
           [] \<Rightarrow> None
         | e # t \<Rightarrow>
             if e = CHR ''u'' then map_option (apfst ((@) (utf8 (hex4 (take 4 t))))) (read_chars (drop 4 t))
             else map_option (apfst ((#) (unescaped e))) (read_chars t))
      else map_option (apfst ((#) c)) (read_chars s))"

definition blank :: "char \<Rightarrow> bool" where
  "blank c \<longleftrightarrow> c \<in> {CHR 0x20, CHR 0x0A, CHR 0x0D, CHR 0x09}"

definition skip_blanks :: "string \<Rightarrow> string" where
  "skip_blanks s = dropWhile blank s"

definition is_digit :: "char \<Rightarrow> bool" where
  "is_digit c = (let n = (of_char c :: nat) in 48 \<le> n \<and> n \<le> 57)"

definition read_number :: "string \<Rightarrow> (json \<times> string) option" where
  "read_number s =
     (case s of
        [] \<Rightarrow> None
      | c # t \<Rightarrow>
          (let (neg, u) = (if c = CHR ''-'' then (True, t) else (False, s)); ds = takeWhile is_digit u in
           if ds = [] then None
           else Some (JNum (if neg then - int (read_nat ds) else int (read_nat ds)), dropWhile is_digit u)))"

definition read_word :: "string \<Rightarrow> json \<Rightarrow> string \<Rightarrow> (json \<times> string) option" where
  "read_word w v s = (if has_prefix s w then Some (v, drop (length w) s) else None)"

text \<open>The fuel bounds the number of values; a text holds fewer than it has characters.\<close>

fun read_value :: "nat \<Rightarrow> string \<Rightarrow> (json \<times> string) option"
  and read_items :: "nat \<Rightarrow> string \<Rightarrow> (json list \<times> string) option"
  and read_fields :: "nat \<Rightarrow> string \<Rightarrow> ((string \<times> json) list \<times> string) option"
where
  "read_value 0 s = None"
| "read_value (Suc n) s =
     (case skip_blanks s of
        [] \<Rightarrow> None
      | c # t \<Rightarrow>
          if c = CHR 0x22 then map_option (apfst JStr) (read_chars t)
          else if c = CHR ''['' then
            (if take 1 (skip_blanks t) = '']'' then Some (JArr [], drop 1 (skip_blanks t))
             else map_option (apfst JArr) (read_items n t))
          else if c = CHR ''{'' then
            (if take 1 (skip_blanks t) = ''}'' then Some (JObj [], drop 1 (skip_blanks t))
             else map_option (apfst JObj) (read_fields n t))
          else if c = CHR ''n'' then read_word ''null'' JNull (c # t)
          else if c = CHR ''t'' then read_word ''true'' (JBool True) (c # t)
          else if c = CHR ''f'' then read_word ''false'' (JBool False) (c # t)
          else read_number (c # t))"
| "read_items 0 s = None"
| "read_items (Suc n) s =
     (case read_value n s of
        None \<Rightarrow> None
      | Some (v, r) \<Rightarrow>
          (case skip_blanks r of
             [] \<Rightarrow> None
           | c # t \<Rightarrow>
               if c = CHR '']'' then Some ([v], t)
               else if c = CHR '','' then map_option (apfst ((#) v)) (read_items n t)
               else None))"
| "read_fields 0 s = None"
| "read_fields (Suc n) s =
     (case skip_blanks s of
        [] \<Rightarrow> None
      | c # t \<Rightarrow>
          (case (if c = CHR 0x22 then read_chars t else None) of
             None \<Rightarrow> None
           | Some (k, r) \<Rightarrow>
               (case skip_blanks r of
                  [] \<Rightarrow> None
                | c # t \<Rightarrow>
                    (case (if c = CHR '':'' then read_value n t else None) of
                       None \<Rightarrow> None
                     | Some (v, r) \<Rightarrow>
                         (case skip_blanks r of
                            [] \<Rightarrow> None
                          | c # t \<Rightarrow>
                              if c = CHR ''}'' then Some ([(k, v)], t)
                              else if c = CHR '','' then map_option (apfst ((#) (k, v))) (read_fields n t)
                              else None)))))"

definition read_json :: "string \<Rightarrow> json option" where
  "read_json s =
     (case read_value (Suc (length s)) s of
        None \<Rightarrow> None
      | Some (v, r) \<Rightarrow> if skip_blanks r = [] then Some v else None)"

section \<open>Strings\<close>

lemma hex_digit_value: "n < 16 \<Longrightarrow> hex_value (Json.hex_digit n) = n"
proof -
  assume "n < 16"
  moreover have "list_all (\<lambda>n. hex_value (Json.hex_digit n) = n) [0..<16]" by code_simp
  ultimately show ?thesis by (auto simp: list_all_iff)
qed

lemma hex4_byte: "n < 256 \<Longrightarrow> hex4 [CHR ''0'', CHR ''0'', Json.hex_digit (n div 16), Json.hex_digit (n mod 16)] = n"
  by (simp add: hex4_def hex_digit_value hex_value_def [of "CHR ''0''"])

lemma utf8_char: "(of_char c :: nat) < 128 \<Longrightarrow> utf8 (of_char c) = [c]"
  by (simp add: utf8_def)

lemma read_escaped: "read_chars (json_escape c @ t) = map_option (apfst ((#) c)) (read_chars t)"
proof -
  let ?n = "of_char c :: nat"
  have c: "c = char_of ?n" by simp
  have "?n < 256" by (cases c) simp
  consider "c = CHR 0x22 \<or> c = CHR 0x5C \<or> ?n \<in> {8, 12, 10, 13, 9}"
    | (long) "c \<noteq> CHR 0x22" "c \<noteq> CHR 0x5C" "?n \<notin> {8, 12, 10, 13, 9}" "?n < 32 \<or> c \<in> {CHR ''<'', CHR ''>'', CHR ''&''}"
    | (plain) "c \<noteq> CHR 0x22" "c \<noteq> CHR 0x5C" "?n \<notin> {8, 12, 10, 13, 9}" "\<not> (?n < 32 \<or> c \<in> {CHR ''<'', CHR ''>'', CHR ''&''})"
    by blast
  then show ?thesis
  proof cases
    case 1
    note code = of_char_eq_iff [where 'a = nat, of c]
    have "c \<in> {CHR 0x22, CHR 0x5C, CHR 0x08, CHR 0x0C, CHR 0x0A, CHR 0x0D, CHR 0x09}"
      using 1 code [of "CHR 0x08"] code [of "CHR 0x0C"] code [of "CHR 0x0A"] code [of "CHR 0x0D"] code [of "CHR 0x09"] by auto
    then show ?thesis by (auto simp: json_escape_def unescaped_def Let_def)
  next
    case long
    then have "?n < 128" by auto
    moreover have "(@) [c] = (#) c" by auto
    ultimately show ?thesis
      using long hex4_byte [of ?n] utf8_char [of c] by (simp add: json_escape_def Let_def)
  next
    case plain
    then show ?thesis by (auto simp: json_escape_def Let_def)
  qed
qed

lemma read_json_chars: "read_chars (json_chars s @ CHR 0x22 # t) = Some (s, t)"
proof (induction s rule: json_chars.induct)
  case (2 c s)
  show ?case
  proof (cases "line_separator (c # s)")
    case True
    then obtain a rest where s: "c = CHR 0xE2" "s = CHR 0x80 # a # rest" "a = CHR 0xA8 \<or> a = CHR 0xA9"
      by (cases "c # s" rule: line_separator.cases) auto
    have "utf8 (hex4 ''2028'') = [CHR 0xE2, CHR 0x80, CHR 0xA8]" "utf8 (hex4 ''2029'') = [CHR 0xE2, CHR 0x80, CHR 0xA9]"
      by (simp_all add: utf8_def hex4_def hex_value_def char_of_eq_iff)
    note bytes = this
    have "drop 2 s = rest" by (simp add: s(2))
    then have IH: "read_chars (json_chars rest @ CHR 0x22 # t) = Some (rest, t)" using 2(1) [OF True] by simp
    show ?thesis
    proof (cases "a = CHR 0xA8")
      case True
      then have "json_chars (c # s) = CHR 0x5C # ''u2028'' @ json_chars rest" by (simp add: s(1,2))
      then show ?thesis using bytes(1) by (simp add: IH s(1,2) True)
    next
      case False
      with s(3) have "json_chars (c # s) = CHR 0x5C # ''u2029'' @ json_chars rest" "a = CHR 0xA9" by (simp_all add: s(1,2))
      then show ?thesis using bytes(2) by (simp add: IH s(1,2))
    qed
  next
    case False
    with 2(2) [OF False] show ?thesis by (simp add: read_escaped)
  qed
qed simp


lemma read_json_string:
  obtains u where "json_string s @ t = CHR 0x22 # u" "read_chars u = Some (s, t)"
  using read_json_chars [of s t] by (auto simp: json_string_def)

section \<open>Numbers\<close>

lemma is_digit_show_nat: "list_all is_digit (show_nat n)"
  using show_nat_digits by (fastforce simp: list_all_iff is_digit_def Let_def)

text \<open>What may come after a value in a text, as far as a number is concerned.\<close>

definition ends_number :: "string \<Rightarrow> bool" where
  "ends_number t \<longleftrightarrow> (case t of [] \<Rightarrow> True | c # _ \<Rightarrow> \<not> is_digit c)"

lemma take_digits:
  assumes "list_all is_digit ds" "ends_number t"
  shows "takeWhile is_digit (ds @ t) = ds" "dropWhile is_digit (ds @ t) = t"
  using assms by (auto simp: takeWhile_append dropWhile_append list_all_iff ends_number_def split: list.splits)

lemma read_natural:
  assumes "ends_number t" "s = show_nat n @ t"
  shows "takeWhile is_digit s = show_nat n" "dropWhile is_digit s = t" "take 1 s \<noteq> ''-''"
proof -
  have "hd (show_nat n) \<in> set (show_nat n)" by simp
  then have "is_digit (hd (show_nat n))" using is_digit_show_nat [of n] by (simp only: list_all_iff)
  then show "take 1 s \<noteq> ''-''" unfolding assms(2) by (cases "show_nat n") (auto simp: is_digit_def)
qed (simp_all add: assms take_digits [OF is_digit_show_nat])

lemma read_itoa:
  assumes "ends_number t"
  shows "read_number (itoa i @ t) = Some (JNum i, t)"
proof (cases "i < 0")
  case True
  with read_natural [OF assms refl, of "nat (- i)"] read_show_nat [of "nat (- i)"] show ?thesis
    by (simp add: itoa_def read_number_def)
next
  case False
  let ?s = "show_nat (nat i) @ t"
  obtain c u where s: "?s = c # u" by (cases ?s) simp_all
  note digits = read_natural [OF assms refl, of "nat i"]
  have "c \<noteq> CHR ''-''" using digits(3) by (simp add: s)
  then have "read_number ?s = Some (JNum (int (read_nat (show_nat (nat i)))), t)"
    using digits(1,2) by (simp add: read_number_def s)
  with read_show_nat [of "nat i"] False show ?thesis by (simp add: itoa_def)
qed


section \<open>Values\<close>

lemma marshal_fields_map:
  "marshal_fields d fs = map (\<lambda>(k, v). newline d @ json_string k @ '': '' @ marshal d v) fs"
  by (induction fs) auto

lemma blank_newline [simp]: "list_all blank (newline d)"
  by (auto simp: newline_def blank_def list_all_iff)

lemma skip_newline [simp]: "skip_blanks (newline d @ s) = skip_blanks s"
  using blank_newline [of d] by (simp add: skip_blanks_def list_all_iff dropWhile_append2)

lemma skip_nonblank: "\<not> blank c \<Longrightarrow> skip_blanks (c # s) = c # s"
  by (simp add: skip_blanks_def)

lemma nonblank_syntax [simp]:
  "\<not> blank CHR 0x22" "\<not> blank CHR ''[''" "\<not> blank CHR '']''" "\<not> blank CHR ''{''" "\<not> blank CHR ''}''"
  "\<not> blank CHR '',''" "\<not> blank CHR '':''" "\<not> blank CHR ''n''" "\<not> blank CHR ''t''" "\<not> blank CHR ''f''"
  by (simp_all add: blank_def)

lemma ends_number_simps [simp]: "ends_number []" "ends_number (newline d @ s)" "ends_number (CHR '','' # s)"
  by (simp_all add: ends_number_def newline_def is_digit_def)

lemma read_value_newline [simp]: "read_value n (newline d @ s) = read_value n s"
  by (cases n) simp_all

lemma read_value_space [simp]: "read_value n (CHR '' '' # s) = read_value n s"
  by (cases n) (simp_all add: skip_blanks_def blank_def)

lemma itoa_first:
  obtains c u where "itoa i @ t = c # u" "\<not> blank c" "c \<notin> set ''{}[],:ntf''" "c \<noteq> CHR 0x22"
proof -
  obtain c u where i: "itoa i = c # u" by (cases "itoa i") simp_all
  with itoa_chars [of c i] have "c = CHR ''-'' \<or> (of_char c :: nat) \<in> {48..57}" by simp
  then have "\<not> blank c" "c \<notin> set ''{}[],:ntf''" "c \<noteq> CHR 0x22" by (auto simp: blank_def)
  with i that show ?thesis by simp
qed

text \<open>A value starts with a character that no list or object goes on with.\<close>

lemma marshal_first: "\<exists>c u. marshal d v @ t = c # u \<and> \<not> blank c \<and> c \<noteq> CHR '']''"
proof (cases v)
  case (JNum i)
  obtain c u where "itoa i @ t = c # u" "\<not> blank c" "c \<notin> set ''{}[],:ntf''" by (rule itoa_first)
  with JNum show ?thesis by auto
qed (auto simp: json_string_def)

lemma not_closing [simp]: "take (Suc 0) (skip_blanks (marshal d v @ t)) \<noteq> '']''"
  using marshal_first [of d v t] by (auto simp: skip_nonblank)

fun weight :: "json \<Rightarrow> nat" where
  "weight (JArr xs) = 1 + sum_list (map (\<lambda>x. 1 + weight x) xs)"
| "weight (JObj fs) = 1 + sum_list (map (\<lambda>f. 1 + weight (snd f)) fs)"
| "weight v = 1"


definition reads_back :: "json \<Rightarrow> bool" where
  "reads_back v \<longleftrightarrow> (\<forall>d n t. weight v \<le> n \<longrightarrow> ends_number t \<longrightarrow> read_value n (marshal d v @ t) = Some (v, t))"

lemma reads_backD: "reads_back v \<Longrightarrow> weight v \<le> n \<Longrightarrow> ends_number t \<Longrightarrow> read_value n (marshal d v @ t) = Some (v, t)"
  by (simp add: reads_back_def)

lemma read_items_back:
  assumes "list_all reads_back xs" "xs \<noteq> []" "sum_list (map (\<lambda>x. 1 + weight x) xs) \<le> n"
  shows "read_items n (join_with '','' (map (\<lambda>x. newline d @ marshal d x) xs) @ newline d' @ '']'' @ t) = Some (xs, t)"
  using assms
proof (induction xs arbitrary: n)
  case (Cons x xs)
  then obtain m where n: "n = Suc m" by (cases n) auto
  note x = reads_backD [of x m _ d]
  show ?case
  proof (cases xs)
    case Nil
    with Cons.prems x [of "newline d' @ '']'' @ t"] show ?thesis by (simp add: n skip_nonblank)
  next
    case (Cons y ys)
    let ?rest = "join_with '','' (map (\<lambda>x. newline d @ marshal d x) xs) @ newline d' @ '']'' @ t"
    have "read_items m ?rest = Some (xs, t)" using Cons.IH [of m] Cons.prems n Cons by simp
    moreover have "read_value m (marshal d x @ '','' @ ?rest) = Some (x, '','' @ ?rest)"
      using x [of "'','' @ ?rest"] Cons.prems n by simp
    ultimately show ?thesis by (simp add: n Cons skip_nonblank)
  qed
qed simp


lemma read_field_step:
  assumes "reads_back v" "weight v \<le> n" "ends_number t" "skip_blanks t = c # u"
  shows "read_fields (Suc n) (newline d @ json_string k @ '': '' @ marshal d v @ t) =
    (if c = CHR ''}'' then Some ([(k, v)], u) else if c = CHR '','' then map_option (apfst ((#) (k, v))) (read_fields n u) else None)"
proof -
  obtain w where w: "json_string k @ '': '' @ marshal d v @ t = CHR 0x22 # w" "read_chars w = Some (k, '': '' @ marshal d v @ t)"
    by (rule read_json_string)
  have "skip_blanks ('': '' @ marshal d v @ t) = '': '' @ marshal d v @ t" by (simp add: skip_nonblank)
  with reads_backD [OF assms(1-3)] assms(4) w(2) show ?thesis unfolding w(1) by (simp add: skip_nonblank)
qed

lemma read_fields_back:
  assumes "list_all (\<lambda>f. reads_back (snd f)) fs" "fs \<noteq> []" "sum_list (map (\<lambda>f. 1 + weight (snd f)) fs) \<le> n"
  shows "read_fields n (join_with '','' (marshal_fields d fs) @ newline d' @ ''}'' @ t) = Some (fs, t)"
  using assms
proof (induction fs arbitrary: n)
  case (Cons f fs)
  then obtain m where n: "n = Suc m" by (cases n) auto
  obtain k v where f: "f = (k, v)" by (cases f)
  have v: "reads_back v" "weight v \<le> m" using Cons.prems n f by simp_all
  note step = read_field_step [OF v, of _ _ _ d k]
  show ?case
  proof (cases fs)
    case Nil
    with step [of "newline d' @ ''}'' @ t" "CHR ''}''" t] show ?thesis by (simp add: n f skip_nonblank)
  next
    case (Cons g gs)
    let ?rest = "join_with '','' (marshal_fields d fs) @ newline d' @ ''}'' @ t"
    have "read_fields m ?rest = Some (fs, t)" using Cons.IH [of m] Cons.prems n Cons by simp
    moreover obtain y ys where "marshal_fields d fs = y # ys" using Cons by (cases "marshal_fields d fs") (auto simp: marshal_fields_map)
    ultimately show ?thesis using step [of "'','' @ ?rest" "CHR '',''" ?rest] by (simp add: n f skip_nonblank)
  qed
qed simp

lemma reads_back: "reads_back v"
proof (induction v)
  case JNull
  show ?case by (auto simp: reads_back_def skip_nonblank read_word_def has_prefix_def Suc_le_eq gr0_conv_Suc)
next
  case (JBool b)
  show ?case by (auto simp: reads_back_def skip_nonblank read_word_def has_prefix_def Suc_le_eq gr0_conv_Suc)
next
  case (JNum i)
  show ?case unfolding reads_back_def
  proof (intro allI impI)
    fix d n t assume n: "weight (JNum i) \<le> n" and t: "ends_number t"
    then obtain m where m: "n = Suc m" by (cases n) auto
    obtain c u where i: "itoa i @ t = c # u" "\<not> blank c" "c \<notin> set ''{}[],:ntf''" "c \<noteq> CHR 0x22" by (rule itoa_first)
    with read_itoa [OF t, of i] show "read_value n (marshal d (JNum i) @ t) = Some (JNum i, t)"
      by (simp add: m skip_nonblank)
  qed
next
  case (JStr x)
  show ?case unfolding reads_back_def
  proof (intro allI impI)
    fix d n t assume "weight (JStr x) \<le> n"
    then obtain m where m: "n = Suc m" by (cases n) auto
    obtain u where "json_string x @ t = CHR 0x22 # u" "read_chars u = Some (x, t)" by (rule read_json_string)
    then show "read_value n (marshal d (JStr x) @ t) = Some (JStr x, t)" by (simp add: m skip_nonblank)
  qed
next
  case (JArr xs)
  then have xs: "list_all reads_back xs" by (simp add: list_all_iff)
  show ?case unfolding reads_back_def
  proof (intro allI impI)
    fix d n t assume "weight (JArr xs) \<le> n"
    then obtain m where m: "n = Suc m" "sum_list (map (\<lambda>x. 1 + weight x) xs) \<le> m" by (cases n) auto
    show "read_value n (marshal d (JArr xs) @ t) = Some (JArr xs, t)"
    proof (cases xs)
      case Nil
      then show ?thesis by (simp add: m(1) skip_nonblank)
    next
      case (Cons y ys)
      obtain w where "join_with '','' (map (\<lambda>x. newline (Suc d) @ marshal (Suc d) x) xs) = newline (Suc d) @ marshal (Suc d) y @ w"
        by (cases ys) (auto simp: Cons)
      with read_items_back [OF xs _ m(2), of "Suc d" d t] Cons show ?thesis by (simp add: m(1) skip_nonblank)
    qed
  qed
next
  case (JObj fs)
  then have fs: "list_all (\<lambda>f. reads_back (snd f)) fs" by (auto simp: list_all_iff)
  show ?case unfolding reads_back_def
  proof (intro allI impI)
    fix d n t assume "weight (JObj fs) \<le> n"
    then obtain m where m: "n = Suc m" "sum_list (map (\<lambda>f. 1 + weight (snd f)) fs) \<le> m" by (cases n) auto
    show "read_value n (marshal d (JObj fs) @ t) = Some (JObj fs, t)"
    proof (cases fs)
      case Nil
      then show ?thesis by (simp add: m(1) skip_nonblank)
    next
      case (Cons g gs)
      obtain w where "join_with '','' (marshal_fields (Suc d) fs) = newline (Suc d) @ CHR 0x22 # w"
        by (cases gs; cases g) (auto simp: Cons json_string_def)
      with read_fields_back [OF fs _ m(2), of "Suc d" d t] Cons show ?thesis by (simp add: m(1) skip_nonblank)
    qed
  qed
qed


text \<open>The text holds enough characters for the fuel.\<close>

lemma length_join: "sum_list (map length ws) \<le> length (join_with sep ws)"
  by (induction sep ws rule: join_with.induct) auto

lemma length_itoa: "0 < length (itoa i)"
  by simp

lemma weight_length: "weight v \<le> length (marshal d v)"
proof (induction v arbitrary: d)
  case (JNum i)
  then show ?case using length_itoa [of i] by (simp del: length_greater_0_conv)
next
  case (JArr xs)
  let ?ws = "map (\<lambda>x. newline (Suc d) @ marshal (Suc d) x) xs"
  have "sum_list (map (\<lambda>x. 1 + weight x) xs) \<le> sum_list (map length ?ws)"
    unfolding map_map by (rule sum_list_mono) (auto simp: newline_def dest!: JArr.IH [of _ "Suc d"])
  with length_join [of ?ws "'',''"] show ?case by auto
next
  case (JObj fs)
  let ?ws = "marshal_fields (Suc d) fs"
  have IH: "weight v \<le> length (marshal (Suc d) v)" if "(k, v) \<in> set fs" for k v
    using JObj.IH [of "(k, v)" v "Suc d"] that by simp
  have "sum_list (map (\<lambda>f. 1 + weight (snd f)) fs) \<le> sum_list (map length ?ws)"
    unfolding marshal_fields_map map_map
    by (rule sum_list_mono) (auto simp: newline_def dest!: IH)
  with length_join [of ?ws "'',''"] show ?case by auto
qed (simp_all add: json_string_def)

lemma read_json_back: "read_json (MarshalIndent v) = Some v"
proof -
  have "read_value (Suc (length (MarshalIndent v))) (MarshalIndent v @ []) = Some (v, [])"
    unfolding MarshalIndent_def
    by (rule reads_backD [OF reads_back]) (use weight_length [of v 0] in simp_all)
  then show ?thesis by (simp add: read_json_def skip_blanks_def)
qed


section \<open>The exported records\<close>

definition read_comment :: "json \<Rightarrow> comment option" where
  "read_comment = dec_struct (\<lambda>fs. do {
     a \<leftarrow> dec_field ''author'' dec_string fs;
     b \<leftarrow> dec_field ''body'' dec_string fs;
     ca \<leftarrow> dec_field ''created_at'' dec_string fs;
     Some \<lparr>c_author = a, c_body = b, c_created_at = ca\<rparr> })"

definition read_issue :: "json \<Rightarrow> issue option" where
  "read_issue = dec_struct (\<lambda>fs. do {
     n \<leftarrow> dec_field ''number'' dec_int fs;
     t \<leftarrow> dec_field ''title'' dec_string fs;
     b \<leftarrow> dec_field ''body'' dec_string fs;
     a \<leftarrow> dec_field ''author'' dec_string fs;
     st \<leftarrow> dec_field ''state'' dec_string fs;
     ls \<leftarrow> dec_field ''labels'' (dec_slice dec_string) fs;
     ca \<leftarrow> dec_field ''created_at'' dec_string fs;
     ua \<leftarrow> dec_field ''updated_at'' dec_string fs;
     cl \<leftarrow> dec_field ''closed_at'' (dec_ptr dec_string) fs;
     cs \<leftarrow> dec_field ''comments'' (dec_slice read_comment) fs;
     Some \<lparr>i_number = n, i_title = t, i_body = b, i_author = a, i_state = st, i_labels = ls, i_created_at = ca,
           i_updated_at = ua, i_closed_at = cl, i_comments = cs\<rparr> })"

definition read_review_comment :: "json \<Rightarrow> review_comment option" where
  "read_review_comment = dec_struct (\<lambda>fs. do {
     a \<leftarrow> dec_field ''author'' dec_string fs;
     b \<leftarrow> dec_field ''body'' dec_string fs;
     ca \<leftarrow> dec_field ''created_at'' dec_string fs;
     f \<leftarrow> dec_field ''file'' dec_string fs;
     l \<leftarrow> dec_field ''line'' dec_int fs;
     Some \<lparr>rc_author = a, rc_body = b, rc_created_at = ca, rc_file = f, rc_line = l\<rparr> })"

definition read_pull_request :: "json \<Rightarrow> pull_request option" where
  "read_pull_request = dec_struct (\<lambda>fs. do {
     n \<leftarrow> dec_field ''number'' dec_int fs;
     t \<leftarrow> dec_field ''title'' dec_string fs;
     b \<leftarrow> dec_field ''body'' dec_string fs;
     a \<leftarrow> dec_field ''author'' dec_string fs;
     st \<leftarrow> dec_field ''state'' dec_string fs;
     sb \<leftarrow> dec_field ''source_branch'' dec_string fs;
     tb \<leftarrow> dec_field ''target_branch'' dec_string fs;
     ca \<leftarrow> dec_field ''created_at'' dec_string fs;
     ua \<leftarrow> dec_field ''updated_at'' dec_string fs;
     cl \<leftarrow> dec_field ''closed_at'' (dec_ptr dec_string) fs;
     me \<leftarrow> dec_field ''merged_at'' (dec_ptr dec_string) fs;
     cs \<leftarrow> dec_field ''comments'' (dec_slice read_review_comment) fs;
     Some \<lparr>pr_number = n, pr_title = t, pr_body = b, pr_author = a, pr_state = st, pr_source_branch = sb,
           pr_target_branch = tb, pr_created_at = ca, pr_updated_at = ua, pr_closed_at = cl, pr_merged_at = me, pr_comments = cs\<rparr> })"

lemma read_slice: "(\<And>x. d (enc x) = Some x) \<Longrightarrow> dec_slice d (json_slice enc v) = Some v"
proof (cases v)
  case (Some xs)
  assume "\<And>x. d (enc x) = Some x"
  then have "those (map d (map enc xs)) = Some xs" by (induction xs) simp_all
  with Some show ?thesis by (simp add: json_slice_def)
qed (simp add: json_slice_def)

lemma read_comment_back: "read_comment (comment_json c) = Some c"
  by (cases c) (simp add: read_comment_def comment_json_def dec_field_def)

lemma read_review_comment_back: "read_review_comment (review_comment_json c) = Some c"
  by (cases c) (simp add: read_review_comment_def review_comment_json_def dec_field_def)

lemma read_issue_back: "read_issue (issue_json i) = Some i"
proof -
  have "dec_slice dec_string (json_slice JStr v) = Some v" for v by (rule read_slice) simp
  with read_slice [OF read_comment_back] show ?thesis
    by (cases i) (simp add: read_issue_def issue_json_def dec_field_def omit_nil_def dec_ptr_def split: option.split)
qed

lemma read_pull_request_back: "read_pull_request (pull_request_json p) = Some p"
  using read_slice [OF read_review_comment_back]
  by (cases p) (simp add: read_pull_request_def pull_request_json_def dec_field_def omit_nil_def dec_ptr_def split: option.split)

text \<open>C17:
  An exported issue is not lost in its file: when \<open>WriteIssue\<close> succeeds, reading the file by the JSON
  grammar gives the issue back, every field and comment of it, whatever characters its texts
  hold; only a nil comment list has become an empty one.
\<close>

theorem exported_issue_reads_back:
  assumes "WriteIssue dir i s = (Inr (), s')"
  shows "\<exists>text. look s' (numbered_file dir (i_number i) s) = Some (File text) \<and>
     Option.bind (read_json text) read_issue = Some (full_issue i)"
proof -
  have "sys_write_file (numbered_file dir (i_number i) s) (MarshalIndent (issue_json (full_issue i))) s = (Inr (), s')"
    using assms by (auto simp: WriteIssue_alt split: prod.splits sum.splits)
  from write_file_look(2) [OF this] show ?thesis by (simp add: read_json_back read_issue_back)
qed

definition tricky_issue :: issue where
  "tricky_issue = \<lparr>i_number = -7, i_title = [CHR 0x22, CHR 0x5C, CHR 0x01, CHR ''<''], i_body = [CHR 0xE2, CHR 0x80, CHR 0xA8], i_author = ''me'',
     i_state = ''open'', i_labels = None, i_created_at = ''t'', i_updated_at = ''u'', i_closed_at = None, i_comments = None\<rparr>"

lemma exported_issue_reads_back_witness:
  "\<exists>s' text. WriteIssue ''m'' tricky_issue (quiet_os [([''w'', ''m''], Dir)]) = (Inr (), s') \<and>
     look s' [''w'', ''m'', ''-7.json''] = Some (File text) \<and>
     Option.bind (read_json text) read_issue = Some (tricky_issue\<lparr>i_comments := Some []\<rparr>)"
proof -
  let ?s = "quiet_os [([''w'', ''m''], Dir)]"
  have "case WriteIssue ''m'' tricky_issue ?s of (Inr (), s') \<Rightarrow> True | (Inl e, s') \<Rightarrow> False" by code_simp
  then obtain s' where w: "WriteIssue ''m'' tricky_issue ?s = (Inr (), s')" by (auto split: prod.splits sum.splits)
  have "numbered_file ''m'' (i_number tricky_issue) ?s = [''w'', ''m'', ''-7.json'']" by code_simp
  with exported_issue_reads_back [OF w] w show ?thesis by (auto simp: full_issue_def tricky_issue_def)
qed

text \<open>C18:
  An exported pull request is not lost in its file either: reading the file gives it back with its
  dates, its branches and its review comments, even the file and line that are left out when empty.
\<close>

theorem exported_pull_request_reads_back:
  assumes "WritePullRequest dir p s = (Inr (), s')"
  shows "\<exists>text. look s' (numbered_file dir (pr_number p) s) = Some (File text) \<and>
     Option.bind (read_json text) read_pull_request = Some (full_pull_request p)"
proof -
  have "sys_write_file (numbered_file dir (pr_number p) s) (MarshalIndent (pull_request_json (full_pull_request p))) s = (Inr (), s')"
    using assms by (auto simp: WritePullRequest_alt split: prod.splits sum.splits)
  from write_file_look(2) [OF this] show ?thesis by (simp add: read_json_back read_pull_request_back)
qed

definition sample_pull_request :: pull_request where
  "sample_pull_request = \<lparr>pr_number = 3, pr_title = ''t'', pr_body = [], pr_author = ''me'', pr_state = ''closed'', pr_source_branch = ''a'',
     pr_target_branch = ''b'', pr_created_at = ''t'', pr_updated_at = ''u'', pr_closed_at = Some ''c'', pr_merged_at = None,
     pr_comments = Some [\<lparr>rc_author = ''x'', rc_body = ''y'', rc_created_at = ''z'', rc_file = [], rc_line = 0\<rparr>,
       \<lparr>rc_author = ''x'', rc_body = ''y'', rc_created_at = ''z'', rc_file = ''f'', rc_line = 12\<rparr>]\<rparr>"

lemma exported_pull_request_reads_back_witness:
  "\<exists>s' text. WritePullRequest ''m'' sample_pull_request (quiet_os [([''w'', ''m''], Dir)]) = (Inr (), s') \<and>
     look s' [''w'', ''m'', ''3.json''] = Some (File text) \<and>
     Option.bind (read_json text) read_pull_request = Some sample_pull_request"
proof -
  let ?s = "quiet_os [([''w'', ''m''], Dir)]"
  have "case WritePullRequest ''m'' sample_pull_request ?s of (Inr (), s') \<Rightarrow> True | (Inl e, s') \<Rightarrow> False" by code_simp
  then obtain s' where w: "WritePullRequest ''m'' sample_pull_request ?s = (Inr (), s')" by (auto split: prod.splits sum.splits)
  have "numbered_file ''m'' (pr_number sample_pull_request) ?s = [''w'', ''m'', ''3.json'']" by code_simp
  with exported_pull_request_reads_back [OF w] w show ?thesis by (auto simp: full_pull_request_def sample_pull_request_def)
qed

end
