(* ===== verification/Config.thy ===== *)
theory Config
  imports Mirror
begin

text \<open>
  The configuration file (\<open>config.go\<close>): reading it, validating every forge and resolving its
  token. The YAML parser is outside the repository: it is a parameter that decodes the file
  into the struct or fails. The shell a \<open>token_command\<close> runs in is a \<open>tool\<close> that works on the
  whole file system.
\<close>

record forge_config =
  fg_Name :: string
  fg_Kind :: string
  fg_URL :: string
  fg_TokenEnv :: string
  fg_TokenLiteral :: string
  fg_TokenCommand :: string
  fg_Token :: string
  fg_SkipMirrors :: bool

record config =
  cf_Dest :: string
  cf_Forges :: "forge_config list"

type_synonym yaml_parser = "string \<Rightarrow> config option"

definition knownForgeKinds :: "string list" where
  "knownForgeKinds = [''forgejo'', ''gitlab'', ''github'']"

text \<open>\<open>os.ReadFile\<close> and \<open>os.LookupEnv\<close>. No path the program reads is a symbolic link here.\<close>

definition sys_read_file :: "fpath \<Rightarrow> os \<Rightarrow> oserr + string" where
  "sys_read_file p s =
     (case fault s (SysOpen p) of
        Some e \<Rightarrow> Inl e
      | None \<Rightarrow>
          (case look s p of
             None \<Rightarrow> Inl (absent_err s p)
           | Some n \<Rightarrow>
               (case fault s (SysRead p) of
                  Some e \<Rightarrow> Inl e
                | None \<Rightarrow> (case n of File d \<Rightarrow> Inr d | _ \<Rightarrow> Inl EISDIR))))"

definition lookup_env :: "string \<Rightarrow> os \<Rightarrow> string option" where
  "lookup_env key s =
     (if key = [] \<or> CHR ''='' \<in> set key then None
      else (case find (\<lambda>kv. has_prefix kv (key @ ''='')) (m_environ (os_mach s)) of
              None \<Rightarrow> None
            | Some kv \<Rightarrow> Some (drop (length key + 1) kv)))"

section \<open>Tokens\<close>

definition runTokenCommand :: "tool \<Rightarrow> string \<Rightarrow> os \<Rightarrow> (err + string) \<times> os" where
  "runTokenCommand shell command s =
     (case exec_in shell \<lparr>c_prog = ''sh'', c_args = [''-c'', command], c_dir = [], c_env = m_environ (os_mach s)\<rparr> [] s of
        (r, s1) \<Rightarrow>
          (case cmd_error r of
             Some e \<Rightarrow> (Inl (ErrTokenCommandFailed command), s1)
           | None \<Rightarrow> (Inr (trim_suffix (cmd_output r) [CHR 0x0A]), s1)))"

definition resolveToken :: "tool \<Rightarrow> forge_config \<Rightarrow> os \<Rightarrow> (err + string) \<times> os" where
  "resolveToken shell f s =
     (if fg_TokenCommand f \<noteq> [] then runTokenCommand shell (fg_TokenCommand f) s
      else if fg_TokenLiteral f \<noteq> [] \<and> fg_TokenEnv f \<noteq> [] then (Inl ErrAmbiguousToken, s)
      else if fg_TokenLiteral f \<noteq> [] then (Inr (fg_TokenLiteral f), s)
      else (case lookup_env (fg_TokenEnv f) s of
              None \<Rightarrow> (Inl (ErrMissingToken (fg_TokenEnv f)), s)
            | Some t \<Rightarrow> (Inr t, s)))"

section \<open>Loading\<close>

text \<open>The loop over the forges, each of which gets its token or ends the load.\<close>

definition load_forge :: "tool \<Rightarrow> forge_config \<Rightarrow> os \<Rightarrow> (err + forge_config) \<times> os" where
  "load_forge shell f s =
     (let ctx = ''forge '' @ fg_Name f in
      if fg_Kind f \<notin> set knownForgeKinds then (Inl (Wrap ctx (UnknownKindError (fg_Kind f))), s)
      else (case resolveToken shell f s of
              (Inl e, s1) \<Rightarrow> (Inl (Wrap ctx e), s1)
            | (Inr t, s1) \<Rightarrow> (Inr (f\<lparr>fg_Token := t\<rparr>), s1)))"

definition LoadConfig :: "yaml_parser \<Rightarrow> tool \<Rightarrow> string \<Rightarrow> os \<Rightarrow> (err + config) \<times> os" where
  "LoadConfig yaml shell path s =
     (case sys_read_file (at_path s path) s of
        Inl e \<Rightarrow> (Inl (Wrap ''load config'' (OsErr e)), s)
      | Inr data \<Rightarrow>
          (case yaml data of
             None \<Rightarrow> (Inl (Wrap ''load config'' YamlError), s)
           | Some cfg \<Rightarrow>
               (case collect_each (load_forge shell) (cf_Forges cfg) s of
                  (Inl e, s1) \<Rightarrow> (Inl e, s1)
                | (Inr forges, s1) \<Rightarrow> (Inr (cfg\<lparr>cf_Forges := forges\<rparr>), s1))))"

section \<open>What a loaded configuration holds\<close>

lemma collect_each_all:
  assumes "collect_each f xs s = (Inr ys, s')" "\<And>x s y s'. x \<in> set xs \<Longrightarrow> f x s = (Inr y, s') \<Longrightarrow> P x y"
  shows "list_all2 P xs ys"
  using assms
proof (induction xs arbitrary: s ys)
  case (Cons x xs)
  then obtain y s1 zs where f: "f x s = (Inr y, s1)" and rest: "collect_each f xs s1 = (Inr zs, s')" and ys: "ys = y # zs"
    by (auto split: sum.splits prod.splits)
  have "list_all2 P xs zs" by (rule Cons.IH [OF rest]) (use Cons.prems(2) in auto)
  with Cons.prems(2) [OF _ f] ys show ?case by simp
qed simp

text \<open>
  What \<open>LoadConfig\<close> guarantees of an entry and its loaded form: a known kind, one source of
  the token that is not ambiguous, and nothing else changed.
\<close>

definition loaded_from :: "os \<Rightarrow> forge_config \<Rightarrow> forge_config \<Rightarrow> bool" where
  "loaded_from s f g \<longleftrightarrow>
     fg_Kind f \<in> set knownForgeKinds \<and> g\<lparr>fg_Token := fg_Token f\<rparr> = f \<and>
     (fg_TokenCommand f \<noteq> [] \<or>
      (if fg_TokenLiteral f \<noteq> [] then fg_TokenEnv f = [] \<and> fg_Token g = fg_TokenLiteral f
       else lookup_env (fg_TokenEnv f) s = Some (fg_Token g)))"

lemma loaded_from_fields:
  assumes "loaded_from s f g"
  shows "fg_Name g = fg_Name f" "fg_Kind g = fg_Kind f" "fg_URL g = fg_URL f" "fg_SkipMirrors g = fg_SkipMirrors f"
  using assms by (cases f; cases g; simp add: loaded_from_def)+

lemma runTokenCommand_mach: "runTokenCommand shell c s = (r, s') \<Longrightarrow> os_mach s' = os_mach s"
  by (auto simp: runTokenCommand_def exec_in_def graft_def record_cmd_def split: prod.splits option.splits)

lemma resolveToken_mach: "resolveToken shell f s = (r, s') \<Longrightarrow> os_mach s' = os_mach s"
  by (auto simp: resolveToken_def dest: runTokenCommand_mach split: if_splits option.splits)

lemma load_forge_mach: "load_forge shell f s = (r, s') \<Longrightarrow> os_mach s' = os_mach s"
  by (auto simp: load_forge_def Let_def dest: resolveToken_mach split: if_splits sum.splits prod.splits)

lemma lookup_env_cong: "os_mach s' = os_mach s \<Longrightarrow> lookup_env k s' = lookup_env k s"
  by (simp add: lookup_env_def)

lemma load_forge_ok: "load_forge shell f s = (Inr g, s') \<Longrightarrow> loaded_from s f g"
  by (auto simp: load_forge_def loaded_from_def resolveToken_def Let_def split: if_splits sum.splits prod.splits option.splits)

lemma load_forges_ok:
  "collect_each (load_forge shell) fs s = (Inr gs, s') \<Longrightarrow> list_all2 (loaded_from s) fs gs"
proof (induction fs arbitrary: s gs)
  case (Cons f fs)
  then obtain g s1 hs where f: "load_forge shell f s = (Inr g, s1)" and rest: "collect_each (load_forge shell) fs s1 = (Inr hs, s')"
    and gs: "gs = g # hs"
    by (auto split: sum.splits prod.splits)
  have "loaded_from s1 = loaded_from s"
    using lookup_env_cong [OF load_forge_mach [OF f]] by (simp add: loaded_from_def fun_eq_iff)
  with Cons.IH [OF rest] load_forge_ok [OF f] gs show ?case by simp
qed simp

lemma LoadConfig_ok:
  assumes "LoadConfig yaml shell path s = (Inr cfg, s')"
  obtains data raw where "sys_read_file (at_path s path) s = Inr data" "yaml data = Some raw"
    "cf_Dest cfg = cf_Dest raw" "list_all2 (loaded_from s) (cf_Forges raw) (cf_Forges cfg)"
  using assms load_forges_ok
  by (auto simp: LoadConfig_def split: sum.splits prod.splits option.splits)

text \<open>C32:
  A configuration that loads is the file's, entry by entry: every forge has a kind the program
  supports, and a token that is its literal (then it names no variable), or else the value
  of the environment variable it names, unless a command produced it. So a missing variable,
  both sources at once or an unknown kind end the run before it starts.
\<close>

theorem LoadConfig_validates:
  assumes "LoadConfig yaml shell path s = (Inr cfg, s')"
  shows "\<exists>data raw. sys_read_file (at_path s path) s = Inr data \<and> yaml data = Some raw \<and> cf_Dest cfg = cf_Dest raw \<and>
     list_all2 (loaded_from s) (cf_Forges raw) (cf_Forges cfg)"
  using assms by (rule LoadConfig_ok) blast

definition sample_forge_config :: "string \<Rightarrow> string \<Rightarrow> string \<Rightarrow> string \<Rightarrow> string \<Rightarrow> forge_config" where
  "sample_forge_config name kind env lit cmd =
     \<lparr>fg_Name = name, fg_Kind = kind, fg_URL = ''https://x'', fg_TokenEnv = env, fg_TokenLiteral = lit, fg_TokenCommand = cmd,
      fg_Token = [], fg_SkipMirrors = False\<rparr>"

definition sample_config :: config where
  "sample_config = \<lparr>cf_Dest = ''/b'', cf_Forges =
     [sample_forge_config ''a'' ''gitlab'' ''PATH'' [] [], sample_forge_config ''b'' ''github'' [] ''lit'' [],
      sample_forge_config ''c'' ''forgejo'' ''X'' ''y'' ''pass show c'']\<rparr>"

definition sample_shell :: tool where
  "sample_shell c t = (Exited 0 (''s3cret'' @ [CHR 0x0A]), t)"

lemma LoadConfig_validates_witness:
  "\<exists>cfg s'. LoadConfig (\<lambda>_. Some sample_config) sample_shell ''c.yaml'' (quiet_os [([''w'', ''c.yaml''], File ''x'')]) = (Inr cfg, s') \<and>
     map fg_Token (cf_Forges cfg) = [''/bin'', ''lit'', ''s3cret''] \<and> map fg_Kind (cf_Forges cfg) = [''gitlab'', ''github'', ''forgejo'']"
proof -
  let ?s = "quiet_os [([''w'', ''c.yaml''], File ''x'')]"
  have "case LoadConfig (\<lambda>_. Some sample_config) sample_shell ''c.yaml'' ?s of
      (Inl e, s') \<Rightarrow> False | (Inr cfg, s') \<Rightarrow> fg_Token (cf_Forges cfg ! 2) = ''s3cret'' \<and> length (cf_Forges cfg) = 3"
    by code_simp
  then obtain cfg s' where run: "LoadConfig (\<lambda>_. Some sample_config) sample_shell ''c.yaml'' ?s = (Inr cfg, s')"
    and third: "fg_Token (cf_Forges cfg ! 2) = ''s3cret''" "length (cf_Forges cfg) = 3"
    by (auto split: prod.splits sum.splits)
  have env: "lookup_env ''PATH'' ?s = Some ''/bin''" by code_simp
  let ?f = "sample_forge_config ''a'' ''gitlab'' ''PATH'' [] []" and ?g = "sample_forge_config ''b'' ''github'' [] ''lit'' []"
    and ?h = "sample_forge_config ''c'' ''forgejo'' ''X'' ''y'' ''pass show c''"
  from LoadConfig_validates [OF run] have "list_all2 (loaded_from ?s) [?f, ?g, ?h] (cf_Forges cfg)" by (auto simp: sample_config_def)
  then obtain g1 g2 g3 where gs: "cf_Forges cfg = [g1, g2, g3]" and l: "loaded_from ?s ?f g1" "loaded_from ?s ?g g2" "loaded_from ?s ?h g3"
    by (auto simp only: list_all2_Cons1 list_all2_Nil)
  note kind = loaded_from_fields(2)
  have "fg_Token g1 = ''/bin''" "fg_Token g2 = ''lit''"
    using l(1,2) env by (simp_all add: loaded_from_def sample_forge_config_def)
  with third(1) kind [OF l(1)] kind [OF l(2)] kind [OF l(3)] run gs show ?thesis
    by (auto simp: sample_forge_config_def)
qed

end
