(* ===== verification/Cli.thy ===== *)
theory Cli
  imports Run Config
begin

text \<open>
  The command line (\<open>cli.go\<close>, \<open>cli_config.go\<close>, \<open>cli_progress.go\<close>): parsing option values, finding
  or creating the configuration file, resolving the directories, and running, listing or
  previewing every configured forge. What cobra and viper do is outside the repository: the
  parsed flags are an argument, and the merged view of flags, environment and file is a
  parameter that answers each option. Terminals are a yes or no.
\<close>

section \<open>Option values\<close>

definition ParseState :: "string \<Rightarrow> err + state" where
  "ParseState v =
     (if v = [] \<or> v = ''all'' then Inr StateAll
      else if v = ''active'' then Inr StateActive
      else if v = ''archived'' then Inr StateArchived
      else Inl (ErrBadState v))"

definition ParseArchive :: "string \<Rightarrow> err + archive_selection" where
  "ParseArchive v =
     (if v = [] \<or> v = ''none'' then Inr ArchiveNone
      else if v = ''all'' then Inr ArchiveAll
      else if v = ''active'' then Inr ArchiveActive
      else if v = ''archived'' then Inr ArchiveArchived
      else Inl (ErrBadArchive v))"

record cli_flags =
  fl_config :: string
  fl_dest :: string
  fl_forges :: "string list"
  fl_state :: string
  fl_archive :: string
  fl_archiveDir :: string
  fl_concurrency :: int
  fl_timeout :: int
  fl_verbose :: bool
  fl_dryRun :: bool
  fl_pruneRemoved :: bool
  fl_exportMetadata :: "string list"

text \<open>The merged view: a value for every key, in each of the types it is asked for.\<close>

record viper =
  vp_string :: "string \<Rightarrow> string"
  vp_slice :: "string \<Rightarrow> string list"
  vp_int :: "string \<Rightarrow> int"
  vp_duration :: "string \<Rightarrow> int"
  vp_bool :: "string \<Rightarrow> bool"

definition resolvedFlags :: "viper \<Rightarrow> cli_flags" where
  "resolvedFlags v =
     \<lparr>fl_config = [], fl_dest = vp_string v ''dest'', fl_forges = vp_slice v ''forge'', fl_state = vp_string v ''state'',
      fl_archive = vp_string v ''archive'', fl_archiveDir = vp_string v ''archive-dir'', fl_concurrency = vp_int v ''concurrency'',
      fl_timeout = vp_duration v ''timeout'', fl_verbose = vp_bool v ''verbose'', fl_dryRun = vp_bool v ''dry-run'',
      fl_pruneRemoved = vp_bool v ''prune-removed'', fl_exportMetadata = vp_slice v ''export-metadata''\<rparr>"

text \<open>What a command needs of the world besides the state.\<close>

record world =
  w_targz :: targz
  w_yaml :: yaml_parser
  w_shell :: tool
  w_viper :: "cli_flags \<Rightarrow> string \<Rightarrow> os \<Rightarrow> viper"
  w_newRunner :: "forge_config \<Rightarrow> err + runner"
  w_gen_man :: "string \<Rightarrow> os \<Rightarrow> (err + unit) \<times> os"
  w_tty :: bool
  w_interactive :: bool

definition println :: "string \<Rightarrow> os \<Rightarrow> os" where
  "println l s = print (l @ [CHR 0x0A]) s"

section \<open>Paths\<close>

text \<open>\<open>os.UserHomeDir\<close> and \<open>os.UserConfigDir\<close> on Unix.\<close>

definition user_home_dir :: "os \<Rightarrow> err + string" where
  "user_home_dir s = (let h = getenv ''HOME'' s in if h = [] then Inl EnvError else Inr h)"

definition user_config_dir :: "os \<Rightarrow> err + string" where
  "user_config_dir s =
     (let dir = getenv ''XDG_CONFIG_HOME'' s in
      if dir = [] then (case user_home_dir s of Inl e \<Rightarrow> Inl e | Inr h \<Rightarrow> Inr (h @ ''/.config''))
      else if \<not> is_rooted dir then Inl EnvError
      else Inr dir)"

definition expandHome :: "string \<Rightarrow> os \<Rightarrow> err + string" where
  "expandHome path s =
     (if path \<noteq> ''~'' \<and> \<not> has_prefix path ''~/'' then Inr path
      else (case user_home_dir s of
              Inl e \<Rightarrow> Inl (Wrap ''expand ~'' e)
            | Inr home \<Rightarrow> if path = ''~'' then Inr home else Inr (fpjoin [home, drop 2 path])))"

definition defaultConfigPath :: "os \<Rightarrow> err + string" where
  "defaultConfigPath s =
     (case user_config_dir s of
        Inl e \<Rightarrow> Inl (Wrap ''find config directory'' e)
      | Inr dir \<Rightarrow> Inr (fpjoin [dir, ''backup-git-repos'', ''config.yaml'']))"

definition configInitPath :: "cli_flags \<Rightarrow> os \<Rightarrow> err + string" where
  "configInitPath flags s = (if fl_config flags \<noteq> [] then expandHome (fl_config flags) s else defaultConfigPath s)"

definition resolveDestPaths :: "cli_flags \<Rightarrow> config \<Rightarrow> bool \<Rightarrow> os \<Rightarrow> err + string \<times> string" where
  "resolveDestPaths flags cfg list_only s =
     (let dest = (if fl_dest flags = [] then cf_Dest cfg else fl_dest flags) in
      if dest = [] \<and> \<not> list_only then Inl ErrDestRequired
      else (case expandHome dest s of
              Inl e \<Rightarrow> Inl e
            | Inr dest \<Rightarrow>
                if fl_archiveDir flags = [] then Inr (dest, fpjoin [dest, ''archive''])
                else (case expandHome (fl_archiveDir flags) s of
                        Inl e \<Rightarrow> Inl e
                      | Inr archive_dir \<Rightarrow> Inr (dest, archive_dir))))"

section \<open>Writing a starter configuration\<close>

definition exampleConfig :: string where
  "exampleConfig = concat (map (\<lambda>l. l @ [CHR 0x0A])
     [''# backup-git-repos config. See:'',
      ''# https://github.com/alrayyes/backup-git-repos#configuration'',
      ''dest: /srv/backups/git'',
      [],
      ''forges: []'',
      ''# forges:'',
      ''#   - name: work # becomes the top-level folder for this forge's repos'',
      ''#     kind: gitlab # forgejo, gitlab, or github'',
      ''#     url: https://gitlab.example.com # omit for github'',
      ''#     token: paste-your-token-here'',
      ''#     token_command: pass show work/gitlab-token # or hush-hush get <key>, an age-encrypted file, a keyring CLI''])"

definition runConfigInit :: "cli_flags \<Rightarrow> bool \<Rightarrow> os \<Rightarrow> (err + unit) \<times> os" where
  "runConfigInit flags force s =
     (case configInitPath flags s of
        Inl e \<Rightarrow> (Inl e, s)
      | Inr path \<Rightarrow>
          (case (if force then None
                 else (case sys_stat (at_path s path) s of
                         Inr _ \<Rightarrow> Some (Wrap path ErrConfigExists)
                       | Inl e \<Rightarrow> if e = ENOENT then None else Some (Wrap (''stat '' @ path) (OsErr e)))) of
             Some e \<Rightarrow> (Inl e, s)
           | None \<Rightarrow>
               (case sys_mkdir_all (at_path s (fpdir path)) s of
                  (Inl e, s1) \<Rightarrow> (Inl (Wrap (''create '' @ fpdir path) (OsErr e)), s1)
                | (Inr _, s1) \<Rightarrow>
                    (case sys_write_file (at_path s1 path) exampleConfig s1 of
                       (Inl e, s2) \<Rightarrow> (Inl (Wrap (''write '' @ path) (OsErr e)), s2)
                     | (Inr _, s2) \<Rightarrow> (Inr (), println (''wrote config to '' @ path) s2)))))"

text \<open>\<open>ReadString\<close> up to a newline; the end of the input ends the line as well.\<close>

definition read_line :: "os \<Rightarrow> err + string" where
  "read_line s = (case m_stdin (os_mach s) of Inl e \<Rightarrow> Inl e | Inr text \<Rightarrow> Inr (takeWhile (\<lambda>c. c \<noteq> CHR 0x0A) text))"

definition promptConfigInit :: "cli_flags \<Rightarrow> string \<Rightarrow> os \<Rightarrow> (err + bool) \<times> os" where
  "promptConfigInit flags path s =
     (let s1 = print ''run `config init` now? [y/N] '' (println (''no config file found at '' @ path) s) in
      case read_line s1 of
        Inl e \<Rightarrow> (Inl (Wrap ''read answer'' e), s1)
      | Inr line \<Rightarrow>
          (let answer = trim_space line in
           if \<not> equal_fold answer ''y'' \<and> \<not> equal_fold answer ''yes'' then (Inr False, s1)
           else (case runConfigInit flags False s1 of
                   (Inl e, s2) \<Rightarrow> (Inl e, s2)
                 | (Inr _, s2) \<Rightarrow> (Inr True, s2))))"

definition resolveConfigPath :: "bool \<Rightarrow> cli_flags \<Rightarrow> os \<Rightarrow> (err + string) \<times> os" where
  "resolveConfigPath interactive flags s =
     (if fl_config flags \<noteq> [] then (expandHome (fl_config flags) s, s)
      else (case defaultConfigPath s of
              Inl e \<Rightarrow> (Inl e, s)
            | Inr path \<Rightarrow>
                (case sys_stat (at_path s path) s of
                   Inr _ \<Rightarrow> (Inr path, s)
                 | Inl _ \<Rightarrow>
                     if interactive then
                       (case promptConfigInit flags path s of
                          (Inl e, s1) \<Rightarrow> (Inl e, s1)
                        | (Inr wrote, s1) \<Rightarrow>
                            (Inl (Wrap path (if wrote then ErrConfigInitWritten else ErrConfigRequired)), s1))
                     else (Inl (Wrap path ErrConfigRequired), s))))"

section \<open>Progress and logs\<close>

definition newProgressReporter :: "string \<Rightarrow> bool \<Rightarrow> int \<times> int \<Rightarrow> os \<Rightarrow> os" where
  "newProgressReporter label tty call s =
     (if \<not> tty then s
      else (case call of (n, m) \<Rightarrow>
        (let s1 = print ([CHR 0x0D] @ label @ '': '' @ itoa n @ ''/'' @ itoa m) s in
         if n \<ge> m then println [] s1 else s1)))"

text \<open>Which log lines a run shows.\<close>

definition newCLILogger :: "bool \<Rightarrow> level \<Rightarrow> bool" where
  "newCLILogger verbose l \<longleftrightarrow> (if verbose then LDebug else LInfo) \<le> l"

section \<open>Previewing a run\<close>

record dry_run_config =
  dr_dest :: string
  dr_archiveDir :: string
  dr_state :: state
  dr_archive :: archive_selection
  dr_pruneRemoved :: bool

definition dryRunAction :: "string \<Rightarrow> string \<Rightarrow> repo \<Rightarrow> bool \<Rightarrow> os \<Rightarrow> string" where
  "dryRunAction dest forge r want_archive s =
     (if repo_archived r \<and> want_archive then ''clone''
      else (let dir = mirror_path (fpjoin [dest, forge]) (repo_path r) in
            case sys_stat (at_path s (fpjoin [dir, ''HEAD''])) s of Inr _ \<Rightarrow> ''update'' | Inl _ \<Rightarrow> ''clone''))"

fun dry_run_repos :: "string \<Rightarrow> dry_run_config \<Rightarrow> repo list \<Rightarrow> int \<times> int \<times> int \<Rightarrow> os \<Rightarrow> (int \<times> int \<times> int) \<times> os" where
  "dry_run_repos forge cfg [] n s = (n, s)"
| "dry_run_repos forge cfg (r # rs) (sy, sk, ar) s =
     (if repo_empty r then
        dry_run_repos forge cfg rs (sy, sk + 1, ar) (println (forge @ ''/'' @ repo_path r @ '': skip (empty)'') s)
      else
        (let want_archive = wants (dr_archive cfg) (repo_archived r);
             line = forge @ ''/'' @ repo_path r @ '': '' @ dryRunAction (dr_dest cfg) forge r want_archive s
         in dry_run_repos forge cfg rs (sy + 1, sk, if want_archive then ar + 1 else ar)
              (println (if want_archive then line @ '', archive'' else line) s)))"

definition dryRunPrune :: "forge_config \<Rightarrow> dry_run_config \<Rightarrow> runner \<Rightarrow> repo list \<Rightarrow> os \<Rightarrow> ((err + int) \<times> os) option" where
  "dryRunPrune fc cfg rn repos s =
     (let name = fg_Name fc in
      case (if dr_state cfg \<noteq> StateAll then run_lister rn StateAll s else Some (Inr repos, s)) of
        None \<Rightarrow> None
      | Some (Inl e, s1) \<Rightarrow> Some (Inl (Wrap (''list '' @ name) e), s1)
      | Some (Inr canonical, s1) \<Rightarrow>
          (case staleMirrors (fpjoin [dr_dest cfg, name]) (fpjoin [dr_archiveDir cfg, name]) canonical s1 of
             Inl e \<Rightarrow> Some (Inl (Wrap (''scan '' @ name) e), s1)
           | Inr stale \<Rightarrow> Some (Inr (int (length stale)), fold (\<lambda>p. println (name @ ''/'' @ p @ '': prune'')) stale s1)))"

definition dryRunForge :: "forge_config \<Rightarrow> dry_run_config \<Rightarrow> runner \<Rightarrow> os \<Rightarrow> ((err + unit) \<times> os) option" where
  "dryRunForge fc cfg rn s =
     (let name = fg_Name fc in
      case run_lister rn (dr_state cfg) s of
        None \<Rightarrow> None
      | Some (Inl e, s1) \<Rightarrow> Some (Inl (Wrap (''list '' @ name) e), s1)
      | Some (Inr repos, s1) \<Rightarrow>
          (case dry_run_repos name cfg repos (0, 0, 0) s1 of
             ((sy, sk, ar), s2) \<Rightarrow>
               (let summary = name @ '': would sync '' @ itoa sy @ '', skip '' @ itoa sk @ '', archive '' @ itoa ar in
                if dr_pruneRemoved cfg then
                  (case dryRunPrune fc cfg rn repos s2 of
                     None \<Rightarrow> None
                   | Some (Inl e, s3) \<Rightarrow> Some (Inl e, s3)
                   | Some (Inr n, s3) \<Rightarrow> Some (Inr (), println (summary @ '', prune '' @ itoa n @ '' (dry run)'') s3))
                else Some (Inr (), println (summary @ '' (dry run)'') s2))))"

section \<open>Running\<close>

definition run_summary :: "string \<Rightarrow> metadata_kind list \<Rightarrow> run_result \<Rightarrow> string" where
  "run_summary name kinds res =
     name @ '': synced '' @ itoa (synced res) @ '', skipped '' @ itoa (skipped res) @ '', failed '' @ itoa (failed res)
     @ '', archived '' @ itoa (archived res) @ '', pruned '' @ itoa (pruned res)
     @ (if kinds \<noteq> [] then '', metadata exported '' @ itoa (metadata_exported res) else [])"

text \<open>The options a run of one forge gets.\<close>

definition forge_options ::
  "forge_config \<Rightarrow> string \<Rightarrow> string \<Rightarrow> state \<Rightarrow> archive_selection \<Rightarrow> metadata_kind list \<Rightarrow> cli_flags \<Rightarrow> options"
where
  "forge_options fc dest archive_dir st arch kinds flags =
     \<lparr>o_dest = fpjoin [dest, fg_Name fc], o_state = st, o_archive = arch, o_archive_dir = fpjoin [archive_dir, fg_Name fc],
      o_concurrency = fl_concurrency flags, o_prune_removed = fl_pruneRemoved flags, o_export_metadata = kinds\<rparr>"

definition runForge ::
  "world \<Rightarrow> forge_config \<Rightarrow> string \<Rightarrow> string \<Rightarrow> state \<Rightarrow> archive_selection \<Rightarrow> metadata_kind list \<Rightarrow> cli_flags \<Rightarrow> bool \<Rightarrow> os
    \<Rightarrow> ((err + unit) \<times> os) option"
where
  "runForge w fc dest archive_dir st arch kinds flags list_only s =
     (let name = fg_Name fc in
      case w_newRunner w fc of
        Inl e \<Rightarrow> Some (Inl e, s)
      | Inr rn \<Rightarrow>
          if list_only then
            (case run_lister rn st s of
               None \<Rightarrow> None
             | Some (Inl e, s1) \<Rightarrow> Some (Inl (Wrap (''list '' @ name) e), s1)
             | Some (Inr repos, s1) \<Rightarrow> Some (Inr (), fold (\<lambda>r. println (name @ ''/'' @ repo_path r)) repos s1))
          else if fl_dryRun flags then
            dryRunForge fc \<lparr>dr_dest = dest, dr_archiveDir = archive_dir, dr_state = st, dr_archive = arch,
                            dr_pruneRemoved = fl_pruneRemoved flags\<rparr> rn s
          else
            (case Run (w_targz w) rn (forge_options fc dest archive_dir st arch kinds flags) s of
               None \<Rightarrow> None
             | Some (Inl e, s1) \<Rightarrow> Some (Inl (Wrap (''run '' @ name) e), s1)
             | Some (Inr (res, calls), s1) \<Rightarrow>
                 Some (Inr (), println (run_summary name kinds res) (fold (newProgressReporter name (w_tty w)) calls s1))))"

definition run_forges ::
  "world \<Rightarrow> string \<Rightarrow> string \<Rightarrow> state \<Rightarrow> archive_selection \<Rightarrow> metadata_kind list \<Rightarrow> cli_flags \<Rightarrow> bool \<Rightarrow> forge_config list \<Rightarrow> os
    \<Rightarrow> ((err + unit) \<times> os) option"
where
  "run_forges w dest archive_dir st arch kinds flags list_only forges s =
     for_each (\<lambda>fc s.
        if fl_forges flags \<noteq> [] \<and> fg_Name fc \<notin> set (fl_forges flags) then Some (Inr (), s)
        else runForge w fc dest archive_dir st arch kinds flags list_only s) forges s"

definition runBackup :: "world \<Rightarrow> cli_flags \<Rightarrow> bool \<Rightarrow> os \<Rightarrow> ((err + unit) \<times> os) option" where
  "runBackup w flags0 list_only s =
     (case resolveConfigPath (w_interactive w) flags0 s of
        (Inl e, s1) \<Rightarrow> Some (Inl e, s1)
      | (Inr config_path, s1) \<Rightarrow>
          (let flags = resolvedFlags (w_viper w flags0 config_path s1) in
           case ParseState (fl_state flags) of
             Inl e \<Rightarrow> Some (Inl e, s1)
           | Inr st \<Rightarrow>
               (case ParseArchive (fl_archive flags) of
                  Inl e \<Rightarrow> Some (Inl e, s1)
                | Inr arch \<Rightarrow>
                    (case ParseMetadataKinds (fl_exportMetadata flags) of
                       Inl e \<Rightarrow> Some (Inl e, s1)
                     | Inr kinds \<Rightarrow>
                         (case LoadConfig (w_yaml w) (w_shell w) config_path s1 of
                            (Inl e, s2) \<Rightarrow> Some (Inl e, s2)
                          | (Inr cfg, s2) \<Rightarrow>
                              (case resolveDestPaths flags cfg list_only s2 of
                                 Inl e \<Rightarrow> Some (Inl e, s2)
                               | Inr (dest, archive_dir) \<Rightarrow>
                                   run_forges w dest archive_dir st arch kinds flags list_only (cf_Forges cfg) s2))))))"

section \<open>The commands\<close>

text \<open>
  The commands of the root command, once cobra has parsed the line. The generator of the man
  pages is cobra's.
\<close>

datatype command = CmdRun | CmdList | CmdVersion | CmdConfigInit bool | CmdMan string

definition genMan :: "world \<Rightarrow> string \<Rightarrow> os \<Rightarrow> (err + unit) \<times> os" where
  "genMan w dir s =
     (case sys_mkdir_all (at_path s dir) s of
        (Inl e, s1) \<Rightarrow> (Inl (Wrap ''create man page directory'' (OsErr e)), s1)
      | (Inr _, s1) \<Rightarrow>
          (case w_gen_man w dir s1 of
             (Inl e, s2) \<Rightarrow> (Inl (Wrap ''generate man pages'' e), s2)
           | (Inr _, s2) \<Rightarrow> (Inr (), s2)))"

definition root_command :: "world \<Rightarrow> string \<Rightarrow> command \<Rightarrow> cli_flags \<Rightarrow> os \<Rightarrow> ((err + unit) \<times> os) option" where
  "root_command w version cmd flags s =
     (case cmd of
        CmdRun \<Rightarrow> runBackup w flags False s
      | CmdList \<Rightarrow> runBackup w flags True s
      | CmdVersion \<Rightarrow> Some (Inr (), println version s)
      | CmdConfigInit force \<Rightarrow> Some (runConfigInit flags force s)
      | CmdMan dir \<Rightarrow> Some (genMan w dir s))"

end
