(* ===== verification/Preview.thy ===== *)
theory Preview
  imports Cli
begin

text \<open>
  What the previews of the command line are worth (\<open>dryRunForge\<close> and \<open>dryRunAction\<close> in \<open>cli.go\<close>)
  when the real run follows: the command a sync starts with, and the bounds the preview's
  numbers put on the run's.
\<close>

section \<open>The first command of a sync\<close>

definition first_args :: "string \<Rightarrow> remote \<Rightarrow> string \<Rightarrow> string list" where
  "first_args action r d =
     (if action = ''update'' then [''-C'', d, ''remote'', ''update'', ''--prune'']
      else [''clone'', ''--mirror'', clone_url r, d @ ''.partial''])"

definition starts_with :: "string list \<Rightarrow> os \<Rightarrow> os \<Rightarrow> bool" where
  "starts_with args s s' \<longleftrightarrow> (\<forall>c cs. os_execs s' = os_execs s @ c # cs \<longrightarrow> c_args c = args)"

lemma execs_exec_in: "exec_in tool c p s = (r, s') \<Longrightarrow> os_execs s' = os_execs s @ [c]"
  by (auto simp: exec_in_def graft_def record_cmd_def split: prod.splits)

lemma execs_remove_all: "sys_remove_all p s = (r, s') \<Longrightarrow> os_execs s' = os_execs s"
  by (auto simp: sys_remove_all_def Let_def keep_def)

lemma update_first:
  assumes "update tool parse git r d s = (x, s')"
  shows "(os_execs s' = os_execs s \<and> x \<noteq> Inr ()) \<or> (\<exists>c. os_execs s' = os_execs s @ [c] \<and> c_args c = first_args ''update'' r d)"
  using assms
  by (auto simp: update_def first_args_def Let_def dest!: execs_exec_in split: sum.splits prod.splits option.splits)

lemma clone_first:
  assumes "clone tool parse git r d s = (x, s')"
  shows "(os_execs s' = os_execs s \<and> x \<noteq> Inr ()) \<or> (\<exists>c. os_execs s' = os_execs s @ [c] \<and> c_args c = first_args ''clone'' r d)"
  using assms
  by (auto simp: clone_def first_args_def Let_def dest!: execs_exec_in execs_remove_all rename_execs
      split: sum.splits prod.splits option.splits)

lemma execs_syncLFS: "syncLFS tool parse m git r d s = (x, s') \<Longrightarrow> \<exists>cs. os_execs s' = os_execs s @ cs"
  using ran_syncLFS by (fastforce simp: ran_def)

lemma Sync_rest_first:
  assumes "(os_execs s1 = os_execs s \<and> y \<noteq> Inr ()) \<or> (\<exists>c. os_execs s1 = os_execs s @ [c] \<and> c_args c = args)"
    and "(\<exists>e. y = Inl e \<and> x = Inl e \<and> s' = s1) \<or> (y = Inr () \<and> syncLFS tool parse m git r d s1 = (x, s'))"
  shows "starts_with args s s'"
  using assms by (auto simp: starts_with_def dest: execs_syncLFS)

lemma Sync_first:
  assumes "Sync tool parse m r d s = (x, s')"
  shows "starts_with (first_args (case sys_stat (at_path s (fpjoin [d, ''HEAD''])) s of Inr _ \<Rightarrow> ''update'' | Inl _ \<Rightarrow> ''clone'') r d) s s'"
  using assms
proof (cases rule: Sync_cases)
  case (no_git e)
  then show ?thesis by (simp add: starts_with_def)
next
  case (updated git n y s1)
  from Sync_rest_first [OF update_first [OF updated(3)] updated(4)] updated(2) show ?thesis by simp
next
  case (cloned git e y s1)
  from Sync_rest_first [OF clone_first [OF cloned(3)] cloned(4)] cloned(2) show ?thesis by simp
qed

text \<open>C34:
  A dry run announces what the sync does: for a repository that is not archived into a scratch
  directory, the first command a sync into its mirror's directory starts, if it comes to start one, is
  the update when the preview of the same state says update, and the clone into the partial
  directory when it says clone.
\<close>

theorem dry_run_names_the_command:
  assumes "\<not> (repo_archived r \<and> want_archive)"
    and "Sync tool parse m rm (mirror_path (fpjoin [dest, forge]) (repo_path r)) s = (x, s')"
    and "os_execs s' = os_execs s @ c # cs"
  shows "c_args c = first_args (dryRunAction dest forge r want_archive s) rm (mirror_path (fpjoin [dest, forge]) (repo_path r))"
  using Sync_first [OF assms(2)] assms(1,3) by (auto simp: starts_with_def dryRunAction_def Let_def)

definition sample_remote :: remote where
  "sample_remote = \<lparr>clone_url = ''u'', auth_header = []\<rparr>"

definition sample_mirrored :: os where
  "sample_mirrored = quiet_os [([''w'', ''d''], Dir), ([''w'', ''d'', ''f''], Dir), ([''w'', ''d'', ''f'', ''r.git''], Dir),
     ([''w'', ''d'', ''f'', ''r.git'', ''HEAD''], File ''ref'')]"

lemma dry_run_names_the_command_witness:
  "\<exists>x s' c cs. Sync sample_git (\<lambda>_. None) \<lparr>git_path = ''git'', git_lfs_path = []\<rparr> sample_remote (mirror_path (fpjoin [''/w/d'', ''f'']) ''r'') sample_mirrored = (x, s') \<and>
     os_execs s' = os_execs sample_mirrored @ c # cs \<and> dryRunAction ''/w/d'' ''f'' (sample_repo ''r'' False False) True sample_mirrored = ''update'' \<and>
     c_args c = [''-C'', ''/w/d/f/r.git'', ''remote'', ''update'', ''--prune'']"
proof -
  let ?m = "\<lparr>git_path = ''git'', git_lfs_path = []\<rparr>" and ?d = "mirror_path (fpjoin [''/w/d'', ''f'']) (repo_path (sample_repo ''r'' False False))"
  obtain x s' where run: "Sync sample_git (\<lambda>_. None) ?m sample_remote ?d sample_mirrored = (x, s')" by fastforce
  have "case os_execs (snd (Sync sample_git (\<lambda>_. None) ?m sample_remote ?d sample_mirrored)) of [] \<Rightarrow> False | c # cs \<Rightarrow> True"
    by code_simp
  moreover have none: "os_execs sample_mirrored = []" by (simp add: sample_mirrored_def quiet_os_def)
  ultimately obtain c cs where execs: "os_execs s' = os_execs sample_mirrored @ c # cs" using run by (auto split: list.splits)
  have "\<not> (repo_archived (sample_repo ''r'' False False) \<and> True)" by (simp add: sample_repo_def)
  from dry_run_names_the_command [OF this run execs]
  have "c_args c = first_args (dryRunAction ''/w/d'' ''f'' (sample_repo ''r'' False False) True sample_mirrored) sample_remote ?d" by simp
  moreover have action: "dryRunAction ''/w/d'' ''f'' (sample_repo ''r'' False False) True sample_mirrored = ''update''" by code_simp
  moreover have "?d = ''/w/d/f/r.git''" by code_simp
  ultimately have "c_args c = [''-C'', ''/w/d/f/r.git'', ''remote'', ''update'', ''--prune'']" by (simp add: first_args_def)
  with run execs action show ?thesis by (auto simp: sample_repo_def)
qed

section \<open>The numbers of a preview\<close>

definition previewed :: "options \<Rightarrow> repo list \<Rightarrow> int \<times> int \<times> int" where
  "previewed opts rs =
     (int (length (filter (\<lambda>r. \<not> repo_empty r) rs)), int (length (filter repo_empty rs)),
      int (length (filter (\<lambda>r. \<not> repo_empty r \<and> wants (o_archive opts) (repo_archived r)) rs)))"

lemma dry_run_repos_counts:
  assumes "dr_archive cfg = o_archive opts"
  shows "fst (dry_run_repos forge cfg rs (a, b, c) s) = (case previewed opts rs of (x, y, z) \<Rightarrow> (a + x, b + y, c + z))"
proof (induction rs arbitrary: a b c s)
  case (Cons r rs)
  then show ?case by (simp add: previewed_def assms Let_def)
qed (simp add: previewed_def)

lemma archived_if_wanted: "mirrorRepo targz rn opts r s = Some (out, s') \<Longrightarrow> mo_archived out \<Longrightarrow> wants (o_archive opts) (repo_archived r)"
  by (auto simp: mirrorRepo_def Let_def failed_outcome_def elim!: mirror_in_cases split: if_splits sum.splits option.splits prod.splits)

lemma archived_at_most:
  "run_repos targz rn opts rs (c, s) = Some (c', s') \<Longrightarrow> k_archived c' \<le> k_archived c + snd (snd (previewed opts rs))"
proof (induction rs arbitrary: c s)
  case (Cons r rs)
  show ?case
  proof (cases "repo_empty r")
    case True
    with Cons.prems Cons.IH show ?thesis by (fastforce simp: previewed_def reportDone_def Let_def)
  next
    case False
    with Cons.prems obtain out s1 where m: "mirrorRepo targz rn opts r s = Some (out, s1)"
      and rest: "run_repos targz rn opts rs (reportDone (count_outcome out c), s1) = Some (c', s')"
      by (auto simp: runRepo_def split: option.splits)
    from Cons.IH [OF rest] archived_if_wanted [OF m] False show ?thesis
      by (auto simp: previewed_def reportDone_def count_outcome_def Let_def split: if_splits)
  qed
qed (simp add: previewed_def)

text \<open>C35:
  The numbers of a dry run bound those of the run: over the same listing, exactly the announced
  number of repositories is skipped, no more are synced and no more are archived than
  announced, and every announced one is synced or counted as failed.
\<close>

theorem dry_run_bounds_run:
  assumes "Run targz rn opts s = Some (Inr (res, calls), s')"
    and "listRepos rn (o_state opts) s = Some (Inr (repos, canonical), s1)"
    and "dr_archive cfg = o_archive opts"
    and "dry_run_repos forge cfg repos (0, 0, 0) s2 = ((would_sync, would_skip, would_archive), s3)"
  shows "skipped res = would_skip \<and> synced res \<le> would_sync \<and> would_sync \<le> synced res + failed res \<and> archived res \<le> would_archive"
  using assms(1)
proof (cases rule: Run_cases)
  case (completed repos' canonical' s1' stale c s2' n)
  have same: "repos' = repos" using completed(1) assms(2) by simp
  have announced: "previewed opts repos = (would_sync, would_skip, would_archive)"
    using dry_run_repos_counts [OF assms(3), of forge repos 0 0 0 s2] assms(4) by (auto split: prod.splits)
  show ?thesis
    using announced completed(5) run_repos_counts [OF completed(3)] archived_at_most [OF completed(3)]
    by (auto simp: same previewed_def Run_result_def new_counters_def counts_between_def)
qed simp

lemma dry_run_bounds_run_witness:
  "\<exists>res calls s'. Run sample_targz (sample_runner [sample_repo ''x'' False True, sample_repo ''y'' False False]) sample_options (quiet_os [])
     = Some (Inr (res, calls), s') \<and> skipped res = 1 \<and> synced res \<le> 1 \<and> archived res \<le> 0"
proof -
  let ?rs = "[sample_repo ''x'' False True, sample_repo ''y'' False False]" and ?s = "quiet_os []"
  let ?cfg = "\<lparr>dr_dest = ''/w'', dr_archiveDir = ''/w/a'', dr_state = StateActive, dr_archive = ArchiveNone, dr_pruneRemoved = True\<rparr>"
  have "case Run sample_targz (sample_runner ?rs) sample_options ?s of Some (Inr _, _) \<Rightarrow> True | _ \<Rightarrow> False" by code_simp
  then obtain res calls s' where r: "Run sample_targz (sample_runner ?rs) sample_options ?s = Some (Inr (res, calls), s')"
    by (auto split: option.splits sum.splits prod.splits)
  have l: "listRepos (sample_runner ?rs) (o_state sample_options) ?s = Some (Inr (?rs, ?rs), ?s)"
    by (simp add: listRepos_def sample_runner_def sample_repo_def sample_options_def)
  have "fst (dry_run_repos ''d'' ?cfg ?rs (0, 0, 0) ?s) = (1, 1, 0)" by code_simp
  then obtain s3 where d: "dry_run_repos ''d'' ?cfg ?rs (0, 0, 0) ?s = ((1, 1, 0), s3)" by (metis prod.collapse)
  have "dr_archive ?cfg = o_archive sample_options" by (simp add: sample_options_def)
  from dry_run_bounds_run [OF r l this d] r show ?thesis by auto
qed

end
