(* ===== verification/Config_Init.thy ===== *)
theory Config_Init
  imports Cli
begin

text \<open>
  Finding the configuration, and offering to create it (\<open>resolveConfigPath\<close> in \<open>cli.go\<close>,
  \<open>runConfigInit\<close> and \<open>promptConfigInit\<close> in \<open>cli_config.go\<close>): what a start without a
  configuration file can do to the machine.
\<close>

text \<open>The system reports ENOENT only for what is not there.\<close>

definition honest_stat :: "os \<Rightarrow> bool" where
  "honest_stat s \<longleftrightarrow> (\<forall>p. fault s (SysStat p) \<noteq> Some ENOENT)"

lemma stat_enoent: "honest_stat s \<Longrightarrow> sys_stat p s = Inl ENOENT \<Longrightarrow> look s p = None"
  by (auto simp: honest_stat_def sys_stat_def split: option.splits)

text \<open>Every entry there was is still there and the same.\<close>

definition only_adds :: "os \<Rightarrow> os \<Rightarrow> bool" where
  "only_adds s s' \<longleftrightarrow> (\<forall>q n. look s q = Some n \<longrightarrow> look s' q = Some n)"

lemma only_adds_refl [simp]: "only_adds s s"
  by (simp add: only_adds_def)

lemma only_adds_mkdir_all:
  assumes "sys_mkdir_all p s = (r, s')"
  shows "only_adds s s'"
proof (cases r)
  case (Inl e)
  then show ?thesis using mkdir_all_err assms by fastforce
next
  case (Inr u)
  have blocked: "\<not> list_ex (\<lambda>q. look s q \<noteq> None \<and> look s q \<noteq> Some Dir) (prefixes p)"
    using assms Inr by (auto simp: sys_mkdir_all_def split: option.splits if_splits)
  then have "prefix q p \<Longrightarrow> look s q = None \<or> look s q = Some Dir" for q by (auto simp: list_ex_iff)
  with mkdir_all_ok [OF assms [unfolded Inr]] show ?thesis unfolding only_adds_def by fastforce
qed

lemma only_adds_write_file:
  assumes "sys_write_file p d s1 = (r, s')" "only_adds s s1" "look s p = None"
  shows "only_adds s s'"
  using write_file_look(1) [OF assms(1)] assms(2,3) by (metis only_adds_def option.distinct(1))

text \<open>Creating the file without \<open>--force\<close>.\<close>

lemma runConfigInit_adds:
  assumes "runConfigInit flags False s = (r, s')" "honest_stat s"
  shows "only_adds s s'"
proof (cases "configInitPath flags s")
  case (Inl e)
  with assms(1) show ?thesis by (simp add: runConfigInit_def)
next
  case path: (Inr path)
  show ?thesis
  proof (cases "sys_stat (at_path s path) s = Inl ENOENT")
    case False
    with assms(1) path show ?thesis by (auto simp: runConfigInit_def split: sum.splits if_splits)
  next
    case True
    note absent = stat_enoent [OF assms(2) True]
    obtain x s1 where m: "sys_mkdir_all (at_path s (fpdir path)) s = (x, s1)" by fastforce
    note added = only_adds_mkdir_all [OF m] and mach = mkdir_all_mach [OF m]
    obtain y s2 where w: "sys_write_file (at_path s path) exampleConfig s1 = (y, s2)" by fastforce
    note wrote = only_adds_write_file [OF w added absent]
    have "at_path s1 path = at_path s path" using mach by (simp add: at_path_def)
    with assms(1) path True m w have "s' = s1 \<or> s' = s2 \<or> s' = println (''wrote config to '' @ path) s2"
      by (auto simp: runConfigInit_def split: sum.splits)
    with added wrote show ?thesis by (auto simp: only_adds_def println_def)
  qed
qed

lemma honest_stat_print [simp]: "honest_stat (print l s) = honest_stat s"
  by (simp add: honest_stat_def fault_def print_def)

lemma promptConfigInit_adds:
  assumes "promptConfigInit flags path s = (r, s')" "honest_stat s"
  shows "only_adds s s'"
proof -
  let ?s1 = "print ''run `config init` now? [y/N] '' (println (''no config file found at '' @ path) s)"
  have "only_adds ?s1 t = only_adds s t" for t by (simp add: only_adds_def println_def)
  moreover have "honest_stat ?s1" using assms(2) by (simp add: println_def)
  moreover have "s' = ?s1 \<or> (\<exists>x. runConfigInit flags False ?s1 = (x, s'))"
    using assms(1) by (auto simp: promptConfigInit_def Let_def split: sum.splits if_splits prod.splits)
  ultimately show ?thesis using runConfigInit_adds by (metis only_adds_refl)
qed

text \<open>C36:
  Looking for the configuration never costs anything: whatever the flags, the environment and the
  answer at the prompt, every file and directory there was is still there with its content, so a
  configuration, and a token in it, is never replaced by the starter.
\<close>

theorem config_lookup_only_adds:
  assumes "resolveConfigPath interactive flags s = (r, s')" and "honest_stat s" and "look s q = Some n"
  shows "look s' q = Some n"
proof -
  have "only_adds s s'"
    using assms(1) promptConfigInit_adds [OF _ assms(2)]
    by (auto simp: resolveConfigPath_def split: if_splits sum.splits prod.splits)
  with assms(3) show ?thesis by (simp add: only_adds_def)
qed

definition sample_home :: os where
  "sample_home = quiet_os [([''w'', ''c''], Dir), ([''w'', ''c'', ''other''], File ''x'')]"

definition sample_yes :: os where
  "sample_yes = sample_home\<lparr>os_mach := (os_mach sample_home)\<lparr>m_environ := [''HOME=/w'', ''XDG_CONFIG_HOME=/w/c''], m_stdin := Inr (''Yes'' @ [CHR 0x0A])\<rparr>\<rparr>"

definition no_flags :: cli_flags where
  "no_flags = \<lparr>fl_config = [], fl_dest = [], fl_forges = [], fl_state = [], fl_archive = [], fl_archiveDir = [],
     fl_concurrency = 0, fl_timeout = 0, fl_verbose = False, fl_dryRun = False, fl_pruneRemoved = False, fl_exportMetadata = []\<rparr>"

lemma config_lookup_only_adds_witness:
  "\<exists>s'. resolveConfigPath True no_flags sample_yes = (Inl (Wrap ''/w/c/backup-git-repos/config.yaml'' ErrConfigInitWritten), s') \<and>
     look s' [''w'', ''c'', ''other''] = Some (File ''x'') \<and>
     look s' [''w'', ''c'', ''backup-git-repos'', ''config.yaml''] = Some (File exampleConfig)"
proof -
  have "case resolveConfigPath True no_flags sample_yes of (r, s') \<Rightarrow>
      r = Inl (Wrap ''/w/c/backup-git-repos/config.yaml'' ErrConfigInitWritten) \<and>
      look s' [''w'', ''c'', ''backup-git-repos'', ''config.yaml''] = Some (File exampleConfig)" by code_simp
  then obtain s' where run: "resolveConfigPath True no_flags sample_yes = (Inl (Wrap ''/w/c/backup-git-repos/config.yaml'' ErrConfigInitWritten), s')"
    and written: "look s' [''w'', ''c'', ''backup-git-repos'', ''config.yaml''] = Some (File exampleConfig)" by (auto split: prod.splits)
  have "honest_stat sample_yes" by (simp add: honest_stat_def fault_def sample_yes_def sample_home_def quiet_os_def quiet_machine_def)
  moreover have "look sample_yes [''w'', ''c'', ''other''] = Some (File ''x'')" by code_simp
  ultimately show ?thesis using config_lookup_only_adds [OF run] run written by blast
qed

end
