(* ===== verification/Http.thy ===== *)
theory Http
  imports Metadata GoUrl
begin

text \<open>
  What the three forge clients share: sending an authenticated GET request, decoding the
  JSON of the answer, and paging through a listing. The forge is outside the repository: it
  is a parameter \<open>net\<close> that answers a request with a response or a transport error. A
  response carries its JSON document (\<open>None\<close> when the body is not one) and its body as a
  stream. Every request sent is recorded, so where credentials go can be stated.
\<close>

record response =
  rs_status :: int
  rs_headers :: "(string \<times> string) list"
  rs_json :: "json option"
  rs_body :: stream

record net =
  net_parse :: url_parser
  net_do :: "request \<Rightarrow> err + response"

definition header_get :: "string \<Rightarrow> response \<Rightarrow> string" where
  "header_get k r = (case find (\<lambda>kv. equal_fold (fst kv) k) (rs_headers r) of None \<Rightarrow> [] | Some kv \<Rightarrow> snd kv)"

text \<open>\<open>http.NewRequestWithContext\<close> fails exactly when the URL does not parse.\<close>

definition new_request :: "net \<Rightarrow> string \<Rightarrow> (string \<times> string) list \<Rightarrow> err + request" where
  "new_request net u hs = (case net_parse net u of None \<Rightarrow> Inl UrlError | Some _ \<Rightarrow> Inr \<lparr>rq_url = u, rq_headers = hs\<rparr>)"

definition http_do :: "net \<Rightarrow> request \<Rightarrow> os \<Rightarrow> (err + response) \<times> os" where
  "http_do net rq s = (net_do net rq, s\<lparr>os_requests := os_requests s @ [rq]\<rparr>)"

text \<open>
  The authenticated GET of the \<open>getJSON\<close> methods: build the request, send it, insist on
  status 200 and decode.
\<close>

definition get_json ::
  "net \<Rightarrow> (string \<times> string) list \<Rightarrow> url \<Rightarrow> (json \<Rightarrow> 'a option) \<Rightarrow> os \<Rightarrow> (err + 'a) \<times> os"
where
  "get_json net hs u dec s =
     (let at = url_string u in
      case new_request net at hs of
        Inl e \<Rightarrow> (Inl (Wrap (''build request for '' @ at) e), s)
      | Inr rq \<Rightarrow>
          (case http_do net rq s of
             (Inl e, s1) \<Rightarrow> (Inl (Wrap (''get '' @ at) e), s1)
           | (Inr resp, s1) \<Rightarrow>
               if rs_status resp \<noteq> 200 then (Inl (Wrap (''get '' @ at) (ErrUnexpectedStatus (rs_status resp))), s1)
               else (case Option.bind (rs_json resp) dec of
                       None \<Rightarrow> (Inl (Wrap (''decode response from '' @ at) DecodeError), s1)
                     | Some x \<Rightarrow> (Inr x, s1))))"

text \<open>Building a request and sending it, where the code wraps both failures alike.\<close>

definition net_get :: "net \<Rightarrow> (string \<times> string) list \<Rightarrow> string \<Rightarrow> os \<Rightarrow> (err + response) \<times> os" where
  "net_get net hs u s = (case new_request net u hs of Inl e \<Rightarrow> (Inl e, s) | Inr rq \<Rightarrow> http_do net rq s)"

text \<open>A time is decoded as its text; null is Go's zero time.\<close>

definition dec_time :: "json \<Rightarrow> time option" where
  "dec_time j = (if j = JNull then Some ''0001-01-01T00:00:00Z'' else dec_string j)"

text \<open>A slice that starts nil and is only appended to is nil while nothing was appended.\<close>

definition nil_if_empty :: "'a list \<Rightarrow> 'a list option" where
  "nil_if_empty xs = (if xs = [] then None else Some xs)"

section \<open>Paging\<close>

text \<open>
  \<open>for page := 1; ; page++\<close> over a listing: fetch the page, work on its items in order, stop
  at an error or when the page was the last. The fetch says whether it was. An accumulator
  is carried along with the state.
\<close>

type_synonym ('a, 'acc) worker = "'a \<Rightarrow> 'acc \<times> os \<Rightarrow> ((err + unit) \<times> 'acc \<times> os) option"

definition page_step ::
  "(nat \<Rightarrow> os \<Rightarrow> (err + 'a list \<times> bool) \<times> os) \<Rightarrow> ('a, 'acc) worker \<Rightarrow> nat \<Rightarrow> 'acc \<times> os
    \<Rightarrow> (((err + unit) \<times> 'acc \<times> os) option, 'acc \<times> os) step"
where
  "page_step fetch f page st =
     (case fetch page (snd st) of
        (Inl e, s1) \<Rightarrow> Return (Some (Inl e, (fst st, s1)))
      | (Inr (items, last_page), s1) \<Rightarrow>
          (case for_each f items (fst st, s1) of
             None \<Rightarrow> Return None
           | Some (Inl e, st2) \<Rightarrow> Return (Some (Inl e, st2))
           | Some (Inr _, st2) \<Rightarrow> if last_page then Return (Some (Inr (), st2)) else Next st2))"

definition paged ::
  "(nat \<Rightarrow> os \<Rightarrow> (err + 'a list \<times> bool) \<times> os) \<Rightarrow> ('a, 'acc) worker \<Rightarrow> 'acc \<times> os \<Rightarrow> ((err + unit) \<times> 'acc \<times> os) option"
where
  "paged fetch f st = Option.bind (for_pages (page_step fetch f) 1 st) id"

text \<open>A page shorter than the page size is the last one.\<close>

definition by_size ::
  "nat \<Rightarrow> (nat \<Rightarrow> os \<Rightarrow> (err + 'a list) \<times> os) \<Rightarrow> nat \<Rightarrow> os \<Rightarrow> (err + 'a list \<times> bool) \<times> os"
where
  "by_size n fetch page s =
     (case fetch page s of (Inl e, s1) \<Rightarrow> (Inl e, s1) | (Inr items, s1) \<Rightarrow> (Inr (items, length items < n), s1))"

text \<open>A page whose header names no next page is the last one.\<close>

definition by_header ::
  "(nat \<Rightarrow> os \<Rightarrow> (err + 'a list \<times> string) \<times> os) \<Rightarrow> nat \<Rightarrow> os \<Rightarrow> (err + 'a list \<times> bool) \<times> os"
where
  "by_header fetch page s =
     (case fetch page s of (Inl e, s1) \<Rightarrow> (Inl e, s1) | (Inr (items, nxt), s1) \<Rightarrow> (Inr (items, nxt = []), s1))"

text \<open>A worker that only appends, and what is returned of a loop that collects or only acts.\<close>

definition appending :: "('a \<Rightarrow> 'b list) \<Rightarrow> ('a, 'b list) worker" where
  "appending g x st = Some (Inr (), (fst st @ g x, snd st))"

definition acting :: "('a \<Rightarrow> os \<Rightarrow> ((err + unit) \<times> os) option) \<Rightarrow> ('a, unit) worker" where
  "acting g x st = (case g x (snd st) of None \<Rightarrow> None | Some (r, s1) \<Rightarrow> Some (r, ((), s1)))"

definition collected :: "((err + unit) \<times> 'acc \<times> os) option \<Rightarrow> ((err + 'acc) \<times> os) option" where
  "collected r =
     (case r of
        None \<Rightarrow> None
      | Some (Inl e, st) \<Rightarrow> Some (Inl e, snd st)
      | Some (Inr _, st) \<Rightarrow> Some (Inr (fst st), snd st))"

definition acted :: "((err + unit) \<times> unit \<times> os) option \<Rightarrow> ((err + unit) \<times> os) option" where
  "acted r = (case r of None \<Rightarrow> None | Some (x, st) \<Rightarrow> Some (x, snd st))"

definition in_context :: "string \<Rightarrow> (err + 'a) \<times> os \<Rightarrow> (err + 'a) \<times> os" where
  "in_context ctx r = (case r of (Inl e, s) \<Rightarrow> (Inl (Wrap ctx e), s) | (Inr x, s) \<Rightarrow> (Inr x, s))"

section \<open>What a page loop keeps\<close>

lemma for_each_keeps:
  assumes "for_each f xs st = Some (r, st')" "I st"
    and "\<And>x st r st'. x \<in> set xs \<Longrightarrow> I st \<Longrightarrow> f x st = Some (r, st') \<Longrightarrow> I st'"
  shows "I st'"
  using assms
proof (induction xs arbitrary: st)
  case (Cons x xs)
  from Cons.prems(1) obtain r1 st1 where f: "f x st = Some (r1, st1)"
    and rest: "st' = st1 \<or> for_each f xs st1 = Some (r, st')"
    by (auto split: option.splits sum.splits)
  have "I st1" using Cons.prems(2,3) f by auto
  with rest Cons.IH [of st1] Cons.prems(3) show ?case by auto
qed auto

lemma page_step_cases:
  obtains (no_page) e s1 where "fetch p (snd st) = (Inl e, s1)" "page_step fetch f p st = Return (Some (Inl e, (fst st, s1)))"
  | (stuck) items l s1 where "fetch p (snd st) = (Inr (items, l), s1)" "for_each f items (fst st, s1) = None"
      "page_step fetch f p st = Return None"
  | (failed) items l s1 e st2 where "fetch p (snd st) = (Inr (items, l), s1)" "for_each f items (fst st, s1) = Some (Inl e, st2)"
      "page_step fetch f p st = Return (Some (Inl e, st2))"
  | (final) items s1 st2 where "fetch p (snd st) = (Inr (items, True), s1)" "for_each f items (fst st, s1) = Some (Inr (), st2)"
      "page_step fetch f p st = Return (Some (Inr (), st2))"
  | (more) items s1 st2 where "fetch p (snd st) = (Inr (items, False), s1)" "for_each f items (fst st, s1) = Some (Inr (), st2)"
      "page_step fetch f p st = Next st2"
proof -
  obtain x s1 where x: "fetch p (snd st) = (x, s1)" by fastforce
  show ?thesis
  proof (cases x)
    case (Inl e)
    with x show ?thesis by (intro no_page) (auto simp: page_step_def)
  next
    case (Inr il)
    obtain items l where il: "il = (items, l)" by fastforce
    show ?thesis
    proof (cases "for_each f items (fst st, s1)")
      case None
      with x Inr il show ?thesis by (intro stuck) (auto simp: page_step_def)
    next
      case (Some w)
      obtain y st2 where w: "w = (y, st2)" by (cases w)
      show ?thesis
      proof (cases y)
        case (Inl e)
        with x \<open>x = Inr il\<close> il Some w show ?thesis by (intro failed) (auto simp: page_step_def)
      next
        case (Inr u)
        with x \<open>x = Inr il\<close> il Some w show ?thesis
          by (cases l) (auto simp: page_step_def intro: final more)
      qed
    qed
  qed
qed

lemma paged_keeps:
  assumes "paged fetch f st = Some (r, st')" "I st"
    and fetch: "\<And>page st x s1. I st \<Longrightarrow> fetch page (snd st) = (x, s1) \<Longrightarrow> I (fst st, s1)"
    and work: "\<And>x st r st'. I st \<Longrightarrow> f x st = Some (r, st') \<Longrightarrow> I st'"
  shows "I st'"
proof -
  from assms(1) obtain q where q: "for_pages (page_step fetch f) 1 st = Some q" "q = Some (r, st')"
    by (auto simp: paged_def bind_eq_Some_conv)
  have items: "I st2" if "I st" "fetch p (snd st) = (Inr il, s1)" "for_each f xs (fst st, s1) = Some (x, st2)" for p st il s1 xs x st2
    using for_each_keeps [OF that(3), of I] fetch [OF that(1,2)] work by blast
  have "\<forall>r st'. q = Some (r, st') \<longrightarrow> I st'"
  proof (rule for_pages_invariant [where I = I, OF q(1) assms(2)])
    fix p st st1 assume I: "I st" and st1: "page_step fetch f p st = Next st1"
    show "I st1"
      by (cases rule: page_step_cases [of fetch p st f]) (use I st1 in \<open>auto intro: items\<close>)
  next
    fix p st q assume I: "I st" and q: "page_step fetch f p st = Return q"
    show "\<forall>r st'. q = Some (r, st') \<longrightarrow> I st'"
      by (cases rule: page_step_cases [of fetch p st f]) (use I q in \<open>auto intro: items fetch\<close>)
  qed
  with q(2) show ?thesis by blast
qed

text \<open>The loop returns when some page is an error or the last one, whatever the state.\<close>

lemma for_each_total: "(\<And>x st. f x st \<noteq> None) \<Longrightarrow> for_each f xs st \<noteq> None"
proof (induction xs arbitrary: st)
  case (Cons x xs)
  then obtain r st1 where "f x st = Some (r, st1)" by (metis option.exhaust surj_pair)
  with Cons show ?case by (cases r) auto
qed simp

lemma paged_returns:
  fixes f :: "('a, 'acc) worker"
  assumes total: "\<And>x st. f x st \<noteq> None"
    and last: "\<And>s. \<exists>x s1. fetch (Suc n) s = (x, s1) \<and> (\<forall>items l. x = Inr (items, l) \<longrightarrow> l)"
  shows "\<exists>r st'. paged fetch f st = Some (r, st')"
proof -
  have "\<exists>q. for_pages (page_step fetch f) 1 st = Some q"
  proof (rule for_pages_returns [where n = n])
    fix st :: "'acc \<times> os"
    obtain x s1 where x: "fetch (Suc n) (snd st) = (x, s1)" "\<forall>items l. x = Inr (items, l) \<longrightarrow> l" using last by blast
    then show "\<exists>r. page_step fetch f (1 + n) st = Return r"
      by (cases rule: page_step_cases [of fetch "1 + n" st f]) auto
  qed
  then obtain q where q: "for_pages (page_step fetch f) 1 st = Some q" ..
  have "q \<noteq> None"
  proof (rule for_pages_invariant [where I = "\<lambda>_. True", OF q])
    fix p st q assume "page_step fetch f p st = Return q"
    then show "q \<noteq> None"
      by (cases rule: page_step_cases [of fetch p st f]) (auto simp: for_each_total [of f, OF total])
  qed auto
  with q show ?thesis by (auto simp: paged_def)
qed

text \<open>A listing of one page.\<close>

lemma paged_single:
  assumes "fetch 1 s = (Inr (items, True), s1)" "for_each f items (acc, s1) = Some (r, st)"
  shows "paged fetch f (acc, s) = Some (r, st)"
proof -
  have "page_step fetch f 1 (acc, s) = Return (Some (r, st))"
    using assms by (cases r) (simp_all add: page_step_def)
  then show ?thesis by (simp add: paged_def for_pages_Return)
qed

text \<open>
  A server that serves a list in pages of size \<open>n\<close> has the whole list worked on, in order.
\<close>

lemma for_each_fold:
  assumes "\<And>x acc s. f x (acc, s) = Some (Inr (), (g x acc, h x s))"
  shows "for_each f xs (acc, s) = Some (Inr (), (fold g xs acc, fold h xs s))"
  by (induction xs arbitrary: acc s) (simp_all add: assms)

lemma paged_collects:
  assumes n: "n > 0"
    and serves: "\<And>p s. p * n \<le> length xs \<Longrightarrow>
      fetch (Suc p) s = (Inr (take n (drop (p * n) xs), length (take n (drop (p * n) xs)) < n), v p s)"
    and work: "\<And>x acc s. f x (acc, s) = Some (Inr (), (g x acc, h x s))"
  shows "\<exists>s'. paged fetch f (acc, s) = Some (Inr (), (fold g xs acc, s'))"
proof -
  have "\<exists>s'. for_pages (page_step fetch f) (Suc p) (acc, s) = Some (Some (Inr (), (fold g (drop (p * n) xs) acc, s')))"
    if "p * n \<le> length xs" for p acc s
    using that
  proof (induction "length xs - p * n" arbitrary: p acc s rule: less_induct)
    case less
    let ?chunk = "take n (drop (p * n) xs)"
    have split: "drop (p * n) xs = ?chunk @ drop (Suc p * n) xs" by (simp add: add.commute flip: drop_drop)
    have folds: "fold g (drop (p * n) xs) acc = fold g (drop (Suc p * n) xs) (fold g ?chunk acc)"
      by (subst split) (simp only: fold_append o_apply)
    note fe = for_each_fold [of f g h, OF work, of ?chunk acc "v p s"]
    have ps: "page_step fetch f (Suc p) (acc, s) =
        (if length ?chunk < n then Return (Some (Inr (), (fold g ?chunk acc, fold h ?chunk (v p s))))
         else Next (fold g ?chunk acc, fold h ?chunk (v p s)))"
      unfolding page_step_def by (simp only: serves [OF less.prems] fe prod.case sum.case option.case fst_conv snd_conv)
    show ?case
    proof (cases "length ?chunk < n")
      case True
      then have "length xs \<le> n + p * n" by (simp add: min_def split: if_splits)
      then have "drop (Suc p * n) xs = []" by simp
      then have "fold g (drop (p * n) xs) acc = fold g ?chunk acc" using folds by (simp only: fold_simps id_apply)
      moreover have "for_pages (page_step fetch f) (Suc p) (acc, s) = Some (Some (Inr (), (fold g ?chunk acc, fold h ?chunk (v p s))))"
        using True ps by (intro for_pages_Return) (simp only: if_True)
      ultimately show ?thesis by metis
    next
      case False
      then have "n + p * n \<le> length xs" using less.prems by (simp add: min_def split: if_splits)
      then have le: "Suc p * n \<le> length xs" by simp
      from False have "for_pages (page_step fetch f) (Suc p) (acc, s)
          = for_pages (page_step fetch f) (Suc (Suc p)) (fold g ?chunk acc, fold h ?chunk (v p s))"
        using ps by (intro for_pages_Next) (simp only: if_False)
      moreover have "length xs - Suc p * n < length xs - p * n" using le n by simp
      then obtain s' where "for_pages (page_step fetch f) (Suc (Suc p)) (fold g ?chunk acc, fold h ?chunk (v p s))
          = Some (Some (Inr (), (fold g (drop (Suc p * n) xs) (fold g ?chunk acc), s')))"
        using less.hyps [of "Suc p"] le by blast
      ultimately show ?thesis unfolding folds by simp
    qed
  qed
  from this [of 0 acc s] obtain s' where "for_pages (page_step fetch f) 1 (acc, s) = Some (Some (Inr (), (fold g xs acc, s')))"
    by auto
  then show ?thesis by (simp add: paged_def)
qed

text \<open>The same for a server that marks its last page: the pages are worked on one by one.\<close>

lemma paged_pages:
  assumes serves: "\<And>p s. p < length ps \<Longrightarrow> fetch (Suc p) s = (Inr (ps ! p, Suc p = length ps), v p s)"
    and ne: "ps \<noteq> []"
    and work: "\<And>x acc s. x \<in> set (concat ps) \<Longrightarrow> f x (acc, s) = Some (Inr (), (g x acc, h x s))"
  shows "\<exists>s'. paged fetch f (acc, s) = Some (Inr (), (fold g (concat ps) acc, s'))"
proof -
  have fe: "for_each f xs (acc, s) = Some (Inr (), (fold g xs acc, fold h xs s))" if "set xs \<subseteq> set (concat ps)" for xs acc s
    using that by (induction xs arbitrary: acc s) (simp_all add: work)
  have "\<exists>s'. for_pages (page_step fetch f) (Suc p) (acc, s) = Some (Some (Inr (), (fold g (concat (drop p ps)) acc, s')))"
    if "p < length ps" for p acc s
    using that
  proof (induction "length ps - p" arbitrary: p acc s rule: less_induct)
    case less
    have split: "concat (drop p ps) = ps ! p @ concat (drop (Suc p) ps)"
      using less.prems by (simp flip: Cons_nth_drop_Suc)
    have "set (ps ! p) \<subseteq> set (concat ps)" using less.prems by (auto intro: nth_mem)
    note fe = fe [OF this, of acc "v p s"]
    show ?case
    proof (cases "Suc p = length ps")
      case True
      then have "page_step fetch f (Suc p) (acc, s) = Return (Some (Inr (), (fold g (ps ! p) acc, fold h (ps ! p) (v p s))))"
        unfolding page_step_def using serves [OF less.prems] fe by simp
      from for_pages_Return [of "page_step fetch f", OF this] True show ?thesis unfolding split by simp
    next
      case False
      then have "page_step fetch f (Suc p) (acc, s) = Next (fold g (ps ! p) acc, fold h (ps ! p) (v p s))"
        unfolding page_step_def using serves [OF less.prems] fe by simp
      from for_pages_Next [of "page_step fetch f", OF this] less.hyps [of "Suc p"] False less.prems
      show ?thesis unfolding split by simp
    qed
  qed
  from this [of 0 acc s] ne obtain s' where "for_pages (page_step fetch f) 1 (acc, s) = Some (Some (Inr (), (fold g (concat ps) acc, s')))"
    by auto
  then show ?thesis by (simp add: paged_def)
qed

lemma paged_pages_appending:
  assumes "\<And>p s. p < length ps \<Longrightarrow> fetch (Suc p) s = (Inr (ps ! p, Suc p = length ps), v p s)" "ps \<noteq> []"
  shows "\<exists>s'. collected (paged fetch (appending g) ([], s)) = Some (Inr (concat (map g (concat ps))), s')"
proof -
  obtain s' where "paged fetch (appending g) ([], s) = Some (Inr (), (fold (\<lambda>x acc. acc @ g x) (concat ps) [], s'))"
    using paged_pages [where ps = ps and fetch = fetch and v = v and f = "appending g" and g = "\<lambda>x acc. acc @ g x" and h = "\<lambda>x s. s" and acc = "[]" and s = s] assms
    by (auto simp: appending_def)
  moreover have "fold (\<lambda>x acc. acc @ g x) xs acc = acc @ concat (map g xs)" for xs acc
    by (induction xs arbitrary: acc) simp_all
  ultimately show ?thesis by (simp add: collected_def)
qed

lemma fold_append_map: "fold (\<lambda>x acc. acc @ g x) xs acc = acc @ concat (map g xs)"
  by (induction xs arbitrary: acc) simp_all

lemma paged_appending:
  assumes "n > 0"
    and "\<And>p s. p * n \<le> length xs \<Longrightarrow>
      fetch (Suc p) s = (Inr (take n (drop (p * n) xs), length (take n (drop (p * n) xs)) < n), v p s)"
  shows "\<exists>s'. collected (paged fetch (appending g) ([], s)) = Some (Inr (concat (map g xs)), s')"
proof -
  obtain s' where "paged fetch (appending g) ([], s) = Some (Inr (), (fold (\<lambda>x acc. acc @ g x) xs [], s'))"
    using paged_collects [of n xs fetch v "appending g" "\<lambda>x acc. acc @ g x" "\<lambda>x s. s" "[]" s] assms
    by (auto simp: appending_def)
  then show ?thesis by (simp add: collected_def fold_append_map)
qed

section \<open>Fetching leaves the file system alone\<close>

lemma http_do_reads: "http_do net rq s = (x, s') \<Longrightarrow> reads_only s s'"
  by (auto simp: http_do_def reads_only_def)

lemma get_json_reads: "get_json net hs u dec s = (x, s') \<Longrightarrow> reads_only s s'"
  by (auto simp: get_json_def Let_def dest: http_do_reads split: sum.splits prod.splits if_splits option.splits)

lemma net_get_snd: "reads_only s (snd (net_get net hs u s))"
  using http_do_reads [OF surjective_pairing] by (auto simp: net_get_def split: sum.split)

lemma net_get_reads: "net_get net hs u s = (x, s') \<Longrightarrow> reads_only s s'"
  using net_get_snd [of s net hs u] by simp

lemma in_context_reads: "in_context c r = (x, s') \<Longrightarrow> s' = snd r"
  by (auto simp: in_context_def split: sum.splits prod.splits)

lemma by_size_snd: "snd (by_size n fetch page s) = snd (fetch page s)"
  by (auto simp: by_size_def split: sum.splits prod.splits)

lemma by_header_snd: "snd (by_header fetch page s) = snd (fetch page s)"
  by (auto simp: by_header_def split: sum.splits prod.splits)

lemma paged_reads:
  assumes "paged fetch f (acc, s) = Some (r, st')"
    and "\<And>page s. reads_only s (snd (fetch page s))"
    and "\<And>x st r st'. f x st = Some (r, st') \<Longrightarrow> reads_only (snd st) (snd st')"
  shows "reads_only s (snd st')"
proof (intro paged_keeps [where I = "\<lambda>st. reads_only s (snd st)", OF assms(1)])
  fix page st x s1 assume "reads_only s (snd st)" "fetch page (snd st) = (x, s1)"
  then show "reads_only s (snd (fst st, s1))" using assms(2) [of "snd st" page] by (auto intro: reads_only_trans)
next
  fix x st r st' assume "reads_only s (snd st)" "f x st = Some (r, st')"
  then show "reads_only s (snd st')" using assms(3) by (blast intro: reads_only_trans)
qed simp

text \<open>
  \<open>written dir s s'\<close>: from \<open>s\<close> to \<open>s'\<close> an exporter only sent requests and called the four
  \<open>Write\<dots>\<close> functions on its directory. Whatever those calls have in common holds of an
  export by rule induction.
\<close>

inductive written :: "string \<Rightarrow> os \<Rightarrow> os \<Rightarrow> bool" for dir where
  written_reads: "reads_only s s' \<Longrightarrow> written dir s s'"
| written_issue: "written dir s (snd (WriteIssue dir i s))"
| written_pull_request: "written dir s (snd (WritePullRequest dir p s))"
| written_release: "written dir s (snd (WriteRelease dir r s))"
| written_asset: "written dir s (snd (WriteReleaseAsset dir tag name body s))"
| written_trans: "written dir s s1 \<Longrightarrow> written dir s1 s2 \<Longrightarrow> written dir s s2"

lemma written_refl [simp]: "written dir s s"
  by (rule written_reads) simp

lemma reads_written: "reads_only s s1 \<Longrightarrow> written dir s1 s2 \<Longrightarrow> written dir s s2"
  by (rule written_trans [OF written_reads])

lemma confined_dir_trans:
  assumes "confined {at_path s dir} s s1" "confined {at_path s1 dir} s1 s2"
  shows "confined {at_path s dir} s s2"
  using confined_trans [OF assms(1)] assms(2) by (simp add: confined_at [OF assms(1)])

lemma written_confined: "written dir s s' \<Longrightarrow> confined {at_path s dir} s s'"
proof (induction rule: written.induct)
  case (written_trans s s1 s2)
  then show ?case by (blast intro: confined_dir_trans)
qed (auto intro: reads_only_confined confined_WriteIssue [OF surjective_pairing] confined_WritePullRequest [OF surjective_pairing]
    confined_WriteRelease [OF surjective_pairing] confined_WriteReleaseAsset [OF surjective_pairing])

text \<open>An export loop writes only so when its page fetches only read and its workers write so.\<close>

lemma paged_written:
  assumes run: "acted (paged fetch (acting g) ((), s)) = Some (r, s')"
    and fetch: "\<And>page s. reads_only s (snd (fetch page s))"
    and work: "\<And>x s r s'. g x s = Some (r, s') \<Longrightarrow> written dir s s'"
  shows "written dir s s'"
proof -
  from run obtain st' where st': "paged fetch (acting g) ((), s) = Some (r, st')" "s' = snd st'"
    by (auto simp: acted_def split: option.splits)
  have "written dir s (snd st')"
  proof (rule paged_keeps [where I = "\<lambda>st. written dir s (snd st)", OF st'(1)])
    fix page st x s1 assume I: "written dir s (snd st)" and f: "fetch page (snd st) = (x, s1)"
    have "reads_only (snd st) s1" using fetch [of "snd st" page] f by simp
    with I show "written dir s (snd (fst st, s1))" by (auto intro: written_trans written_reads)
  next
    fix x st r st2 assume I: "written dir s (snd st)" and "acting g x st = Some (r, st2)"
    then have "written dir (snd st) (snd st2)" by (auto simp: acting_def dest: work split: option.splits)
    with I show "written dir s (snd st2)" by (rule written_trans)
  qed simp
  with st'(2) show ?thesis by simp
qed

lemma collected_reads:
  assumes "collected r = Some (x, s')" "\<And>y st'. r = Some (y, st') \<Longrightarrow> reads_only s (snd st')"
  shows "reads_only s s'"
  using assms by (auto simp: collected_def split: option.splits sum.splits)

lemma collected_appending_reads:
  assumes "collected (paged fetch (appending g) (acc, s)) = Some (x, s')"
    and "\<And>page s. reads_only s (snd (fetch page s))"
  shows "reads_only s s'"
  using assms(1)
proof (rule collected_reads)
  fix y st' assume "paged fetch (appending g) (acc, s) = Some (y, st')"
  then show "reads_only s (snd st')"
    by (rule paged_reads) (use assms(2) in \<open>auto simp: appending_def\<close>)
qed

lemma collect_each_written:
  assumes "collect_each f xs s = (r, s')" "\<And>x s r s'. f x s = (r, s') \<Longrightarrow> written dir s s'"
  shows "written dir s s'"
  using assms(1)
proof (induction xs arbitrary: s r)
  case (Cons x xs)
  then show ?case by (auto split: sum.splits prod.splits dest!: assms(2) Cons.IH intro: written_trans)
qed simp

lemma in_context_written: "in_context ctx r = (x, s') \<Longrightarrow> written dir s (snd r) \<Longrightarrow> written dir s s'"
  by (auto simp: in_context_def split: sum.splits prod.splits)

lemmas exporter_writes = written_reads written_issue written_pull_request written_release written_asset
  in_context_written [OF _ written_issue] in_context_written [OF _ written_pull_request]
  in_context_written [OF _ written_release] in_context_written [OF _ written_asset]

lemma in_context_snd [simp]: "snd (in_context ctx r) = snd r"
  by (auto simp: in_context_def split: sum.splits prod.splits)

lemma get_json_snd [simp]: "reads_only s (snd (get_json net hs u dec s))"
  by (rule get_json_reads [OF surjective_pairing])

lemma plain_kinds: "plain_name MetadataIssues" "plain_name MetadataReleases" "plain_name MetadataPullRequests"
  by (simp_all add: plain_name_def MetadataIssues_def MetadataReleases_def MetadataPullRequests_def)


text \<open>
  An exporter that only writes so keeps the exporter's contract. The exporters of the forges
  are page loops over items, each written so.
\<close>

locale file_exporter =
  fixes exporter :: metadata_exporter
  assumes plain_kind: "plain_name (exp_kind exporter)"
    and export_written: "exp_export exporter r d s = Some (x, s') \<Longrightarrow> written d s s'"

sublocale file_exporter \<subseteq> exporter_contract
  by unfold_locales (auto intro: plain_kind export_written written_confined)

lemma paged_exporter:
  assumes "plain_name k"
    and "\<And>r page s. reads_only s (snd (fetch r page s))"
    and "\<And>r dir x s y s'. g r dir x s = Some (y, s') \<Longrightarrow> written dir s s'"
  shows "file_exporter \<lparr>exp_kind = k, exp_export = (\<lambda>r dir s. acted (paged (fetch r) (acting (g r dir)) ((), s)))\<rparr>"
  by unfold_locales (use assms in \<open>auto elim!: paged_written\<close>)

section \<open>Where requests go\<close>

text \<open>All requests sent between two states satisfy a predicate.\<close>

definition sends :: "(request \<Rightarrow> bool) \<Rightarrow> os \<Rightarrow> os \<Rightarrow> bool" where
  "sends P s s' \<longleftrightarrow> (\<exists>new. os_requests s' = os_requests s @ new \<and> list_all P new)"

lemma sends_refl [simp]: "sends P s s"
  by (simp add: sends_def)

lemma sends_trans: "sends P s s1 \<Longrightarrow> sends P s1 s2 \<Longrightarrow> sends P s s2"
  unfolding sends_def using list_all_append by fastforce

lemma sends_same: "os_requests s' = os_requests s \<Longrightarrow> sends P s s'"
  by (simp add: sends_def)

lemma sends_log [simp]: "sends P s (log_at l m p s') = sends P s s'"
  by (simp add: sends_def log_at_def)

lemma http_do_sends: "P rq \<Longrightarrow> sends P s (snd (http_do net rq s))"
  by (simp add: sends_def http_do_def)

lemma net_get_sends: "P \<lparr>rq_url = u, rq_headers = hs\<rparr> \<Longrightarrow> sends P s (snd (net_get net hs u s))"
  using http_do_sends [where P = P, of "\<lparr>rq_url = u, rq_headers = hs\<rparr>" s net]
  by (simp add: net_get_def new_request_def split: sum.split option.split)

lemma get_json_sends:
  assumes "P \<lparr>rq_url = url_string u, rq_headers = hs\<rparr>"
  shows "sends P s (snd (get_json net hs u dec s))"
  using http_do_sends [where P = P, OF assms, of s net]
  by (auto simp: get_json_def Let_def new_request_def split: sum.splits prod.splits option.splits)

lemma paged_sends:
  assumes "paged fetch f (acc, s) = Some (r, st')"
    and "\<And>page s. sends P s (snd (fetch page s))"
    and "\<And>x st r st'. f x st = Some (r, st') \<Longrightarrow> sends P (snd st) (snd st')"
  shows "sends P s (snd st')"
proof (intro paged_keeps [where I = "\<lambda>st. sends P s (snd st)", OF assms(1)])
  fix page st x s1 assume "sends P s (snd st)" "fetch page (snd st) = (x, s1)"
  then show "sends P s (snd (fst st, s1))" using assms(2) [of "snd st" page] by (auto intro: sends_trans)
next
  fix x st r st' assume "sends P s (snd st)" "f x st = Some (r, st')"
  then show "sends P s (snd st')" using assms(3) by (blast intro: sends_trans)
qed simp

lemma collected_sends:
  assumes "collected r = Some (x, s')" "\<And>y st'. r = Some (y, st') \<Longrightarrow> sends P s (snd st')"
  shows "sends P s s'"
  using assms by (auto simp: collected_def split: option.splits sum.splits)

lemma collected_appending_sends:
  assumes "collected (paged fetch (appending g) (acc, s)) = Some (x, s')"
    and "\<And>page s. sends P s (snd (fetch page s))"
  shows "sends P s s'"
  using assms(1)
proof (rule collected_sends)
  fix y st' assume "paged fetch (appending g) (acc, s) = Some (y, st')"
  then show "sends P s (snd st')"
    by (rule paged_sends) (use assms(2) in \<open>auto simp: appending_def\<close>)
qed

lemma acted_sends:
  assumes "acted (paged fetch (acting g) ((), s)) = Some (x, s')"
    and "\<And>page s. sends P s (snd (fetch page s))"
    and "\<And>x s r s'. g x s = Some (r, s') \<Longrightarrow> sends P s s'"
  shows "sends P s s'"
proof -
  from assms(1) obtain st' where st': "paged fetch (acting g) ((), s) = Some (x, st')" "s' = snd st'"
    by (auto simp: acted_def split: option.splits)
  have "sends P s (snd st')"
    by (rule paged_sends [OF st'(1) assms(2)]) (auto simp: acting_def dest: assms(3) split: option.splits)
  with st'(2) show ?thesis by simp
qed

lemma collect_each_sends:
  assumes "collect_each f xs s = (r, s')" "\<And>x s r s'. f x s = (r, s') \<Longrightarrow> sends P s s'"
  shows "sends P s s'"
  using assms(1)
proof (induction xs arbitrary: s r)
  case (Cons x xs)
  obtain y s1 where f: "f x s = (y, s1)" by fastforce
  show ?case
  proof (cases y)
    case (Inl e)
    with Cons.prems f assms(2) [OF f] show ?thesis by simp
  next
    case (Inr v)
    with Cons.prems f obtain z where "collect_each f xs s1 = (z, s')" by (auto split: sum.splits prod.splits)
    from sends_trans [OF assms(2) [OF f] Cons.IH [OF this]] show ?thesis .
  qed
qed simp

text \<open>Working on files sends nothing.\<close>

lemma put_requests [simp]: "os_requests (put p n s) = os_requests s" "os_requests (keep q s) = os_requests s"
  by (simp_all add: put_def keep_def)

lemma mkdir_all_requests [simp]: "os_requests (snd (sys_mkdir_all p s)) = os_requests s"
  unfolding sys_mkdir_all_def by (simp split: option.split)

lemma write_file_requests [simp]: "os_requests (snd (sys_write_file p d s)) = os_requests s"
  unfolding sys_write_file_def by (simp split: option.split)

lemma create_requests [simp]: "os_requests (snd (sys_create p s)) = os_requests s"
  unfolding sys_create_def by (simp split: option.split)

lemma remove_requests [simp]: "os_requests (snd (sys_remove p s)) = os_requests s"
  unfolding sys_remove_def by (simp split: option.split)

lemma io_copy_requests [simp]: "os_requests (snd (io_copy p b s)) = os_requests s"
  unfolding io_copy_def by (simp add: Let_def split: option.split)

lemma Write_requests:
  "os_requests (snd (WriteIssue dir i s)) = os_requests s"
  "os_requests (snd (WritePullRequest dir p s)) = os_requests s"
  "os_requests (snd (WriteRelease dir r s)) = os_requests s"
  "os_requests (snd (WriteReleaseAsset dir tag name body s)) = os_requests s"
proof -
  show "os_requests (snd (WriteIssue dir i s)) = os_requests s"
    unfolding WriteIssue_def Let_def by (simp add: case_prod_beta split: sum.split)
  show "os_requests (snd (WritePullRequest dir p s)) = os_requests s"
    unfolding WritePullRequest_def Let_def by (simp add: case_prod_beta split: sum.split)
  show "os_requests (snd (WriteRelease dir r s)) = os_requests s"
    unfolding WriteRelease_def Let_def by (simp add: case_prod_beta split: sum.split)
  show "os_requests (snd (WriteReleaseAsset dir tag name body s)) = os_requests s"
    unfolding WriteReleaseAsset_def Let_def by (simp add: case_prod_beta split: sum.split option.split)
qed

lemma written_requests:
  "in_context ctx (WriteIssue dir i s) = (x, s') \<Longrightarrow> os_requests s' = os_requests s"
  "in_context ctx (WritePullRequest dir p s) = (x, s') \<Longrightarrow> os_requests s' = os_requests s"
  "in_context ctx (WriteRelease dir r s) = (x, s') \<Longrightarrow> os_requests s' = os_requests s"
  "in_context ctx (WriteReleaseAsset dir tag name body s) = (y, s') \<Longrightarrow> os_requests s' = os_requests s"
  using Write_requests by (metis in_context_snd snd_conv)+

lemma WriteIssue_written:
  assumes "in_context ctx (WriteIssue dir i s) = (Inr u, s')"
  shows "os_mach s' = os_mach s"
    and "look s' = (look s)(numbered_file dir (i_number i) s \<mapsto> File (MarshalIndent (issue_json (full_issue i))))"
proof -
  have "sys_write_file (numbered_file dir (i_number i) s) (MarshalIndent (issue_json (full_issue i))) s = (Inr (), s')"
    using assms by (auto simp: in_context_def WriteIssue_alt split: sum.splits prod.splits)
  from write_file_look [OF this] show "os_mach s' = os_mach s"
    "look s' = (look s)(numbered_file dir (i_number i) s \<mapsto> File (MarshalIndent (issue_json (full_issue i))))"
    by auto
qed

lemma WritePullRequest_written:
  assumes "in_context ctx (WritePullRequest dir p s) = (Inr u, s')"
  shows "os_mach s' = os_mach s"
    and "look s' = (look s)(numbered_file dir (pr_number p) s \<mapsto> File (MarshalIndent (pull_request_json (full_pull_request p))))"
proof -
  have "sys_write_file (numbered_file dir (pr_number p) s) (MarshalIndent (pull_request_json (full_pull_request p))) s = (Inr (), s')"
    using assms by (auto simp: in_context_def WritePullRequest_alt split: sum.splits prod.splits)
  from write_file_look [OF this] show "os_mach s' = os_mach s"
    "look s' = (look s)(numbered_file dir (pr_number p) s \<mapsto> File (MarshalIndent (pull_request_json (full_pull_request p))))"
    by auto
qed

lemma numbered_file_cong: "os_mach s' = os_mach s \<Longrightarrow> numbered_file dir n s' = numbered_file dir n s"
  by (simp add: numbered_file_def at_path_def)

lemma WriteIssue_succeeds:
  assumes "look s (at_path s dir) = Some Dir" "look s (numbered_file dir (i_number i) s) = None" "\<And>x. fault s x = None"
  shows "\<exists>s'. in_context ctx (WriteIssue dir i s) = (Inr (), s')"
  using assms by (simp add: in_context_def WriteIssue_alt sys_write_file_def numbered_file_def butlast_append)

text \<open>Building on a URL keeps where it points: its scheme, user and host.\<close>

definition same_site :: "url \<Rightarrow> url \<Rightarrow> bool" where
  "same_site u v \<longleftrightarrow> u_scheme u = u_scheme v \<and> u_user u = u_user v \<and> u_host u = u_host v"

lemma same_site_build [simp]:
  "same_site (with_query q u) v = same_site u v" "same_site (join_path u e) v = same_site u v" "same_site u u"
  by (auto simp: same_site_def with_query_def join_path_def set_path_def Let_def split: option.splits)

section \<open>A forge that serves a listing\<close>

text \<open>The answer to a request is 200 with a document that decodes to a value.\<close>

definition answers :: "net \<Rightarrow> (string \<times> string) list \<Rightarrow> url \<Rightarrow> (json \<Rightarrow> 'a option) \<Rightarrow> 'a \<Rightarrow> bool" where
  "answers net hs u dec x =
     (case new_request net (url_string u) hs of
        Inl _ \<Rightarrow> False
      | Inr rq \<Rightarrow>
          (case net_do net rq of
             Inl _ \<Rightarrow> False
           | Inr resp \<Rightarrow> rs_status resp = 200 \<and> Option.bind (rs_json resp) dec = Some x))"

text \<open>The pages of a listing, at the URLs it is asked for; all but the last are full.\<close>

definition serves :: "net \<Rightarrow> (string \<times> string) list \<Rightarrow> (nat \<Rightarrow> url) \<Rightarrow> (json \<Rightarrow> 'a list option) \<Rightarrow> 'a list list \<Rightarrow> bool" where
  "serves net hs at dec ps \<longleftrightarrow> ps \<noteq> [] \<and> list_all (\<lambda>p. answers net hs (at (Suc p)) dec (ps ! p)) [0..<length ps]"

definition full_pages :: "nat \<Rightarrow> 'a list list \<Rightarrow> bool" where
  "full_pages n ps \<longleftrightarrow> list_all (\<lambda>xs. length xs = n) (butlast ps) \<and> length (last ps) < n"

lemma full_pages_short:
  assumes "full_pages n ps" "p < length ps"
  shows "length (ps ! p) < n \<longleftrightarrow> Suc p = length ps"
proof (cases "Suc p = length ps")
  case True
  then have "ps ! p = last ps" by (metis Zero_not_Suc diff_Suc_1 last_conv_nth list.size(3))
  with True assms show ?thesis by (simp add: full_pages_def)
next
  case False
  with assms(2) have "ps ! p \<in> set (butlast ps)"
    by (metis Suc_lessI length_butlast less_diff_conv nth_butlast nth_mem plus_1_eq_Suc add.commute)
  with False assms show ?thesis by (auto simp: full_pages_def list_all_iff)
qed

lemma serves_answers: "serves net hs at dec ps \<Longrightarrow> p < length ps \<Longrightarrow> answers net hs (at (Suc p)) dec (ps ! p)"
  by (simp add: serves_def list_all_iff)

lemma answers_get_json:
  "answers net hs u dec x \<Longrightarrow>
    get_json net hs u dec s = (Inr x, s\<lparr>os_requests := os_requests s @ [\<lparr>rq_url = url_string u, rq_headers = hs\<rparr>]\<rparr>)"
  by (auto simp: answers_def get_json_def new_request_def http_do_def Let_def split: option.splits sum.splits)

lemma answers_net_get:
  assumes "answers net hs u dec x"
  obtains resp where "net_get net hs (url_string u) s = (Inr resp, s\<lparr>os_requests := os_requests s @ [\<lparr>rq_url = url_string u, rq_headers = hs\<rparr>]\<rparr>)"
    "net_do net \<lparr>rq_url = url_string u, rq_headers = hs\<rparr> = Inr resp" "rs_status resp = 200" "Option.bind (rs_json resp) dec = Some x"
  using assms by (auto simp: answers_def net_get_def new_request_def http_do_def split: option.splits sum.splits)

text \<open>
  A loop that returns without error has worked on every item served; what each item
  establishes is there in the end when work on the others keeps it.
\<close>

lemma for_each_establishes:
  assumes "for_each f xs st = Some (Inr u, st')" "I st" "set xs \<subseteq> A"
    and "\<And>x st st'. x \<in> A \<Longrightarrow> I st \<Longrightarrow> f x st = Some (Inr (), st') \<Longrightarrow> I st' \<and> Q x st'"
    and "\<And>x y st st'. x \<in> A \<Longrightarrow> y \<in> A \<Longrightarrow> I st \<Longrightarrow> Q x st \<Longrightarrow> f y st = Some (Inr (), st') \<Longrightarrow> Q x st'"
  shows "I st' \<and> (\<forall>x \<in> set xs. Q x st') \<and> (\<forall>x \<in> A. Q x st \<longrightarrow> Q x st')"
  using assms(1-3)
proof (induction xs arbitrary: st)
  case (Cons x xs)
  then obtain st1 where f: "f x st = Some (Inr (), st1)" and rest: "for_each f xs st1 = Some (Inr u, st')"
    by (auto split: option.splits sum.splits)
  have st1: "I st1" "Q x st1" using Cons.prems assms(4) [of x st st1] f by auto
  from Cons.IH [OF rest st1(1)] Cons.prems st1(2) assms(5) [of _ x st st1] f show ?case by auto
qed simp

lemma paged_establishes:
  assumes run: "paged fetch f st = Some (Inr (), st')" and I: "I st"
    and fetch: "\<And>p st. p < length ps \<Longrightarrow> I st \<Longrightarrow> \<exists>s1. fetch (Suc p) (snd st) = (Inr (ps ! p, Suc p = length ps), s1) \<and>
        I (fst st, s1) \<and> (\<forall>x \<in> set (concat ps). Q x st \<longrightarrow> Q x (fst st, s1))"
    and work: "\<And>x st st'. x \<in> set (concat ps) \<Longrightarrow> I st \<Longrightarrow> f x st = Some (Inr (), st') \<Longrightarrow> I st' \<and> Q x st'"
    and keep: "\<And>x y st st'. x \<in> set (concat ps) \<Longrightarrow> y \<in> set (concat ps) \<Longrightarrow> I st \<Longrightarrow> Q x st \<Longrightarrow> f y st = Some (Inr (), st') \<Longrightarrow> Q x st'"
    and ne: "ps \<noteq> []"
  shows "\<forall>x \<in> set (concat ps). Q x st'"
proof -
  let ?A = "set (concat ps)"
  have "(\<forall>x \<in> set (concat (drop p ps)). Q x st') \<and> (\<forall>x \<in> ?A. Q x st \<longrightarrow> Q x st')"
    if "p < length ps" "I st" "for_pages (page_step fetch f) (Suc p) st = Some (Some (Inr (), st'))" for p st
    using that
  proof (induction "length ps - p" arbitrary: p st rule: less_induct)
    case less
    obtain s1 where s1: "fetch (Suc p) (snd st) = (Inr (ps ! p, Suc p = length ps), s1)" "I (fst st, s1)"
      "\<forall>x \<in> ?A. Q x st \<longrightarrow> Q x (fst st, s1)"
      using fetch [OF less.prems(1,2)] by blast
    have split: "concat (drop p ps) = ps ! p @ concat (drop (Suc p) ps)"
      using less.prems(1) by (simp flip: Cons_nth_drop_Suc)
    have sub: "set (ps ! p) \<subseteq> ?A" using less.prems(1) by (auto intro: nth_mem)
    have step: "page_step fetch f (Suc p) st =
        (case for_each f (ps ! p) (fst st, s1) of
             None \<Rightarrow> Return None
           | Some (Inl e, st2) \<Rightarrow> Return (Some (Inl e, st2))
           | Some (Inr _, st2) \<Rightarrow> if Suc p = length ps then Return (Some (Inr (), st2)) else Next st2)"
      by (simp only: page_step_def s1(1) prod.case sum.case)
    obtain st2 where st2: "for_each f (ps ! p) (fst st, s1) = Some (Inr (), st2)"
    proof (cases "for_each f (ps ! p) (fst st, s1)")
      case None
      then have "page_step fetch f (Suc p) st = Return None" using step by simp
      from for_pages_Return [of "page_step fetch f", OF this] less.prems(3) show thesis by simp
    next
      case (Some w)
      obtain y st2 where Pair: "w = (y, st2)" by (cases w)
      show thesis
      proof (cases y)
        case (Inl e)
        then have "page_step fetch f (Suc p) st = Return (Some (Inl e, st2))" using step Some Pair by simp
        from for_pages_Return [of "page_step fetch f", OF this] less.prems(3) show thesis by simp
      next
        case (Inr u)
        with Some Pair show thesis by (intro that) simp
      qed
    qed
    have est: "I st2 \<and> (\<forall>x \<in> set (ps ! p). Q x st2) \<and> (\<forall>x \<in> ?A. Q x (fst st, s1) \<longrightarrow> Q x st2)"
      by (rule for_each_establishes [where I = I and Q = Q, OF st2 s1(2) sub]) (use work keep in blast)+
    show ?case
    proof (cases "Suc p = length ps")
      case True
      then have "page_step fetch f (Suc p) st = Return (Some (Inr (), st2))" using step st2 by simp
      from for_pages_Return [of "page_step fetch f", OF this] less.prems(3) have "st2 = st'" by simp
      with True est s1(3) show ?thesis unfolding split by auto
    next
      case False
      then have "page_step fetch f (Suc p) st = Next st2" using step st2 by simp
      from for_pages_Next [of "page_step fetch f", OF this] less.prems(3)
      have rest: "for_pages (page_step fetch f) (Suc (Suc p)) st2 = Some (Some (Inr (), st'))" by simp
      have "(\<forall>x \<in> set (concat (drop (Suc p) ps)). Q x st') \<and> (\<forall>x \<in> ?A. Q x st2 \<longrightarrow> Q x st')"
        by (rule less.hyps) (use False less.prems(1) est rest in auto)
      with est s1(3) sub show ?thesis unfolding split by auto
    qed
  qed
  from this [of 0 st] ne I run show ?thesis by (auto simp: paged_def bind_eq_Some_conv)
qed

section \<open>Samples\<close>

definition sample_url :: "string \<Rightarrow> url" where
  "sample_url host = \<lparr>u_scheme = ''https'', u_user = None, u_host = host, u_path = [], u_rawpath = [], u_rawquery = []\<rparr>"

definition answer :: "int \<Rightarrow> json \<Rightarrow> err + response" where
  "answer code j = Inr \<lparr>rs_status = code, rs_headers = [], rs_json = Some j, rs_body = \<lparr>st_data = [], st_error = None\<rparr>\<rparr>"

end
