(* ===== verification/GitHub.thy ===== *)
theory GitHub
  imports Http
begin

text \<open>
  The GitHub client (\<open>internal/github\<close>): listing the repositories of a token, with the check
  of its scopes, building remotes, and exporting issues, releases and pull requests. Each Go
  method is the definition of the same name with a \<open>gh_\<close> in front.
\<close>

definition gh_pageSize :: nat where
  "gh_pageSize = 100"

definition gh_defaultBaseURL :: string where
  "gh_defaultBaseURL = ''https://api.github.com''"

definition gh_apiVersion :: string where
  "gh_apiVersion = ''2022-11-28''"

definition gh_cloneHost :: url where
  "gh_cloneHost = \<lparr>u_scheme = ''https'', u_user = None, u_host = ''github.com'', u_path = [], u_rawpath = [], u_rawquery = []\<rparr>"

record gh_client =
  gh_BaseURL :: url
  gh_Token :: string

definition gh_New :: "net \<Rightarrow> string \<Rightarrow> string \<Rightarrow> err + gh_client" where
  "gh_New net base token =
     (let base = (if base = [] then gh_defaultBaseURL else base) in
      case net_parse net base of
        None \<Rightarrow> Inl (Wrap ''parse github url'' UrlError)
      | Some u \<Rightarrow> Inr \<lparr>gh_BaseURL = u, gh_Token = token\<rparr>)"

definition gh_Remote :: "gh_client \<Rightarrow> remoter" where
  "gh_Remote c r =
     \<lparr>clone_url = url_string (join_path gh_cloneHost (repo_path r @ ''.git'')),
      auth_header = ''Basic '' @ Basic (gh_Token c) []\<rparr>"

definition gh_headers :: "gh_client \<Rightarrow> string \<Rightarrow> (string \<times> string) list" where
  "gh_headers c accept =
     [(''Authorization'', ''Bearer '' @ gh_Token c), (''Accept'', accept), (''X-GitHub-Api-Version'', gh_apiVersion)]"

definition gh_api :: "gh_client \<Rightarrow> (string \<times> string) list" where
  "gh_api c = gh_headers c ''application/vnd.github+json''"

definition gh_getJSON :: "net \<Rightarrow> gh_client \<Rightarrow> url \<Rightarrow> (json \<Rightarrow> 'a option) \<Rightarrow> os \<Rightarrow> (err + 'a) \<times> os" where
  "gh_getJSON net c u dec s = get_json net (gh_api c) u dec s"

text \<open>
  The loops leave on an empty page before they work on it, and on a short one after: both
  are the last page.
\<close>

definition until_short :: "nat \<Rightarrow> (nat \<Rightarrow> os \<Rightarrow> (err + 'a list) \<times> os) \<Rightarrow> nat \<Rightarrow> os \<Rightarrow> (err + 'a list \<times> bool) \<times> os" where
  "until_short n fetch page s =
     (case fetch page s of
        (Inl e, s1) \<Rightarrow> (Inl e, s1)
      | (Inr items, s1) \<Rightarrow> (Inr (items, items = [] \<or> length items < n), s1))"

section \<open>Repositories\<close>

record gh_repo =
  gr_FullName :: string
  gr_Archived :: bool
  gr_Size :: int

definition dec_gh_repo :: "json \<Rightarrow> gh_repo option" where
  "dec_gh_repo = dec_struct (\<lambda>fs. do {
     n \<leftarrow> dec_field ''full_name'' dec_string fs;
     a \<leftarrow> dec_field ''archived'' dec_bool fs;
     sz \<leftarrow> dec_field ''size'' dec_int fs;
     Some \<lparr>gr_FullName = n, gr_Archived = a, gr_Size = sz\<rparr> })"

fun gh_wantsState :: "state \<Rightarrow> bool \<Rightarrow> bool" where
  "gh_wantsState StateActive a = (\<not> a)"
| "gh_wantsState StateArchived a = a"
| "gh_wantsState _ a = True"

definition gh_filterRepos :: "gh_repo list \<Rightarrow> state \<Rightarrow> repo list" where
  "gh_filterRepos items st =
     map (\<lambda>r. \<lparr>repo_path = gr_FullName r, repo_archived = gr_Archived r, repo_empty = (gr_Size r = 0)\<rparr>)
       (filter (\<lambda>r. gh_wantsState st (gr_Archived r)) items)"

definition gh_checkRepoScope :: "string \<Rightarrow> err option" where
  "gh_checkRepoScope raw =
     (if raw = [] then None
      else if list_ex (\<lambda>s. trim_space s = ''repo'') (split_on CHR '','' raw) then None
      else Some ErrMissingRepoScope)"

definition gh_reposURL :: "gh_client \<Rightarrow> nat \<Rightarrow> url" where
  "gh_reposURL c page =
     with_query [(''affiliation'', ''owner,collaborator,organization_member''), (''per_page'', show_nat gh_pageSize), (''page'', show_nat page)]
       (join_path (gh_BaseURL c) ''/user/repos'')"

definition gh_fetchReposPage :: "net \<Rightarrow> gh_client \<Rightarrow> nat \<Rightarrow> os \<Rightarrow> (err + gh_repo list \<times> string) \<times> os" where
  "gh_fetchReposPage net c page s =
     (case net_get net (gh_api c) (url_string (gh_reposURL c page)) s of
        (Inl e, s1) \<Rightarrow> (Inl (Wrap ''list github repos'' e), s1)
      | (Inr resp, s1) \<Rightarrow>
          if rs_status resp \<noteq> 200 then (Inl (Wrap ''list github repos'' (ErrUnexpectedStatus (rs_status resp))), s1)
          else (case Option.bind (rs_json resp) (dec_list dec_gh_repo) of
                  None \<Rightarrow> (Inl (Wrap ''list github repos: decode response'' DecodeError), s1)
                | Some items \<Rightarrow> (Inr (items, header_get ''X-OAuth-Scopes'' resp), s1)))"

text \<open>The part of the loop before a page is worked on; the page is worked on as a whole.\<close>

definition gh_listing_page :: "net \<Rightarrow> gh_client \<Rightarrow> nat \<Rightarrow> os \<Rightarrow> (err + gh_repo list list \<times> bool) \<times> os" where
  "gh_listing_page net c page s =
     (case gh_fetchReposPage net c page s of
        (Inl e, s1) \<Rightarrow> (Inl e, s1)
      | (Inr (items, scopes), s1) \<Rightarrow>
          (case (if page = 1 then gh_checkRepoScope scopes else None) of
             Some e \<Rightarrow> (Inl e, s1)
           | None \<Rightarrow>
               if items = [] then (Inr ([], True), s1)
               else (Inr ([items], length items < gh_pageSize), s1)))"

definition gh_ListRepos :: "net \<Rightarrow> gh_client \<Rightarrow> lister" where
  "gh_ListRepos net c st s =
     collected (paged (gh_listing_page net c) (appending (\<lambda>items. gh_filterRepos items st)) ([], s))"

section \<open>Issues\<close>

record ghComment =
  hc_User :: string
  hc_Body :: string
  hc_CreatedAt :: time

text \<open>\<open>PullRequest\<close> is the raw JSON of the field; absent or null it is nil.\<close>

record ghIssue =
  hi_Number :: int
  hi_Title :: string
  hi_Body :: string
  hi_User :: string
  hi_State :: string
  hi_Labels :: "string list"
  hi_CreatedAt :: time
  hi_UpdatedAt :: time
  hi_ClosedAt :: "time option"
  hi_PullRequest :: "json option"

definition dec_ghUser :: "json \<Rightarrow> string option" where
  "dec_ghUser = dec_struct (dec_field ''login'' dec_string)"

definition dec_ghLabel :: "json \<Rightarrow> string option" where
  "dec_ghLabel = dec_struct (dec_field ''name'' dec_string)"

definition dec_ghIssue :: "json \<Rightarrow> ghIssue option" where
  "dec_ghIssue = dec_struct (\<lambda>fs. do {
     n \<leftarrow> dec_field ''number'' dec_int fs;
     t \<leftarrow> dec_field ''title'' dec_string fs;
     b \<leftarrow> dec_field ''body'' dec_string fs;
     u \<leftarrow> dec_field ''user'' dec_ghUser fs;
     st \<leftarrow> dec_field ''state'' dec_string fs;
     ls \<leftarrow> dec_field ''labels'' (dec_list dec_ghLabel) fs;
     ca \<leftarrow> dec_field ''created_at'' dec_time fs;
     ua \<leftarrow> dec_field ''updated_at'' dec_time fs;
     cl \<leftarrow> dec_field ''closed_at'' (dec_ptr dec_time) fs;
     pr \<leftarrow> dec_field ''pull_request'' (dec_ptr Some) fs;
     Some \<lparr>hi_Number = n, hi_Title = t, hi_Body = b, hi_User = u, hi_State = st, hi_Labels = ls,
           hi_CreatedAt = ca, hi_UpdatedAt = ua, hi_ClosedAt = cl, hi_PullRequest = pr\<rparr> })"

definition dec_ghComment :: "json \<Rightarrow> ghComment option" where
  "dec_ghComment = dec_struct (\<lambda>fs. do {
     u \<leftarrow> dec_field ''user'' dec_ghUser fs;
     b \<leftarrow> dec_field ''body'' dec_string fs;
     ca \<leftarrow> dec_field ''created_at'' dec_time fs;
     Some \<lparr>hc_User = u, hc_Body = b, hc_CreatedAt = ca\<rparr> })"

definition gh_toIssue :: "ghIssue \<Rightarrow> ghComment list \<Rightarrow> issue" where
  "gh_toIssue it comments =
     \<lparr>i_number = hi_Number it, i_title = hi_Title it, i_body = hi_Body it, i_author = hi_User it, i_state = hi_State it,
      i_labels = Some (hi_Labels it), i_created_at = hi_CreatedAt it, i_updated_at = hi_UpdatedAt it, i_closed_at = hi_ClosedAt it,
      i_comments = Some (map (\<lambda>c. \<lparr>c_author = hc_User c, c_body = hc_Body c, c_created_at = hc_CreatedAt c\<rparr>) comments)\<rparr>"

definition gh_fetchIssuesPage :: "net \<Rightarrow> gh_client \<Rightarrow> string \<Rightarrow> nat \<Rightarrow> os \<Rightarrow> (err + ghIssue list) \<times> os" where
  "gh_fetchIssuesPage net c path page s =
     in_context (''list github issues for '' @ path)
       (gh_getJSON net c
          (with_query [(''state'', ''all''), (''per_page'', show_nat gh_pageSize), (''page'', show_nat page)]
             (join_path (gh_BaseURL c) (''/repos/'' @ path @ ''/issues'')))
          (dec_list dec_ghIssue) s)"

definition gh_fetchCommentsPage :: "net \<Rightarrow> gh_client \<Rightarrow> string \<Rightarrow> int \<Rightarrow> nat \<Rightarrow> os \<Rightarrow> (err + ghComment list) \<times> os" where
  "gh_fetchCommentsPage net c path number page s =
     in_context (''list github comments for '' @ path @ ''#'' @ itoa number)
       (gh_getJSON net c
          (with_query [(''page'', show_nat page), (''per_page'', show_nat gh_pageSize)]
             (join_path (gh_BaseURL c) (''/repos/'' @ path @ ''/issues/'' @ itoa number @ ''/comments'')))
          (dec_list dec_ghComment) s)"

definition gh_fetchComments :: "net \<Rightarrow> gh_client \<Rightarrow> string \<Rightarrow> int \<Rightarrow> os \<Rightarrow> ((err + ghComment list) \<times> os) option" where
  "gh_fetchComments net c path number s =
     collected (paged (by_size gh_pageSize (gh_fetchCommentsPage net c path number)) (appending (\<lambda>x. [x])) ([], s))"

definition gh_exportIssue :: "net \<Rightarrow> gh_client \<Rightarrow> string \<Rightarrow> string \<Rightarrow> ghIssue \<Rightarrow> os \<Rightarrow> ((err + unit) \<times> os) option" where
  "gh_exportIssue net c path dir it s =
     (if hi_PullRequest it \<noteq> None then Some (Inr (), s)
      else (case gh_fetchComments net c path (hi_Number it) s of
              None \<Rightarrow> None
            | Some (Inl e, s1) \<Rightarrow> Some (Inl e, s1)
            | Some (Inr comments, s1) \<Rightarrow>
                Some (in_context (''write issue '' @ path @ ''#'' @ itoa (hi_Number it)) (WriteIssue dir (gh_toIssue it comments) s1))))"

definition gh_IssueExporter :: "net \<Rightarrow> gh_client \<Rightarrow> metadata_exporter" where
  "gh_IssueExporter net c =
     \<lparr>exp_kind = MetadataIssues,
      exp_export = (\<lambda>r dir s.
        acted (paged (until_short gh_pageSize (gh_fetchIssuesPage net c (repo_path r))) (acting (gh_exportIssue net c (repo_path r) dir)) ((), s)))\<rparr>"

section \<open>Releases\<close>

record ghAsset =
  ha_Name :: string
  ha_Size :: int
  ha_URL :: string

record ghRelease =
  hl_TagName :: string
  hl_Name :: string
  hl_Body :: string
  hl_Author :: string
  hl_CreatedAt :: time
  hl_PublishedAt :: "time option"
  hl_Assets :: "ghAsset list"

definition dec_ghAsset :: "json \<Rightarrow> ghAsset option" where
  "dec_ghAsset = dec_struct (\<lambda>fs. do {
     n \<leftarrow> dec_field ''name'' dec_string fs;
     sz \<leftarrow> dec_field ''size'' dec_int fs;
     u \<leftarrow> dec_field ''url'' dec_string fs;
     Some \<lparr>ha_Name = n, ha_Size = sz, ha_URL = u\<rparr> })"

definition dec_ghRelease :: "json \<Rightarrow> ghRelease option" where
  "dec_ghRelease = dec_struct (\<lambda>fs. do {
     t \<leftarrow> dec_field ''tag_name'' dec_string fs;
     n \<leftarrow> dec_field ''name'' dec_string fs;
     b \<leftarrow> dec_field ''body'' dec_string fs;
     a \<leftarrow> dec_field ''author'' dec_ghUser fs;
     ca \<leftarrow> dec_field ''created_at'' dec_time fs;
     pa \<leftarrow> dec_field ''published_at'' (dec_ptr dec_time) fs;
     as \<leftarrow> dec_field ''assets'' (dec_list dec_ghAsset) fs;
     Some \<lparr>hl_TagName = t, hl_Name = n, hl_Body = b, hl_Author = a, hl_CreatedAt = ca, hl_PublishedAt = pa, hl_Assets = as\<rparr> })"

definition gh_fetchReleasesPage :: "net \<Rightarrow> gh_client \<Rightarrow> string \<Rightarrow> nat \<Rightarrow> os \<Rightarrow> (err + ghRelease list) \<times> os" where
  "gh_fetchReleasesPage net c path page s =
     in_context (''list github releases for '' @ path)
       (gh_getJSON net c
          (with_query [(''per_page'', show_nat gh_pageSize), (''page'', show_nat page)]
             (join_path (gh_BaseURL c) (''/repos/'' @ path @ ''/releases'')))
          (dec_list dec_ghRelease) s)"

definition gh_downloadAsset ::
  "net \<Rightarrow> gh_client \<Rightarrow> string \<Rightarrow> string \<Rightarrow> string \<Rightarrow> ghAsset \<Rightarrow> os \<Rightarrow> (err + int) \<times> os"
where
  "gh_downloadAsset net c path dir tag a s =
     (let ctx = ''download github release asset '' @ ha_Name a @ '' for '' @ path in
      case net_get net (gh_headers c ''application/octet-stream'') (ha_URL a) s of
        (Inl e, s1) \<Rightarrow> (Inl (Wrap ctx e), s1)
      | (Inr resp, s1) \<Rightarrow>
          if rs_status resp \<noteq> 200 then (Inl (Wrap ctx (ErrUnexpectedStatus (rs_status resp))), s1)
          else in_context ctx (WriteReleaseAsset dir tag (ha_Name a) (rs_body resp) s1))"

definition gh_exportRelease :: "net \<Rightarrow> gh_client \<Rightarrow> string \<Rightarrow> string \<Rightarrow> ghRelease \<Rightarrow> os \<Rightarrow> (err + unit) \<times> os" where
  "gh_exportRelease net c path dir it s =
     (case collect_each (\<lambda>a s. case gh_downloadAsset net c path dir (hl_TagName it) a s of
                            (Inl e, s1) \<Rightarrow> (Inl e, s1)
                          | (Inr n, s1) \<Rightarrow> (Inr \<lparr>ra_name = ha_Name a, ra_size = n\<rparr>, s1)) (hl_Assets it) s of
        (Inl e, s1) \<Rightarrow> (Inl e, s1)
      | (Inr assets, s1) \<Rightarrow>
          in_context (''write release '' @ path @ ''#'' @ hl_TagName it)
            (WriteRelease dir
               \<lparr>r_tag_name = hl_TagName it, r_name = hl_Name it, r_body = hl_Body it, r_author = hl_Author it,
                r_created_at = hl_CreatedAt it, r_published_at = hl_PublishedAt it, r_assets = Some assets\<rparr> s1))"

definition gh_ReleaseExporter :: "net \<Rightarrow> gh_client \<Rightarrow> metadata_exporter" where
  "gh_ReleaseExporter net c =
     \<lparr>exp_kind = MetadataReleases,
      exp_export = (\<lambda>r dir s.
        acted (paged (until_short gh_pageSize (gh_fetchReleasesPage net c (repo_path r)))
                 (acting (\<lambda>it s. Some (gh_exportRelease net c (repo_path r) dir it s))) ((), s)))\<rparr>"

section \<open>Pull requests\<close>

record ghPullRequest =
  hp_Number :: int
  hp_Title :: string
  hp_Body :: string
  hp_User :: string
  hp_State :: string
  hp_Head :: string
  hp_Base :: string
  hp_CreatedAt :: time
  hp_UpdatedAt :: time
  hp_ClosedAt :: "time option"
  hp_MergedAt :: "time option"

record ghReviewComment =
  hw_User :: string
  hw_Body :: string
  hw_CreatedAt :: time
  hw_Path :: string
  hw_Line :: "int option"
  hw_OriginalLine :: "int option"

definition dec_ghRef :: "json \<Rightarrow> string option" where
  "dec_ghRef = dec_struct (dec_field ''ref'' dec_string)"

definition dec_ghPullRequest :: "json \<Rightarrow> ghPullRequest option" where
  "dec_ghPullRequest = dec_struct (\<lambda>fs. do {
     n \<leftarrow> dec_field ''number'' dec_int fs;
     t \<leftarrow> dec_field ''title'' dec_string fs;
     b \<leftarrow> dec_field ''body'' dec_string fs;
     u \<leftarrow> dec_field ''user'' dec_ghUser fs;
     st \<leftarrow> dec_field ''state'' dec_string fs;
     h \<leftarrow> dec_field ''head'' dec_ghRef fs;
     ba \<leftarrow> dec_field ''base'' dec_ghRef fs;
     ca \<leftarrow> dec_field ''created_at'' dec_time fs;
     ua \<leftarrow> dec_field ''updated_at'' dec_time fs;
     cl \<leftarrow> dec_field ''closed_at'' (dec_ptr dec_time) fs;
     ma \<leftarrow> dec_field ''merged_at'' (dec_ptr dec_time) fs;
     Some \<lparr>hp_Number = n, hp_Title = t, hp_Body = b, hp_User = u, hp_State = st, hp_Head = h, hp_Base = ba,
           hp_CreatedAt = ca, hp_UpdatedAt = ua, hp_ClosedAt = cl, hp_MergedAt = ma\<rparr> })"

definition dec_ghReviewComment :: "json \<Rightarrow> ghReviewComment option" where
  "dec_ghReviewComment = dec_struct (\<lambda>fs. do {
     u \<leftarrow> dec_field ''user'' dec_ghUser fs;
     b \<leftarrow> dec_field ''body'' dec_string fs;
     ca \<leftarrow> dec_field ''created_at'' dec_time fs;
     p \<leftarrow> dec_field ''path'' dec_string fs;
     l \<leftarrow> dec_field ''line'' (dec_ptr dec_int) fs;
     ol \<leftarrow> dec_field ''original_line'' (dec_ptr dec_int) fs;
     Some \<lparr>hw_User = u, hw_Body = b, hw_CreatedAt = ca, hw_Path = p, hw_Line = l, hw_OriginalLine = ol\<rparr> })"

definition gh_toPullRequest :: "ghPullRequest \<Rightarrow> review_comment list \<Rightarrow> pull_request" where
  "gh_toPullRequest it comments =
     \<lparr>pr_number = hp_Number it, pr_title = hp_Title it, pr_body = hp_Body it, pr_author = hp_User it,
      pr_state = (if hp_MergedAt it \<noteq> None then ''merged'' else hp_State it), pr_source_branch = hp_Head it,
      pr_target_branch = hp_Base it, pr_created_at = hp_CreatedAt it, pr_updated_at = hp_UpdatedAt it,
      pr_closed_at = hp_ClosedAt it, pr_merged_at = hp_MergedAt it, pr_comments = nil_if_empty comments\<rparr>"

definition gh_toReviewComment :: "ghReviewComment \<Rightarrow> review_comment" where
  "gh_toReviewComment c =
     (let line = (if hw_Line c = None then hw_OriginalLine c else hw_Line c) in
      \<lparr>rc_author = hw_User c, rc_body = hw_Body c, rc_created_at = hw_CreatedAt c, rc_file = hw_Path c,
       rc_line = (case line of None \<Rightarrow> 0 | Some l \<Rightarrow> l)\<rparr>)"

definition gh_fetchPullsPage :: "net \<Rightarrow> gh_client \<Rightarrow> string \<Rightarrow> nat \<Rightarrow> os \<Rightarrow> (err + ghPullRequest list) \<times> os" where
  "gh_fetchPullsPage net c path page s =
     in_context (''list github pull requests for '' @ path)
       (gh_getJSON net c
          (with_query [(''state'', ''all''), (''per_page'', show_nat gh_pageSize), (''page'', show_nat page)]
             (join_path (gh_BaseURL c) (''/repos/'' @ path @ ''/pulls'')))
          (dec_list dec_ghPullRequest) s)"

definition gh_fetchReviewCommentsPage ::
  "net \<Rightarrow> gh_client \<Rightarrow> string \<Rightarrow> int \<Rightarrow> nat \<Rightarrow> os \<Rightarrow> (err + ghReviewComment list) \<times> os"
where
  "gh_fetchReviewCommentsPage net c path number page s =
     in_context (''list github review comments for '' @ path @ ''#'' @ itoa number)
       (gh_getJSON net c
          (with_query [(''page'', show_nat page), (''per_page'', show_nat gh_pageSize)]
             (join_path (gh_BaseURL c) (''/repos/'' @ path @ ''/pulls/'' @ itoa number @ ''/comments'')))
          (dec_list dec_ghReviewComment) s)"

definition gh_fetchReviewComments :: "net \<Rightarrow> gh_client \<Rightarrow> string \<Rightarrow> int \<Rightarrow> os \<Rightarrow> ((err + review_comment list) \<times> os) option" where
  "gh_fetchReviewComments net c path number s =
     collected (paged (by_size gh_pageSize (gh_fetchReviewCommentsPage net c path number)) (appending (\<lambda>x. [gh_toReviewComment x])) ([], s))"

definition gh_exportPullRequest :: "net \<Rightarrow> gh_client \<Rightarrow> string \<Rightarrow> string \<Rightarrow> ghPullRequest \<Rightarrow> os \<Rightarrow> ((err + unit) \<times> os) option" where
  "gh_exportPullRequest net c path dir it s =
     (case gh_fetchReviewComments net c path (hp_Number it) s of
        None \<Rightarrow> None
      | Some (Inl e, s1) \<Rightarrow> Some (Inl e, s1)
      | Some (Inr comments, s1) \<Rightarrow>
          Some (in_context (''write pull request '' @ path @ ''#'' @ itoa (hp_Number it))
                  (WritePullRequest dir (gh_toPullRequest it comments) s1)))"

definition gh_PullRequestExporter :: "net \<Rightarrow> gh_client \<Rightarrow> metadata_exporter" where
  "gh_PullRequestExporter net c =
     \<lparr>exp_kind = MetadataPullRequests,
      exp_export = (\<lambda>r dir s.
        acted (paged (until_short gh_pageSize (gh_fetchPullsPage net c (repo_path r)))
                 (acting (gh_exportPullRequest net c (repo_path r) dir)) ((), s)))\<rparr>"

section \<open>The contracts\<close>

lemma until_short_snd: "snd (until_short n fetch page s) = snd (fetch page s)"
  by (auto simp: until_short_def split: sum.splits prod.splits)

lemma gh_fetches_read:
  "reads_only s (snd (gh_fetchIssuesPage net c path page s))"
  "reads_only s (snd (gh_fetchCommentsPage net c path number page s))"
  "reads_only s (snd (gh_fetchReleasesPage net c path page s))"
  "reads_only s (snd (gh_fetchPullsPage net c path page s))"
  "reads_only s (snd (gh_fetchReviewCommentsPage net c path number page s))"
  by (simp_all add: gh_fetchIssuesPage_def gh_fetchCommentsPage_def gh_fetchReleasesPage_def gh_fetchPullsPage_def
      gh_fetchReviewCommentsPage_def gh_getJSON_def)

lemma gh_listing_page_snd: "snd (gh_listing_page net c page s) = snd (net_get net (gh_api c) (url_string (gh_reposURL c page)) s)"
  by (cases "net_get net (gh_api c) (url_string (gh_reposURL c page)) s")
    (simp add: gh_listing_page_def gh_fetchReposPage_def split: sum.split option.split)

lemma gh_exports_written:
  "gh_exportIssue net c path dir it s = Some (x, s') \<Longrightarrow> written dir s s'"
  "gh_exportPullRequest net c path dir pr s = Some (x, s') \<Longrightarrow> written dir s s'"
  "gh_exportRelease net c path dir rl s = (x, s') \<Longrightarrow> written dir s s'"
proof -
  have comments: "reads_only s s1" if "gh_fetchComments net c path n s = Some (r, s1)" for n r s s1
    using that unfolding gh_fetchComments_def by (rule collected_appending_reads) (simp add: by_size_snd gh_fetches_read)
  have reviews: "reads_only s s1" if "gh_fetchReviewComments net c path n s = Some (r, s1)" for n r s s1
    using that unfolding gh_fetchReviewComments_def by (rule collected_appending_reads) (simp add: by_size_snd gh_fetches_read)
  show "gh_exportIssue net c path dir it s = Some (x, s') \<Longrightarrow> written dir s s'"
    by (auto simp: gh_exportIssue_def split: if_splits option.splits sum.splits prod.splits
        dest!: comments intro: reads_written exporter_writes)
  show "gh_exportPullRequest net c path dir pr s = Some (x, s') \<Longrightarrow> written dir s s'"
    by (auto simp: gh_exportPullRequest_def split: option.splits sum.splits prod.splits
        dest!: reviews intro: reads_written exporter_writes)
  have asset: "written dir s s'" if "gh_downloadAsset net c path dir tag a s = (y, s')" for tag a s y s'
    using that by (auto simp: gh_downloadAsset_def Let_def split: sum.splits prod.splits if_splits
        dest!: net_get_reads intro: reads_written exporter_writes)
  show "written dir s s'" if run: "gh_exportRelease net c path dir rl s = (x, s')"
  proof -
    have each: "written dir s s1"
      if "collect_each (\<lambda>a s. case gh_downloadAsset net c path dir (hl_TagName rl) a s of
                            (Inl e, s1) \<Rightarrow> (Inl e, s1)
                          | (Inr n, s1) \<Rightarrow> (Inr \<lparr>ra_name = ha_Name a, ra_size = n\<rparr>, s1)) xs s = (r, s1)" for xs r s1
      using that by (rule collect_each_written) (auto dest: asset split: sum.splits prod.splits)
    show ?thesis
      using run by (auto simp: gh_exportRelease_def split: sum.splits prod.splits dest!: each intro: written_trans exporter_writes)
  qed
qed

interpretation gh_lister: lister_contract "gh_ListRepos net c" for net c
  by unfold_locales (auto simp: gh_ListRepos_def gh_listing_page_snd net_get_snd elim!: collected_appending_reads)

interpretation gh_issues: file_exporter "gh_IssueExporter net c" for net c
  unfolding gh_IssueExporter_def
  by (rule paged_exporter) (simp_all add: plain_kinds until_short_snd gh_fetches_read gh_exports_written(1))

interpretation gh_releases: file_exporter "gh_ReleaseExporter net c" for net c
  unfolding gh_ReleaseExporter_def
  by (rule paged_exporter) (auto simp: plain_kinds until_short_snd gh_fetches_read intro: gh_exports_written(3))

interpretation gh_pulls: file_exporter "gh_PullRequestExporter net c" for net c
  unfolding gh_PullRequestExporter_def
  by (rule paged_exporter) (simp_all add: plain_kinds until_short_snd gh_fetches_read gh_exports_written(2))


section \<open>Properties\<close>

lemma gh_filterRepos_spec:
  "gh_filterRepos items st =
     map (\<lambda>r. \<lparr>repo_path = gr_FullName r, repo_archived = gr_Archived r, repo_empty = (gr_Size r = 0)\<rparr>)
       (filter (\<lambda>r. state_selects st (gr_Archived r)) items)"
  by (cases st) (simp_all add: gh_filterRepos_def)

text \<open>The scopes in the answer to a request.\<close>

definition gh_scopes :: "net \<Rightarrow> request \<Rightarrow> string option" where
  "gh_scopes net rq = (case net_do net rq of Inl _ \<Rightarrow> None | Inr resp \<Rightarrow> Some (header_get ''X-OAuth-Scopes'' resp))"

definition gh_first_request :: "gh_client \<Rightarrow> request" where
  "gh_first_request c = \<lparr>rq_url = url_string (gh_reposURL c 1), rq_headers = gh_api c\<rparr>"

definition scopes_allow :: "string \<Rightarrow> bool" where
  "scopes_allow raw \<longleftrightarrow> raw = [] \<or> ''repo'' \<in> set (map trim_space (split_on CHR '','' raw))"

lemma gh_checkRepoScope_allows: "gh_checkRepoScope raw = None \<longleftrightarrow> scopes_allow raw"
  unfolding gh_checkRepoScope_def scopes_allow_def list_ex_iff set_map image_iff by (simp, metis)

lemma gh_served_page:
  assumes "answers net (gh_api c) (gh_reposURL c (Suc p)) (dec_list dec_gh_repo) items"
    and "p = 0 \<longrightarrow> (\<exists>sc. gh_scopes net (gh_first_request c) = Some sc \<and> scopes_allow sc)"
  shows "gh_listing_page net c (Suc p) s =
    (if items = [] then Inr ([], True) else Inr ([items], length items < gh_pageSize),
     s\<lparr>os_requests := os_requests s @ [\<lparr>rq_url = url_string (gh_reposURL c (Suc p)), rq_headers = gh_api c\<rparr>]\<rparr>)"
  using assms(1)
proof (rule answers_net_get [where s = s])
  fix resp
  assume get: "net_get net (gh_api c) (url_string (gh_reposURL c (Suc p))) s
      = (Inr resp, s\<lparr>os_requests := os_requests s @ [\<lparr>rq_url = url_string (gh_reposURL c (Suc p)), rq_headers = gh_api c\<rparr>]\<rparr>)"
    and ans: "net_do net \<lparr>rq_url = url_string (gh_reposURL c (Suc p)), rq_headers = gh_api c\<rparr> = Inr resp"
    and ok: "rs_status resp = 200" "Option.bind (rs_json resp) (dec_list dec_gh_repo) = Some items"
  have "gh_checkRepoScope (header_get ''X-OAuth-Scopes'' resp) = None" if "p = 0"
    using assms(2) that ans by (auto simp: gh_scopes_def gh_first_request_def gh_checkRepoScope_allows)
  then show ?thesis by (simp add: gh_listing_page_def gh_fetchReposPage_def get ok)
qed

lemma gh_ListRepos_served:
  assumes "serves net (gh_api c) (gh_reposURL c) (dec_list dec_gh_repo) ps" and "full_pages gh_pageSize ps"
    and "gh_scopes net (gh_first_request c) = Some sc" and "scopes_allow sc"
  shows "\<exists>s'. gh_ListRepos net c st s =
    Some (Inr (map (\<lambda>r. \<lparr>repo_path = gr_FullName r, repo_archived = gr_Archived r, repo_empty = (gr_Size r = 0)\<rparr>)
      (filter (\<lambda>r. state_selects st (gr_Archived r)) (concat ps))), s')"
proof -
  let ?qs = "map (\<lambda>items. if items = [] then [] else [items]) ps"
  have page: "gh_listing_page net c (Suc p) s = (Inr (?qs ! p, Suc p = length ?qs),
      s\<lparr>os_requests := os_requests s @ [\<lparr>rq_url = url_string (gh_reposURL c (Suc p)), rq_headers = gh_api c\<rparr>]\<rparr>)"
    if "p < length ?qs" for p s
  proof -
    have p: "p < length ps" using that by simp
    have "ps ! p = [] \<Longrightarrow> Suc p = length ps" using full_pages_short [OF assms(2) p] by (simp add: gh_pageSize_def)
    with gh_served_page [OF serves_answers [OF assms(1) p], of s] full_pages_short [OF assms(2) p] assms(3,4) p
    show ?thesis by auto
  qed
  have ne: "?qs \<noteq> []" using assms(1) by (simp add: serves_def)
  obtain s' where "collected (paged (gh_listing_page net c) (appending (\<lambda>items. gh_filterRepos items st)) ([], s))
      = Some (Inr (concat (map (\<lambda>items. gh_filterRepos items st) (concat ?qs))), s')"
    using paged_pages_appending [where ps = ?qs and fetch = "gh_listing_page net c" and g = "\<lambda>items. gh_filterRepos items st" and s = s and
        v = "\<lambda>p s. s\<lparr>os_requests := os_requests s @ [\<lparr>rq_url = url_string (gh_reposURL c (Suc p)), rq_headers = gh_api c\<rparr>]\<rparr>", OF page ne]
    by blast
  moreover have "concat (map (\<lambda>items. gh_filterRepos items st) (concat ?qs)) = gh_filterRepos (concat ps) st"
    by (induction ps) (simp_all add: gh_filterRepos_def)
  ultimately show ?thesis by (simp add: gh_ListRepos_def gh_filterRepos_spec)
qed

text \<open>C19:
  A GitHub listing returns exactly the served repositories whose archived flag the state
  filter selects, over all pages, in order, an empty one marked as empty.
\<close>

theorem gh_ListRepos_complete:
  assumes "serves net (gh_api c) (gh_reposURL c) (dec_list dec_gh_repo) ps" and "full_pages gh_pageSize ps"
    and "gh_scopes net (gh_first_request c) = Some sc" and "scopes_allow sc"
  shows "\<exists>s'. gh_ListRepos net c st s =
    Some (Inr (map (\<lambda>r. \<lparr>repo_path = gr_FullName r, repo_archived = gr_Archived r, repo_empty = (gr_Size r = 0)\<rparr>)
      (filter (\<lambda>r. state_selects st (gr_Archived r)) (concat ps))), s')"
  by (rule gh_ListRepos_served [OF assms])

definition sample_gh :: gh_client where
  "sample_gh = \<lparr>gh_BaseURL = sample_url ''api.github.com'', gh_Token = ''t''\<rparr>"

definition sample_gh_net :: "string \<Rightarrow> json list \<Rightarrow> net" where
  "sample_gh_net scopes items =
     \<lparr>net_parse = (\<lambda>u. Some (sample_url ''api.github.com'')),
      net_do = (\<lambda>rq. Inr \<lparr>rs_status = 200, rs_headers = [(''x-oauth-scopes'', scopes)], rs_json = Some (JArr items),
        rs_body = \<lparr>st_data = [], st_error = None\<rparr>\<rparr>)\<rparr>"

definition sample_gh_repos :: "json list" where
  "sample_gh_repos =
     [JObj [(''full_name'', JStr ''me/app''), (''archived'', JBool False), (''size'', JNum 12)],
      JObj [(''full_name'', JStr ''me/old''), (''archived'', JBool True), (''size'', JNum 0)]]"

lemma gh_ListRepos_complete_witness:
  "\<exists>s'. gh_ListRepos (sample_gh_net ''gist, repo'' sample_gh_repos) sample_gh StateArchived (quiet_os []) =
     Some (Inr [\<lparr>repo_path = ''me/old'', repo_archived = True, repo_empty = True\<rparr>], s')"
proof -
  let ?net = "sample_gh_net ''gist, repo'' sample_gh_repos"
  let ?ps = "[[\<lparr>gr_FullName = ''me/app'', gr_Archived = False, gr_Size = 12\<rparr>, \<lparr>gr_FullName = ''me/old'', gr_Archived = True, gr_Size = 0\<rparr>]]"
  have "serves ?net (gh_api sample_gh) (gh_reposURL sample_gh) (dec_list dec_gh_repo) ?ps" by code_simp
  moreover have "full_pages gh_pageSize ?ps" by (simp add: full_pages_def gh_pageSize_def)
  moreover have "gh_scopes ?net (gh_first_request sample_gh) = Some ''gist, repo''"
    by (simp add: gh_scopes_def sample_gh_net_def header_get_def) code_simp
  moreover have "scopes_allow ''gist, repo''" by code_simp
  ultimately show ?thesis using gh_ListRepos_complete [of ?net sample_gh ?ps "''gist, repo''" StateArchived "quiet_os []"] by simp
qed

lemma gh_listing_first:
  assumes "gh_listing_page net c 1 s = (Inr x, s1)"
  shows "\<exists>sc. gh_scopes net (gh_first_request c) = Some sc \<and> scopes_allow sc"
  using assms
  by (auto simp: gh_listing_page_def gh_fetchReposPage_def net_get_def new_request_def http_do_def gh_scopes_def gh_first_request_def
      simp flip: gh_checkRepoScope_allows split: option.splits sum.splits prod.splits if_splits)

text \<open>C27:
  A classic token without the \<open>repo\<close> scope never gives a listing: when \<open>ListRepos\<close> returns
  repositories, the answer to the first page either listed no scopes (a fine-grained token)
  or had \<open>repo\<close> among them.
\<close>

theorem gh_ListRepos_needs_scope:
  assumes "gh_ListRepos net c st s = Some (Inr repos, s')"
  shows "case gh_scopes net (gh_first_request c) of None \<Rightarrow> False | Some sc \<Rightarrow> scopes_allow sc"
proof -
  let ?f = "appending (\<lambda>items. gh_filterRepos items st)"
  from assms obtain acc where run: "paged (gh_listing_page net c) ?f ([], s) = Some (Inr (), (acc, s'))"
    by (auto simp: gh_ListRepos_def collected_def split: option.splits sum.splits)
  obtain x s1 where page: "gh_listing_page net c 1 s = (x, s1)" by fastforce
  show ?thesis
  proof (cases x)
    case (Inl e)
    with page have "page_step (gh_listing_page net c) ?f 1 ([], s) = Return (Some (Inl e, ([], s1)))" by (simp add: page_step_def)
    from for_pages_Return [of "page_step (gh_listing_page net c) ?f", OF this] run show ?thesis by (simp add: paged_def)
  next
    case (Inr y)
    from gh_listing_first [OF page [unfolded Inr]] show ?thesis by auto
  qed
qed

lemma gh_ListRepos_needs_scope_witness:
  "\<exists>repos s'. gh_ListRepos (sample_gh_net ''repo'' []) sample_gh StateAll (quiet_os []) = Some (Inr repos, s') \<and>
     (case gh_scopes (sample_gh_net ''repo'' []) (gh_first_request sample_gh) of None \<Rightarrow> False | Some sc \<Rightarrow> scopes_allow sc)"
proof -
  let ?net = "sample_gh_net ''repo'' []"
  have "case gh_ListRepos ?net sample_gh StateAll (quiet_os []) of None \<Rightarrow> False | Some (r, s') \<Rightarrow> r = Inr []"
    by code_simp
  then obtain s' where run: "gh_ListRepos ?net sample_gh StateAll (quiet_os []) = Some (Inr [], s')"
    by (auto split: option.splits)
  with gh_ListRepos_needs_scope [OF run] show ?thesis by blast
qed


section \<open>Exported issues\<close>

definition gh_issuesURL :: "gh_client \<Rightarrow> string \<Rightarrow> nat \<Rightarrow> url" where
  "gh_issuesURL c path page =
     with_query [(''state'', ''all''), (''per_page'', show_nat gh_pageSize), (''page'', show_nat page)]
       (join_path (gh_BaseURL c) (''/repos/'' @ path @ ''/issues''))"

text \<open>The file of an issue, with comments the forge answered.\<close>

definition gh_issue_written :: "net \<Rightarrow> gh_client \<Rightarrow> string \<Rightarrow> string \<Rightarrow> os \<Rightarrow> os \<Rightarrow> ghIssue \<Rightarrow> bool" where
  "gh_issue_written net c path dir s s' it \<longleftrightarrow>
     (\<exists>comments t t'. gh_fetchComments net c path (hi_Number it) t = Some (Inr comments, t') \<and>
        look s' (numbered_file dir (hi_Number it) s) = Some (File (MarshalIndent (issue_json (gh_toIssue it comments)))))"

definition real_issues :: "ghIssue list list \<Rightarrow> ghIssue list" where
  "real_issues ps = filter (\<lambda>it. hi_PullRequest it = None) (concat ps)"

lemma full_gh_issue: "full_issue (gh_toIssue it cs) = gh_toIssue it cs"
  by (simp add: full_issue_def gh_toIssue_def)

lemma gh_fetchComments_reads: "gh_fetchComments net c path n s = Some (r, s1) \<Longrightarrow> reads_only s s1"
  unfolding gh_fetchComments_def by (erule collected_appending_reads) (simp add: by_size_snd gh_fetches_read)

lemma gh_exportIssue_ok:
  assumes "gh_exportIssue net c path dir it s = Some (Inr u, s')"
  obtains (pull_request) "hi_PullRequest it \<noteq> None" "s' = s"
  | (issue) comments s1 where "hi_PullRequest it = None" "gh_fetchComments net c path (hi_Number it) s = Some (Inr comments, s1)"
      "os_mach s' = os_mach s" "look s' = (look s)(numbered_file dir (hi_Number it) s \<mapsto> File (MarshalIndent (issue_json (gh_toIssue it comments))))"
proof (cases "hi_PullRequest it")
  case (Some j)
  with assms that(1) show thesis by (simp add: gh_exportIssue_def)
next
  case None
  with assms obtain comments s1 where f: "gh_fetchComments net c path (hi_Number it) s = Some (Inr comments, s1)"
    and w: "in_context (''write issue '' @ path @ ''#'' @ itoa (hi_Number it)) (WriteIssue dir (gh_toIssue it comments) s1) = (Inr u, s')"
    by (auto simp: gh_exportIssue_def split: option.splits sum.splits prod.splits)
  have r: "reads_only s s1" by (rule gh_fetchComments_reads [OF f])
  have n: "i_number (gh_toIssue it comments) = hi_Number it" by (simp add: gh_toIssue_def)
  show thesis
  proof (rule that(2) [OF None f])
    show "os_mach s' = os_mach s" using WriteIssue_written(1) [OF w] r by (simp add: reads_only_def)
    show "look s' = (look s)(numbered_file dir (hi_Number it) s \<mapsto> File (MarshalIndent (issue_json (gh_toIssue it comments))))"
      using WriteIssue_written(2) [OF w] r reads_only_look [OF r]
      by (simp add: n full_gh_issue numbered_file_cong [of s1 s] reads_only_def)
  qed
qed

text \<open>When a GitHub issue export returns without error, every issue of the listing that is not a
  pull request stands in its numbered file with its comments, over all pages.
\<close>

lemma gh_issues_exported:
  assumes "serves net (gh_api c) (gh_issuesURL c (repo_path r)) (dec_list dec_ghIssue) ps" and "full_pages gh_pageSize ps"
    and "distinct (map hi_Number (real_issues ps))"
    and "exp_export (gh_IssueExporter net c) r dir s = Some (Inr (), s')"
  shows "list_all (gh_issue_written net c (repo_path r) dir s s') (real_issues ps)"
proof -
  let ?path = "repo_path r"
  let ?Q = "\<lambda>it (st :: unit \<times> os). hi_PullRequest it = None \<longrightarrow> gh_issue_written net c ?path dir s (snd st) it"
  let ?I = "\<lambda>st :: unit \<times> os. os_mach (snd st) = os_mach s"
  let ?fetch = "until_short gh_pageSize (gh_fetchIssuesPage net c ?path)"
  from assms(4) obtain st' where run: "paged ?fetch (acting (gh_exportIssue net c ?path dir)) ((), s) = Some (Inr (), st')" "s' = snd st'"
    by (auto simp: gh_IssueExporter_def acted_def split: option.splits)
  have "\<forall>it \<in> set (concat ps). ?Q it st'"
  proof (rule paged_establishes [where I = ?I and Q = ?Q, OF run(1)])
    fix p and st :: "unit \<times> os" assume p: "p < length ps" and I: "?I st"
    from answers_get_json [OF serves_answers [OF assms(1) p], of "snd st"] full_pages_short [OF assms(2) p]
    have "?fetch (Suc p) (snd st) = (Inr (ps ! p, Suc p = length ps), (snd st)\<lparr>os_requests := os_requests (snd st) @
        [\<lparr>rq_url = url_string (gh_issuesURL c ?path (Suc p)), rq_headers = gh_api c\<rparr>]\<rparr>)"
      by (simp add: until_short_def gh_fetchIssuesPage_def gh_getJSON_def gh_issuesURL_def in_context_def gh_pageSize_def) force
    with I show "\<exists>s1. ?fetch (Suc p) (snd st) = (Inr (ps ! p, Suc p = length ps), s1) \<and> ?I (fst st, s1) \<and>
        (\<forall>x \<in> set (concat ps). ?Q x st \<longrightarrow> ?Q x (fst st, s1))"
      by (auto simp: gh_issue_written_def)
  next
    fix it and st st' :: "unit \<times> os"
    assume I: "?I st" and "acting (gh_exportIssue net c ?path dir) it st = Some (Inr (), st')"
    then have "gh_exportIssue net c ?path dir it (snd st) = Some (Inr (), snd st')"
      by (auto simp: acting_def split: option.splits)
    then show "?I st' \<and> ?Q it st'"
      by (cases rule: gh_exportIssue_ok)
        (use I numbered_file_cong [of "snd st" s dir "hi_Number it"] in \<open>auto simp: gh_issue_written_def\<close>)
  next
    fix x y and st st' :: "unit \<times> os"
    assume xy: "x \<in> set (concat ps)" "y \<in> set (concat ps)" and I: "?I st" and Q: "?Q x st"
      and "acting (gh_exportIssue net c ?path dir) y st = Some (Inr (), st')"
    then have "gh_exportIssue net c ?path dir y (snd st) = Some (Inr (), snd st')"
      by (auto simp: acting_def split: option.splits)
    then show "?Q x st'"
    proof (cases rule: gh_exportIssue_ok)
      case pull_request
      with Q show ?thesis by simp
    next
      case (issue comments s1)
      have cong: "numbered_file dir n (snd st) = numbered_file dir n s" for n using I numbered_file_cong by blast
      show ?thesis
      proof
        assume x: "hi_PullRequest x = None"
        show "gh_issue_written net c ?path dir s (snd st') x"
        proof (cases "hi_Number x = hi_Number y")
          case True
          have "x \<in> set (real_issues ps)" "y \<in> set (real_issues ps)" using xy x issue(1) by (auto simp: real_issues_def)
          with assms(3) True have "x = y" by (metis distinct_map inj_on_def)
          with issue cong show ?thesis by (auto simp: gh_issue_written_def)
        next
          case False
          with Q x issue(4) cong show ?thesis by (simp add: gh_issue_written_def)
        qed
      qed
    qed
  qed (use assms(1) in \<open>simp_all add: serves_def\<close>)
  with run(2) show ?thesis by (auto simp: list_all_iff real_issues_def)
qed


definition sample_issue_json :: "int \<Rightarrow> (string \<times> json) list \<Rightarrow> json" where
  "sample_issue_json n fs = JObj ([(''number'', JNum n), (''title'', JStr ''t''), (''state'', JStr ''open'')] @ fs)"

definition sample_issue_net :: net where
  "sample_issue_net =
     \<lparr>net_parse = (\<lambda>u. Some (sample_url ''api.github.com'')),
      net_do = (\<lambda>rq. if has_prefix (rq_url rq) ''https://api.github.com/repos/me/app/issues?''
        then answer 200 (JArr [sample_issue_json 1 [], sample_issue_json 2 [(''pull_request'', JObj [])]])
        else answer 200 (JArr []))\<rparr>"

definition sample_ghIssue :: "int \<Rightarrow> json option \<Rightarrow> ghIssue" where
  "sample_ghIssue n pr =
     \<lparr>hi_Number = n, hi_Title = ''t'', hi_Body = [], hi_User = [], hi_State = ''open'', hi_Labels = [], hi_CreatedAt = ''0001-01-01T00:00:00Z'',
      hi_UpdatedAt = ''0001-01-01T00:00:00Z'', hi_ClosedAt = None, hi_PullRequest = pr\<rparr>"

definition sample_export_state :: os where
  "sample_export_state = quiet_os [([''b''], Dir), ([''b'', ''m''], Dir)]"

definition sample_gh_project :: repo where
  "sample_gh_project = \<lparr>repo_path = ''me/app'', repo_archived = False, repo_empty = False\<rparr>"

lemma sample_comments:
  "\<exists>reqs. gh_fetchComments sample_issue_net sample_gh ''me/app'' 1 s = Some (Inr [], s\<lparr>os_requests := reqs\<rparr>)"
proof -
  let ?u = "with_query [(''page'', show_nat 1), (''per_page'', show_nat gh_pageSize)]
    (join_path (gh_BaseURL sample_gh) (''/repos/'' @ ''me/app'' @ ''/issues/'' @ itoa 1 @ ''/comments''))"
  have "answers sample_issue_net (gh_api sample_gh) ?u (dec_list dec_ghComment) []" by code_simp
  from answers_get_json [OF this, of s]
  have page: "by_size gh_pageSize (gh_fetchCommentsPage sample_issue_net sample_gh ''me/app'' 1) 1 s =
      (Inr ([], True), s\<lparr>os_requests := os_requests s @ [\<lparr>rq_url = url_string ?u, rq_headers = gh_api sample_gh\<rparr>]\<rparr>)"
    by (simp add: by_size_def gh_fetchCommentsPage_def gh_getJSON_def in_context_def gh_pageSize_def)
  have "for_each (appending (\<lambda>x. [x])) ([] :: ghComment list) ([], t) = Some (Inr (), ([], t))" for t by simp
  from paged_single [of "by_size gh_pageSize (gh_fetchCommentsPage sample_issue_net sample_gh ''me/app'' 1)", OF page this]
  show ?thesis by (simp add: gh_fetchComments_def collected_def) (rule exI, rule refl)
qed

lemma sample_export_at: "at_path sample_export_state ''/b/m'' = [''b'', ''m'']"
  by code_simp

lemma sample_issue_export:
  "\<exists>s'. exp_export (gh_IssueExporter sample_issue_net sample_gh) sample_gh_project ''/b/m'' sample_export_state = Some (Inr (), s')"
proof -
  let ?s = sample_export_state
  let ?items = "[sample_ghIssue 1 None, sample_ghIssue 2 (Some (JObj []))]"
  let ?f = "gh_exportIssue sample_issue_net sample_gh ''me/app'' ''/b/m''"
  have "answers sample_issue_net (gh_api sample_gh) (gh_issuesURL sample_gh ''me/app'' 1) (dec_list dec_ghIssue) ?items" by code_simp
  from answers_get_json [OF this, of ?s] obtain rs where
    page: "until_short gh_pageSize (gh_fetchIssuesPage sample_issue_net sample_gh ''me/app'') 1 ?s = (Inr (?items, True), ?s\<lparr>os_requests := rs\<rparr>)"
    by (simp add: until_short_def gh_fetchIssuesPage_def gh_getJSON_def in_context_def gh_pageSize_def gh_issuesURL_def)
  obtain rs' where comments: "gh_fetchComments sample_issue_net sample_gh ''me/app'' 1 (?s\<lparr>os_requests := rs\<rparr>) = Some (Inr [], ?s\<lparr>os_requests := rs'\<rparr>)"
    using sample_comments [of "?s\<lparr>os_requests := rs\<rparr>"] by auto
  let ?s2 = "?s\<lparr>os_requests := rs'\<rparr>"
  have at: "at_path ?s2 ''/b/m'' = [''b'', ''m'']" using sample_export_at by (simp add: at_path_def)
  have "\<exists>s'. in_context (''write issue '' @ ''me/app'' @ ''#'' @ itoa 1) (WriteIssue ''/b/m'' (gh_toIssue (sample_ghIssue 1 None) []) ?s2) = (Inr (), s')"
  proof (rule WriteIssue_succeeds)
    show "look ?s2 (at_path ?s2 ''/b/m'') = Some Dir"
      unfolding at by (simp add: look_def sample_export_state_def quiet_os_def)
    show "look ?s2 (numbered_file ''/b/m'' (i_number (gh_toIssue (sample_ghIssue 1 None) [])) ?s2) = None"
      unfolding numbered_file_def at by (simp add: look_def sample_export_state_def quiet_os_def)
    show "fault ?s2 x = None" for x by (simp add: fault_def sample_export_state_def quiet_os_def quiet_machine_def)
  qed
  then obtain s' where wrote: "in_context (''write issue '' @ ''me/app'' @ ''#'' @ itoa 1)
      (WriteIssue ''/b/m'' (gh_toIssue (sample_ghIssue 1 None) []) ?s2) = (Inr (), s')" by blast
  have "?f (sample_ghIssue 1 None) (?s\<lparr>os_requests := rs\<rparr>) = Some (Inr (), s')"
    using wrote by (simp add: gh_exportIssue_def sample_ghIssue_def comments)
  moreover have "?f (sample_ghIssue 2 (Some (JObj []))) t = Some (Inr (), t)" for t
    by (simp add: gh_exportIssue_def sample_ghIssue_def)
  ultimately have work: "for_each (acting ?f) ?items ((), ?s\<lparr>os_requests := rs\<rparr>) = Some (Inr (), ((), s'))"
    by (simp add: acting_def)
  from paged_single [of "until_short gh_pageSize (gh_fetchIssuesPage sample_issue_net sample_gh ''me/app'')", OF page work]
  show ?thesis by (simp add: gh_IssueExporter_def sample_gh_project_def acted_def)
qed

lemma gh_issues_exported_witness:
  "\<exists>s'. exp_export (gh_IssueExporter sample_issue_net sample_gh) sample_gh_project ''/b/m'' sample_export_state = Some (Inr (), s') \<and>
     list_all (gh_issue_written sample_issue_net sample_gh ''me/app'' ''/b/m'' sample_export_state s') [sample_ghIssue 1 None]"
proof -
  let ?ps = "[[sample_ghIssue 1 None, sample_ghIssue 2 (Some (JObj []))]]"
  have path: "repo_path sample_gh_project = ''me/app''" by (simp add: sample_gh_project_def)
  have serves: "serves sample_issue_net (gh_api sample_gh) (gh_issuesURL sample_gh (repo_path sample_gh_project)) (dec_list dec_ghIssue) ?ps"
    by code_simp
  have full: "full_pages gh_pageSize ?ps" by (simp add: full_pages_def gh_pageSize_def)
  have real: "real_issues ?ps = [sample_ghIssue 1 None]" by (simp add: real_issues_def sample_ghIssue_def)
  obtain s' where run: "exp_export (gh_IssueExporter sample_issue_net sample_gh) sample_gh_project ''/b/m'' sample_export_state = Some (Inr (), s')"
    using sample_issue_export by blast
  from gh_issues_exported [OF serves full _ run] run show ?thesis by (simp add: real path)
qed

end
