(* ===== verification/Acceptance.thy ===== *)
theory Acceptance
  imports Json_Read Run GitHub
begin

text \<open>
  The specification the repository ships with its code (\<open>testing.go\<close>): what every lister and every
  backup has to do, in domain terms, as the suites assert it. Each suite is a predicate over the
  adapter or the driver under test; a failed assertion is \<open>False\<close>. The temporary directories of
  \<open>testing.T\<close> are two empty directories of the machine a suite starts on.
\<close>

section \<open>Fixtures\<close>

definition TestActiveRepoPath :: string where "TestActiveRepoPath = ''team/active-repo''"
definition TestArchivedRepoPath :: string where "TestArchivedRepoPath = ''team/archived-repo''"
definition TestEmptyRepoPath :: string where "TestEmptyRepoPath = ''team/empty-repo''"
definition TestRemovedRepoPath :: string where "TestRemovedRepoPath = ''team/removed-repo''"

section \<open>The suite of every lister\<close>

definition repoPaths :: "repo list \<Rightarrow> string list" where
  "repoPaths rs = map repo_path rs"

definition findRepo :: "repo list \<Rightarrow> string \<Rightarrow> repo option" where
  "findRepo rs path = find (\<lambda>r. repo_path r = path) rs"

definition listed :: "lister \<Rightarrow> state \<Rightarrow> os \<Rightarrow> (repo list \<Rightarrow> bool) \<Rightarrow> bool" where
  "listed l st s P = (case l st s of Some (Inr rs, _) \<Rightarrow> P rs | _ \<Rightarrow> False)"

definition TestLister :: "lister \<Rightarrow> os \<Rightarrow> bool" where
  "TestLister l s \<longleftrightarrow>
     listed l StateActive s (\<lambda>rs. TestActiveRepoPath \<in> set (repoPaths rs) \<and> TestArchivedRepoPath \<notin> set (repoPaths rs)) \<and>
     listed l StateArchived s (\<lambda>rs. TestArchivedRepoPath \<in> set (repoPaths rs) \<and> TestActiveRepoPath \<notin> set (repoPaths rs)) \<and>
     listed l StateAll s (\<lambda>rs. TestActiveRepoPath \<in> set (repoPaths rs) \<and> TestArchivedRepoPath \<in> set (repoPaths rs)) \<and>
     listed l StateAll s (\<lambda>rs. map_option repo_path (findRepo rs TestActiveRepoPath) = Some TestActiveRepoPath) \<and>
     listed l StateAll s (\<lambda>rs. map_option repo_empty (findRepo rs TestEmptyRepoPath) = Some True)"

section \<open>The suite of every backup\<close>

type_synonym driver = "options \<Rightarrow> os \<Rightarrow> ((err + run_result) \<times> os) option"

definition no_options :: options where
  "no_options = \<lparr>o_dest = [], o_state = StateAll, o_archive = ArchiveNone, o_archive_dir = [], o_concurrency = 0,
     o_prune_removed = False, o_export_metadata = []\<rparr>"

text \<open>\<open>require.NoError\<close> on the driver's result, then the assertions on the result and the machine.\<close>

definition runs :: "driver \<Rightarrow> options \<Rightarrow> os \<Rightarrow> (run_result \<Rightarrow> os \<Rightarrow> bool) \<Rightarrow> bool" where
  "runs run opts s P = (case run opts s of Some (Inr res, s') \<Rightarrow> P res s' | _ \<Rightarrow> False)"

definition file_exists :: "os \<Rightarrow> string \<Rightarrow> bool" where
  "file_exists s p = (case look s (at_path s p) of Some (File _) \<Rightarrow> True | _ \<Rightarrow> False)"

definition dir_exists :: "os \<Rightarrow> string \<Rightarrow> bool" where
  "dir_exists s p = (look s (at_path s p) = Some Dir)"

definition seed :: "string \<Rightarrow> string \<Rightarrow> os \<Rightarrow> (os \<Rightarrow> bool) \<Rightarrow> bool" where
  "seed file text s P =
     (case sys_mkdir_all (at_path s (fpdir file)) s of
        (Inl e, s1) \<Rightarrow> False
      | (Inr _, s1) \<Rightarrow> (case sys_write_file (at_path s1 file) text s1 of (Inl e, s2) \<Rightarrow> False | (Inr _, s2) \<Rightarrow> P s2))"

definition mirror_of :: "string \<Rightarrow> string \<Rightarrow> string" where
  "mirror_of dest path = fpjoin [dest, path @ ''.git'']"

definition head_of :: "string \<Rightarrow> string \<Rightarrow> string" where
  "head_of dest path = fpjoin [mirror_of dest path, ''HEAD'']"

definition archive_of :: "string \<Rightarrow> string \<Rightarrow> string" where
  "archive_of archive_dir path = fpjoin [archive_dir, path @ ''.tar.gz'']"

definition head_text :: string where
  "head_text = ''ref: refs/heads/main'' @ [CHR 0x0A]"

definition TestSeedStaleMirror :: "string \<Rightarrow> os \<Rightarrow> (os \<Rightarrow> bool) \<Rightarrow> bool" where
  "TestSeedStaleMirror dest s P = seed (head_of dest TestRemovedRepoPath) head_text s P"

definition TestSeedStaleArchive :: "string \<Rightarrow> os \<Rightarrow> (os \<Rightarrow> bool) \<Rightarrow> bool" where
  "TestSeedStaleArchive archive_dir s P = seed (archive_of archive_dir TestRemovedRepoPath) ''not a real tarball'' s P"

definition leavesRemovedMirrorAloneWithoutFlag :: "driver \<Rightarrow> string \<Rightarrow> os \<Rightarrow> bool" where
  "leavesRemovedMirrorAloneWithoutFlag run dest s =
     TestSeedStaleMirror dest s (\<lambda>s1. runs run (no_options\<lparr>o_dest := dest, o_state := StateAll\<rparr>) s1 (\<lambda>res s2.
       dir_exists s2 (mirror_of dest TestRemovedRepoPath)))"

definition warnsAboutRemovedMirrorWithoutFlag :: "driver \<Rightarrow> string \<Rightarrow> os \<Rightarrow> bool" where
  "warnsAboutRemovedMirrorWithoutFlag run dest s =
     TestSeedStaleMirror dest s (\<lambda>s1. runs run (no_options\<lparr>o_dest := dest, o_state := StateAll\<rparr>) s1 (\<lambda>res s2.
       (let logs = drop (length (os_logs s1)) (os_logs s2) in
        list_ex (\<lambda>l. l_path l = TestRemovedRepoPath) logs \<and> list_ex (\<lambda>l. l_level l = LWarn) logs)))"

definition prunesRemovedMirrorWithFlag :: "driver \<Rightarrow> string \<Rightarrow> string \<Rightarrow> os \<Rightarrow> bool" where
  "prunesRemovedMirrorWithFlag run dest archive_dir s =
     TestSeedStaleMirror dest s (\<lambda>s1. TestSeedStaleArchive archive_dir s1 (\<lambda>s2.
       runs run (no_options\<lparr>o_dest := dest, o_state := StateAll, o_archive_dir := archive_dir, o_prune_removed := True\<rparr>) s2 (\<lambda>res s3.
         pruned res = 1 \<and> \<not> dir_exists s3 (mirror_of dest TestRemovedRepoPath) \<and>
         \<not> file_exists s3 (archive_of archive_dir TestRemovedRepoPath) \<and> file_exists s3 (head_of dest TestActiveRepoPath))))"

definition doesNotPruneMirrorExcludedByState :: "driver \<Rightarrow> string \<Rightarrow> os \<Rightarrow> bool" where
  "doesNotPruneMirrorExcludedByState run dest s =
     seed (head_of dest TestArchivedRepoPath) head_text s (\<lambda>s1.
       runs run (no_options\<lparr>o_dest := dest, o_state := StateActive, o_prune_removed := True\<rparr>) s1 (\<lambda>res s2.
         dir_exists s2 (mirror_of dest TestArchivedRepoPath)))"

definition backsUpActiveRepos :: "driver \<Rightarrow> string \<Rightarrow> os \<Rightarrow> bool" where
  "backsUpActiveRepos run dest s =
     runs run (no_options\<lparr>o_dest := dest, o_state := StateActive\<rparr>) s (\<lambda>res s1. file_exists s1 (head_of dest TestActiveRepoPath))"

definition keepsTheForgeFolderStructure :: "driver \<Rightarrow> string \<Rightarrow> os \<Rightarrow> bool" where
  "keepsTheForgeFolderStructure run dest s =
     runs run (no_options\<lparr>o_dest := dest, o_state := StateAll\<rparr>) s (\<lambda>res s1.
       dir_exists s1 (fpjoin [dest, ''team'']) \<and> file_exists s1 (head_of dest TestActiveRepoPath))"

definition leavesArchivedReposAloneWhenActiveOnly :: "driver \<Rightarrow> string \<Rightarrow> os \<Rightarrow> bool" where
  "leavesArchivedReposAloneWhenActiveOnly run dest s =
     runs run (no_options\<lparr>o_dest := dest, o_state := StateActive\<rparr>) s (\<lambda>res s1. \<not> file_exists s1 (head_of dest TestArchivedRepoPath))"

definition archivesOnlyTheSelectedRepos :: "driver \<Rightarrow> string \<Rightarrow> string \<Rightarrow> os \<Rightarrow> bool" where
  "archivesOnlyTheSelectedRepos run dest archive_dir s =
     runs run (no_options\<lparr>o_dest := dest, o_state := StateAll, o_archive := ArchiveArchived, o_archive_dir := archive_dir\<rparr>) s (\<lambda>res s1.
       archived res = 1 \<and> file_exists s1 (archive_of archive_dir TestArchivedRepoPath) \<and>
       \<not> file_exists s1 (archive_of archive_dir TestActiveRepoPath))"

definition doesNotPersistMirrorForArchivedRepo :: "driver \<Rightarrow> string \<Rightarrow> string \<Rightarrow> os \<Rightarrow> bool" where
  "doesNotPersistMirrorForArchivedRepo run dest archive_dir s =
     runs run (no_options\<lparr>o_dest := dest, o_state := StateAll, o_archive := ArchiveAll, o_archive_dir := archive_dir\<rparr>) s (\<lambda>res s1.
       file_exists s1 (archive_of archive_dir TestArchivedRepoPath) \<and> \<not> dir_exists s1 (mirror_of dest TestArchivedRepoPath) \<and>
       file_exists s1 (head_of dest TestActiveRepoPath) \<and> file_exists s1 (archive_of archive_dir TestActiveRepoPath))"

definition skipsEmptyRepos :: "driver \<Rightarrow> string \<Rightarrow> os \<Rightarrow> bool" where
  "skipsEmptyRepos run dest s =
     runs run (no_options\<lparr>o_dest := dest, o_state := StateAll\<rparr>) s (\<lambda>res s1.
       \<not> dir_exists s1 (mirror_of dest TestEmptyRepoPath) \<and> skipped res \<ge> 1)"

definition TestBackup :: "driver \<Rightarrow> string \<Rightarrow> string \<Rightarrow> os \<Rightarrow> bool" where
  "TestBackup run dest archive_dir s \<longleftrightarrow>
     backsUpActiveRepos run dest s \<and> keepsTheForgeFolderStructure run dest s \<and> leavesArchivedReposAloneWhenActiveOnly run dest s \<and>
     skipsEmptyRepos run dest s \<and> archivesOnlyTheSelectedRepos run dest archive_dir s \<and>
     doesNotPersistMirrorForArchivedRepo run dest archive_dir s \<and> leavesRemovedMirrorAloneWithoutFlag run dest s \<and>
     warnsAboutRemovedMirrorWithoutFlag run dest s \<and> prunesRemovedMirrorWithFlag run dest archive_dir s \<and>
     doesNotPruneMirrorExcludedByState run dest s"

text \<open>A run as the driver of the suite.\<close>

definition driver_of :: "targz \<Rightarrow> runner \<Rightarrow> driver" where
  "driver_of targz rn opts s =
     (case Run targz rn opts s of
        None \<Rightarrow> None
      | Some (Inl e, s') \<Rightarrow> Some (Inl e, s')
      | Some (Inr (res, _), s') \<Rightarrow> Some (Inr res, s'))"

definition fixture_repos :: "repo list" where
  "fixture_repos = [sample_repo TestActiveRepoPath False False, sample_repo TestArchivedRepoPath True False, sample_repo TestEmptyRepoPath False True]"

definition fixture_os :: os where
  "fixture_os = quiet_os [([''t''], Dir), ([''t'', ''dest''], Dir), ([''t'', ''archive''], Dir), ([''tmp''], Dir)]"

section \<open>The suites hold\<close>

text \<open>
  A listing fit for the suite: the active repository is there, and not archived, the archived
  one is there and archived, and whatever carries the empty one's path is empty.
\<close>

definition fixture_listing :: "repo list \<Rightarrow> bool" where
  "fixture_listing rs \<longleftrightarrow>
     TestActiveRepoPath \<in> repo_path ` set rs \<and> TestArchivedRepoPath \<in> repo_path ` set rs \<and> TestEmptyRepoPath \<in> repo_path ` set rs \<and>
     list_all (\<lambda>r. (repo_path r = TestActiveRepoPath \<longrightarrow> \<not> repo_archived r) \<and> (repo_path r = TestArchivedRepoPath \<longrightarrow> repo_archived r) \<and>
       (repo_path r = TestEmptyRepoPath \<longrightarrow> repo_empty r)) rs"

lemma findRepo_some:
  assumes "p \<in> repo_path ` set rs"
  obtains r where "findRepo rs p = Some r" "r \<in> set rs" "repo_path r = p"
proof -
  have "\<not> list_all (\<lambda>r. repo_path r \<noteq> p) rs" using assms by (auto simp: list_all_iff)
  then obtain r where r: "findRepo rs p = Some r" by (cases "findRepo rs p") (auto simp: findRepo_def find_None_iff list_all_iff)
  then have "r \<in> set rs \<and> repo_path r = p" by (auto simp: findRepo_def find_Some_iff)
  with r that show ?thesis by blast
qed

lemma TestLister_filtered:
  assumes "\<And>st. \<exists>s'. l st s = Some (Inr (filter (\<lambda>r. state_selects st (repo_archived r)) rs), s')" and "fixture_listing rs"
  shows "TestLister l s"
proof -
  have listed: "listed l st s P = P (filter (\<lambda>r. state_selects st (repo_archived r)) rs)" for st P
    using assms(1) [of st] by (auto simp: listed_def)
  note fits = assms(2) [unfolded fixture_listing_def list_all_iff]
  obtain a where "findRepo rs TestActiveRepoPath = Some a" "repo_path a = TestActiveRepoPath" using fits by (elim conjE findRepo_some)
  moreover obtain e where "findRepo rs TestEmptyRepoPath = Some e" "repo_empty e" using fits by (metis findRepo_some)
  ultimately show ?thesis
    using fits unfolding TestLister_def listed by (auto simp: repoPaths_def image_iff)
qed

text \<open>C23:
  GitHub's client meets the specification of a lister: on a forge that serves the fixture
  repositories, among any others and over however many pages, to a token with the scope, every
  assertion of the suite holds.
\<close>

theorem gh_meets_TestLister:
  assumes "serves net (gh_api c) (gh_reposURL c) (dec_list dec_gh_repo) ps" and "full_pages gh_pageSize ps"
    and "gh_scopes net (gh_first_request c) = Some sc" and "scopes_allow sc"
    and "fixture_listing (map (\<lambda>r. \<lparr>repo_path = gr_FullName r, repo_archived = gr_Archived r, repo_empty = (gr_Size r = 0)\<rparr>) (concat ps))"
  shows "TestLister (gh_ListRepos net c) s"
proof (rule TestLister_filtered [OF _ assms(5)])
  show "\<exists>s'. gh_ListRepos net c st s = Some (Inr (filter (\<lambda>r. state_selects st (repo_archived r))
      (map (\<lambda>r. \<lparr>repo_path = gr_FullName r, repo_archived = gr_Archived r, repo_empty = (gr_Size r = 0)\<rparr>) (concat ps))), s')" for st
    using gh_ListRepos_served [OF assms(1-4), of st s] by (simp add: filter_map o_def)
qed

definition fixture_gh_repos :: "gh_repo list" where
  "fixture_gh_repos =
     [\<lparr>gr_FullName = TestActiveRepoPath, gr_Archived = False, gr_Size = 3\<rparr>, \<lparr>gr_FullName = TestArchivedRepoPath, gr_Archived = True, gr_Size = 3\<rparr>,
      \<lparr>gr_FullName = TestEmptyRepoPath, gr_Archived = False, gr_Size = 0\<rparr>]"

definition fixture_gh_net :: net where
  "fixture_gh_net =
     \<lparr>net_parse = (\<lambda>u. Some (sample_url ''api.github.com'')),
      net_do = (\<lambda>rq. answer 200 (JArr (map (\<lambda>r. JObj [(''full_name'', JStr (gr_FullName r)), (''archived'', JBool (gr_Archived r)), (''size'', JNum (gr_Size r))])
        fixture_gh_repos)))\<rparr>"

lemma gh_meets_TestLister_witness: "TestLister (gh_ListRepos fixture_gh_net sample_gh) (quiet_os [])"
proof (rule gh_meets_TestLister [where ps = "[fixture_gh_repos]" and sc = "[]"])
  show "serves fixture_gh_net (gh_api sample_gh) (gh_reposURL sample_gh) (dec_list dec_gh_repo) [fixture_gh_repos]" by code_simp
  show "full_pages gh_pageSize [fixture_gh_repos]" by (simp add: full_pages_def gh_pageSize_def fixture_gh_repos_def)
  show "gh_scopes fixture_gh_net (gh_first_request sample_gh) = Some []"
    by (simp add: gh_scopes_def fixture_gh_net_def answer_def header_get_def)
  show "scopes_allow []" by (simp add: scopes_allow_def)
  show "fixture_listing (map (\<lambda>r. \<lparr>repo_path = gr_FullName r, repo_archived = gr_Archived r, repo_empty = (gr_Size r = 0)\<rparr>) (concat [fixture_gh_repos]))"
    by (simp add: fixture_listing_def fixture_gh_repos_def TestActiveRepoPath_def TestArchivedRepoPath_def TestEmptyRepoPath_def)
qed

text \<open>Each suite of the backup is evaluated on a run over the fixture, with a git that clones.\<close>

abbreviation fixture_run :: driver where
  "fixture_run \<equiv> driver_of sample_targz (sample_runner fixture_repos)"

lemma fixture_mirrors:
  "backsUpActiveRepos fixture_run ''/t/dest'' fixture_os"
  "keepsTheForgeFolderStructure fixture_run ''/t/dest'' fixture_os"
  "leavesArchivedReposAloneWhenActiveOnly fixture_run ''/t/dest'' fixture_os"
  "skipsEmptyRepos fixture_run ''/t/dest'' fixture_os"
  by code_simp+

lemma fixture_archives:
  "archivesOnlyTheSelectedRepos fixture_run ''/t/dest'' ''/t/archive'' fixture_os"
  "doesNotPersistMirrorForArchivedRepo fixture_run ''/t/dest'' ''/t/archive'' fixture_os"
  by code_simp+

lemma fixture_stale:
  "leavesRemovedMirrorAloneWithoutFlag fixture_run ''/t/dest'' fixture_os"
  "warnsAboutRemovedMirrorWithoutFlag fixture_run ''/t/dest'' fixture_os"
  by code_simp+

lemma fixture_pruned:
  "prunesRemovedMirrorWithFlag fixture_run ''/t/dest'' ''/t/archive'' fixture_os"
  "doesNotPruneMirrorExcludedByState fixture_run ''/t/dest'' fixture_os"
  by code_simp+

text \<open>
  The predicate is met where the suite is run: over the suite's own fixture every assertion holds, for
  mirroring, archiving, skipping, warning and pruning. What holds of every run is \<open>Run_backs_up\<close>.
\<close>

lemma run_meets_TestBackup: "TestBackup fixture_run ''/t/dest'' ''/t/archive'' fixture_os"
  by (simp add: TestBackup_def fixture_mirrors fixture_archives fixture_stale fixture_pruned)

end
