(* ===== verification/Forgejo.thy ===== *)
theory Forgejo
  imports Http
begin

text \<open>
  The Forgejo client (\<open>internal/forgejo\<close>): listing repositories, building remotes, and
  exporting issues, releases and pull requests. Each Go method is the definition of the same
  name with an \<open>fj_\<close> in front; its page loop is \<open>paged\<close>.
\<close>

definition fj_pageSize :: nat where
  "fj_pageSize = 50"

record fj_client =
  fj_BaseURL :: url
  fj_Token :: string
  fj_SkipMirrors :: bool

definition fj_New :: "net \<Rightarrow> string \<Rightarrow> string \<Rightarrow> err + fj_client" where
  "fj_New net base token =
     (case net_parse net base of
        None \<Rightarrow> Inl (Wrap ''parse forgejo url'' UrlError)
      | Some u \<Rightarrow> Inr \<lparr>fj_BaseURL = u, fj_Token = token, fj_SkipMirrors = False\<rparr>)"

definition fj_Remote :: "fj_client \<Rightarrow> remoter" where
  "fj_Remote c r =
     \<lparr>clone_url = url_string (join_path (fj_BaseURL c) (repo_path r @ ''.git'')),
      auth_header = ''Basic '' @ Basic ''backup-git-repos'' (fj_Token c)\<rparr>"

definition fj_auth :: "fj_client \<Rightarrow> (string \<times> string) list" where
  "fj_auth c = [(''Authorization'', ''token '' @ fj_Token c)]"

definition fj_getJSON :: "net \<Rightarrow> fj_client \<Rightarrow> url \<Rightarrow> (json \<Rightarrow> 'a option) \<Rightarrow> os \<Rightarrow> (err + 'a) \<times> os" where
  "fj_getJSON net c u dec s = get_json net (fj_auth c) u dec s"

section \<open>Repositories\<close>

record fj_repo =
  fr_FullName :: string
  fr_Archived :: bool
  fr_Empty :: bool
  fr_Mirror :: bool

definition dec_fj_repo :: "json \<Rightarrow> fj_repo option" where
  "dec_fj_repo = dec_struct (\<lambda>fs. do {
     n \<leftarrow> dec_field ''full_name'' dec_string fs;
     a \<leftarrow> dec_field ''archived'' dec_bool fs;
     e \<leftarrow> dec_field ''empty'' dec_bool fs;
     m \<leftarrow> dec_field ''mirror'' dec_bool fs;
     Some \<lparr>fr_FullName = n, fr_Archived = a, fr_Empty = e, fr_Mirror = m\<rparr> })"

text \<open>\<open>searchResponse\<close>: the repositories are its \<open>data\<close>.\<close>

definition dec_searchResponse :: "json \<Rightarrow> fj_repo list option" where
  "dec_searchResponse = dec_struct (dec_field ''data'' (dec_list dec_fj_repo))"

definition fj_searchURL :: "fj_client \<Rightarrow> nat \<Rightarrow> state \<Rightarrow> url" where
  "fj_searchURL c page st =
     with_query
       ([(''limit'', show_nat fj_pageSize), (''page'', show_nat page)] @
        (if st \<noteq> StateAll then [(''archived'', if st = StateArchived then ''true'' else ''false'')] else []))
       (join_path (fj_BaseURL c) ''/api/v1/repos/search'')"

definition fj_fetchSearchPage :: "net \<Rightarrow> fj_client \<Rightarrow> state \<Rightarrow> nat \<Rightarrow> os \<Rightarrow> (err + fj_repo list) \<times> os" where
  "fj_fetchSearchPage net c st page s =
     (case new_request net (url_string (fj_searchURL c page st)) (fj_auth c) of
        Inl e \<Rightarrow> (Inl (Wrap ''list forgejo repos'' e), s)
      | Inr rq \<Rightarrow>
          (case http_do net rq s of
             (Inl e, s1) \<Rightarrow> (Inl (Wrap ''list forgejo repos'' e), s1)
           | (Inr resp, s1) \<Rightarrow>
               if rs_status resp \<noteq> 200 then (Inl (Wrap ''list forgejo repos'' (ErrUnexpectedStatus (rs_status resp))), s1)
               else (case Option.bind (rs_json resp) dec_searchResponse of
                       None \<Rightarrow> (Inl (Wrap ''list forgejo repos: decode response'' DecodeError), s1)
                     | Some repos \<Rightarrow> (Inr repos, s1))))"

definition fj_take_repo :: "fj_client \<Rightarrow> (fj_repo, repo list) worker" where
  "fj_take_repo c r st =
     (case st of (repos, s) \<Rightarrow>
        if fj_SkipMirrors c \<and> fr_Mirror r
        then Some (Inr (), (repos, log_at LInfo ''skipping mirror repository'' (fr_FullName r) s))
        else Some (Inr (), (repos @ [\<lparr>repo_path = fr_FullName r, repo_archived = fr_Archived r, repo_empty = fr_Empty r\<rparr>], s)))"

definition fj_ListRepos :: "net \<Rightarrow> fj_client \<Rightarrow> lister" where
  "fj_ListRepos net c st s =
     collected (paged (by_size fj_pageSize (fj_fetchSearchPage net c st)) (fj_take_repo c) ([], s))"

section \<open>Issues\<close>

record forgeComment =
  fc_User :: string
  fc_Body :: string
  fc_CreatedAt :: time

record forgeIssue =
  fi_Number :: int
  fi_Title :: string
  fi_Body :: string
  fi_User :: string
  fi_State :: string
  fi_Labels :: "string list"
  fi_CreatedAt :: time
  fi_UpdatedAt :: time
  fi_ClosedAt :: "time option"

text \<open>\<open>forgeUser\<close> and \<open>forgeLabel\<close> hold one field each, so they are that field.\<close>

definition dec_forgeUser :: "json \<Rightarrow> string option" where
  "dec_forgeUser = dec_struct (dec_field ''login'' dec_string)"

definition dec_forgeLabel :: "json \<Rightarrow> string option" where
  "dec_forgeLabel = dec_struct (dec_field ''name'' dec_string)"

definition dec_forgeIssue :: "json \<Rightarrow> forgeIssue option" where
  "dec_forgeIssue = dec_struct (\<lambda>fs. do {
     n \<leftarrow> dec_field ''number'' dec_int fs;
     t \<leftarrow> dec_field ''title'' dec_string fs;
     b \<leftarrow> dec_field ''body'' dec_string fs;
     u \<leftarrow> dec_field ''user'' dec_forgeUser fs;
     st \<leftarrow> dec_field ''state'' dec_string fs;
     ls \<leftarrow> dec_field ''labels'' (dec_list dec_forgeLabel) fs;
     ca \<leftarrow> dec_field ''created_at'' dec_time fs;
     ua \<leftarrow> dec_field ''updated_at'' dec_time fs;
     cl \<leftarrow> dec_field ''closed_at'' (dec_ptr dec_time) fs;
     Some \<lparr>fi_Number = n, fi_Title = t, fi_Body = b, fi_User = u, fi_State = st, fi_Labels = ls,
           fi_CreatedAt = ca, fi_UpdatedAt = ua, fi_ClosedAt = cl\<rparr> })"

definition dec_forgeComment :: "json \<Rightarrow> forgeComment option" where
  "dec_forgeComment = dec_struct (\<lambda>fs. do {
     u \<leftarrow> dec_field ''user'' dec_forgeUser fs;
     b \<leftarrow> dec_field ''body'' dec_string fs;
     ca \<leftarrow> dec_field ''created_at'' dec_time fs;
     Some \<lparr>fc_User = u, fc_Body = b, fc_CreatedAt = ca\<rparr> })"

definition fj_toIssue :: "forgeIssue \<Rightarrow> forgeComment list \<Rightarrow> issue" where
  "fj_toIssue it comments =
     \<lparr>i_number = fi_Number it, i_title = fi_Title it, i_body = fi_Body it, i_author = fi_User it, i_state = fi_State it,
      i_labels = Some (fi_Labels it), i_created_at = fi_CreatedAt it, i_updated_at = fi_UpdatedAt it, i_closed_at = fi_ClosedAt it,
      i_comments = Some (map (\<lambda>c. \<lparr>c_author = fc_User c, c_body = fc_Body c, c_created_at = fc_CreatedAt c\<rparr>) comments)\<rparr>"

definition fj_fetchIssuesPage :: "net \<Rightarrow> fj_client \<Rightarrow> string \<Rightarrow> nat \<Rightarrow> os \<Rightarrow> (err + forgeIssue list) \<times> os" where
  "fj_fetchIssuesPage net c path page s =
     in_context (''list forgejo issues for '' @ path)
       (fj_getJSON net c
          (with_query [(''type'', ''issues''), (''state'', ''all''), (''limit'', show_nat fj_pageSize), (''page'', show_nat page)]
             (join_path (fj_BaseURL c) (''/api/v1/repos/'' @ path @ ''/issues'')))
          (dec_list dec_forgeIssue) s)"

definition fj_fetchCommentsPage :: "net \<Rightarrow> fj_client \<Rightarrow> string \<Rightarrow> int \<Rightarrow> nat \<Rightarrow> os \<Rightarrow> (err + forgeComment list) \<times> os" where
  "fj_fetchCommentsPage net c path number page s =
     in_context (''list forgejo comments for '' @ path @ ''#'' @ itoa number)
       (fj_getJSON net c
          (with_query [(''page'', show_nat page), (''limit'', show_nat fj_pageSize)]
             (join_path (fj_BaseURL c) (''/api/v1/repos/'' @ path @ ''/issues/'' @ itoa number @ ''/comments'')))
          (dec_list dec_forgeComment) s)"

definition fj_fetchComments :: "net \<Rightarrow> fj_client \<Rightarrow> string \<Rightarrow> int \<Rightarrow> os \<Rightarrow> ((err + forgeComment list) \<times> os) option" where
  "fj_fetchComments net c path number s =
     collected (paged (by_size fj_pageSize (fj_fetchCommentsPage net c path number)) (appending (\<lambda>x. [x])) ([], s))"

definition fj_exportIssue :: "net \<Rightarrow> fj_client \<Rightarrow> string \<Rightarrow> string \<Rightarrow> forgeIssue \<Rightarrow> os \<Rightarrow> ((err + unit) \<times> os) option" where
  "fj_exportIssue net c path dir it s =
     (case fj_fetchComments net c path (fi_Number it) s of
        None \<Rightarrow> None
      | Some (Inl e, s1) \<Rightarrow> Some (Inl e, s1)
      | Some (Inr comments, s1) \<Rightarrow>
          Some (in_context (''write issue '' @ path @ ''#'' @ itoa (fi_Number it)) (WriteIssue dir (fj_toIssue it comments) s1)))"

definition fj_IssueExporter :: "net \<Rightarrow> fj_client \<Rightarrow> metadata_exporter" where
  "fj_IssueExporter net c =
     \<lparr>exp_kind = MetadataIssues,
      exp_export = (\<lambda>r dir s.
        acted (paged (by_size fj_pageSize (fj_fetchIssuesPage net c (repo_path r))) (acting (fj_exportIssue net c (repo_path r) dir)) ((), s)))\<rparr>"

section \<open>Releases\<close>

record forgeAsset =
  fa_Name :: string
  fa_BrowserDownloadURL :: string

record forgeRelease =
  fl_TagName :: string
  fl_Name :: string
  fl_Body :: string
  fl_Author :: string
  fl_CreatedAt :: time
  fl_PublishedAt :: "time option"
  fl_Assets :: "forgeAsset list"

definition dec_forgeAsset :: "json \<Rightarrow> forgeAsset option" where
  "dec_forgeAsset = dec_struct (\<lambda>fs. do {
     n \<leftarrow> dec_field ''name'' dec_string fs;
     sz \<leftarrow> dec_field ''size'' dec_int fs;
     u \<leftarrow> dec_field ''browser_download_url'' dec_string fs;
     Some \<lparr>fa_Name = n, fa_BrowserDownloadURL = u\<rparr> })"

definition dec_forgeRelease :: "json \<Rightarrow> forgeRelease option" where
  "dec_forgeRelease = dec_struct (\<lambda>fs. do {
     t \<leftarrow> dec_field ''tag_name'' dec_string fs;
     n \<leftarrow> dec_field ''name'' dec_string fs;
     b \<leftarrow> dec_field ''body'' dec_string fs;
     a \<leftarrow> dec_field ''author'' dec_forgeUser fs;
     ca \<leftarrow> dec_field ''created_at'' dec_time fs;
     pa \<leftarrow> dec_field ''published_at'' (dec_ptr dec_time) fs;
     as \<leftarrow> dec_field ''assets'' (dec_list dec_forgeAsset) fs;
     Some \<lparr>fl_TagName = t, fl_Name = n, fl_Body = b, fl_Author = a, fl_CreatedAt = ca, fl_PublishedAt = pa, fl_Assets = as\<rparr> })"

definition fj_fetchReleasesPage :: "net \<Rightarrow> fj_client \<Rightarrow> string \<Rightarrow> nat \<Rightarrow> os \<Rightarrow> (err + forgeRelease list) \<times> os" where
  "fj_fetchReleasesPage net c path page s =
     in_context (''list forgejo releases for '' @ path)
       (fj_getJSON net c
          (with_query [(''limit'', show_nat fj_pageSize), (''page'', show_nat page)]
             (join_path (fj_BaseURL c) (''/api/v1/repos/'' @ path @ ''/releases'')))
          (dec_list dec_forgeRelease) s)"

definition fj_resolveAssetURL :: "net \<Rightarrow> fj_client \<Rightarrow> string \<Rightarrow> err + string" where
  "fj_resolveAssetURL net c raw =
     (case net_parse net raw of
        None \<Rightarrow> Inl (Wrap (''parse asset url '' @ raw) UrlError)
      | Some parsed \<Rightarrow>
          Inr (url_string ((fj_BaseURL c)\<lparr>u_path := u_path parsed, u_rawpath := u_rawpath parsed, u_rawquery := u_rawquery parsed\<rparr>)))"

definition fj_downloadAsset ::
  "net \<Rightarrow> fj_client \<Rightarrow> string \<Rightarrow> string \<Rightarrow> string \<Rightarrow> forgeAsset \<Rightarrow> os \<Rightarrow> (err + int) \<times> os"
where
  "fj_downloadAsset net c path dir tag a s =
     (let ctx = ''download forgejo release asset '' @ fa_Name a @ '' for '' @ path in
      case fj_resolveAssetURL net c (fa_BrowserDownloadURL a) of
        Inl e \<Rightarrow> (Inl (Wrap ctx e), s)
      | Inr asset_url \<Rightarrow>
          (case new_request net asset_url (fj_auth c) of
             Inl e \<Rightarrow> (Inl (Wrap ctx e), s)
           | Inr rq \<Rightarrow>
               (case http_do net rq s of
                  (Inl e, s1) \<Rightarrow> (Inl (Wrap ctx e), s1)
                | (Inr resp, s1) \<Rightarrow>
                    if rs_status resp \<noteq> 200 then (Inl (Wrap ctx (ErrUnexpectedStatus (rs_status resp))), s1)
                    else in_context ctx (WriteReleaseAsset dir tag (fa_Name a) (rs_body resp) s1))))"

definition fj_exportRelease :: "net \<Rightarrow> fj_client \<Rightarrow> string \<Rightarrow> string \<Rightarrow> forgeRelease \<Rightarrow> os \<Rightarrow> (err + unit) \<times> os" where
  "fj_exportRelease net c path dir it s =
     (case collect_each (\<lambda>a s. case fj_downloadAsset net c path dir (fl_TagName it) a s of
                            (Inl e, s1) \<Rightarrow> (Inl e, s1)
                          | (Inr n, s1) \<Rightarrow> (Inr \<lparr>ra_name = fa_Name a, ra_size = n\<rparr>, s1)) (fl_Assets it) s of
        (Inl e, s1) \<Rightarrow> (Inl e, s1)
      | (Inr assets, s1) \<Rightarrow>
          in_context (''write release '' @ path @ ''#'' @ fl_TagName it)
            (WriteRelease dir
               \<lparr>r_tag_name = fl_TagName it, r_name = fl_Name it, r_body = fl_Body it, r_author = fl_Author it,
                r_created_at = fl_CreatedAt it, r_published_at = fl_PublishedAt it, r_assets = Some assets\<rparr> s1))"

definition fj_ReleaseExporter :: "net \<Rightarrow> fj_client \<Rightarrow> metadata_exporter" where
  "fj_ReleaseExporter net c =
     \<lparr>exp_kind = MetadataReleases,
      exp_export = (\<lambda>r dir s.
        acted (paged (by_size fj_pageSize (fj_fetchReleasesPage net c (repo_path r)))
                 (acting (\<lambda>it s. Some (fj_exportRelease net c (repo_path r) dir it s))) ((), s)))\<rparr>"

section \<open>Pull requests\<close>

record forgePullRequest =
  fp_Number :: int
  fp_Title :: string
  fp_Body :: string
  fp_User :: string
  fp_State :: string
  fp_Merged :: bool
  fp_Head :: string
  fp_Base :: string
  fp_CreatedAt :: time
  fp_UpdatedAt :: time
  fp_ClosedAt :: "time option"
  fp_MergedAt :: "time option"

record forgeReview =
  fv_ID :: int
  fv_User :: string
  fv_Body :: string
  fv_SubmittedAt :: time

record forgeReviewComment =
  fw_User :: string
  fw_Body :: string
  fw_CreatedAt :: time
  fw_Path :: string
  fw_Position :: int
  fw_OriginalPosition :: int

definition dec_forgeRef :: "json \<Rightarrow> string option" where
  "dec_forgeRef = dec_struct (dec_field ''ref'' dec_string)"

definition dec_forgePullRequest :: "json \<Rightarrow> forgePullRequest option" where
  "dec_forgePullRequest = dec_struct (\<lambda>fs. do {
     n \<leftarrow> dec_field ''number'' dec_int fs;
     t \<leftarrow> dec_field ''title'' dec_string fs;
     b \<leftarrow> dec_field ''body'' dec_string fs;
     u \<leftarrow> dec_field ''user'' dec_forgeUser fs;
     st \<leftarrow> dec_field ''state'' dec_string fs;
     mg \<leftarrow> dec_field ''merged'' dec_bool fs;
     h \<leftarrow> dec_field ''head'' dec_forgeRef fs;
     ba \<leftarrow> dec_field ''base'' dec_forgeRef fs;
     ca \<leftarrow> dec_field ''created_at'' dec_time fs;
     ua \<leftarrow> dec_field ''updated_at'' dec_time fs;
     cl \<leftarrow> dec_field ''closed_at'' (dec_ptr dec_time) fs;
     ma \<leftarrow> dec_field ''merged_at'' (dec_ptr dec_time) fs;
     Some \<lparr>fp_Number = n, fp_Title = t, fp_Body = b, fp_User = u, fp_State = st, fp_Merged = mg, fp_Head = h, fp_Base = ba,
           fp_CreatedAt = ca, fp_UpdatedAt = ua, fp_ClosedAt = cl, fp_MergedAt = ma\<rparr> })"

definition dec_forgeReview :: "json \<Rightarrow> forgeReview option" where
  "dec_forgeReview = dec_struct (\<lambda>fs. do {
     i \<leftarrow> dec_field ''id'' dec_int fs;
     u \<leftarrow> dec_field ''user'' dec_forgeUser fs;
     b \<leftarrow> dec_field ''body'' dec_string fs;
     sa \<leftarrow> dec_field ''submitted_at'' dec_time fs;
     Some \<lparr>fv_ID = i, fv_User = u, fv_Body = b, fv_SubmittedAt = sa\<rparr> })"

definition dec_forgeReviewComment :: "json \<Rightarrow> forgeReviewComment option" where
  "dec_forgeReviewComment = dec_struct (\<lambda>fs. do {
     u \<leftarrow> dec_field ''user'' dec_forgeUser fs;
     b \<leftarrow> dec_field ''body'' dec_string fs;
     ca \<leftarrow> dec_field ''created_at'' dec_time fs;
     p \<leftarrow> dec_field ''path'' dec_string fs;
     po \<leftarrow> dec_field ''position'' dec_int fs;
     op \<leftarrow> dec_field ''original_position'' dec_int fs;
     Some \<lparr>fw_User = u, fw_Body = b, fw_CreatedAt = ca, fw_Path = p, fw_Position = po, fw_OriginalPosition = op\<rparr> })"

definition fj_toPullRequest :: "forgePullRequest \<Rightarrow> review_comment list \<Rightarrow> pull_request" where
  "fj_toPullRequest it comments =
     \<lparr>pr_number = fp_Number it, pr_title = fp_Title it, pr_body = fp_Body it, pr_author = fp_User it,
      pr_state = (if fp_Merged it then ''merged'' else fp_State it), pr_source_branch = fp_Head it, pr_target_branch = fp_Base it,
      pr_created_at = fp_CreatedAt it, pr_updated_at = fp_UpdatedAt it, pr_closed_at = fp_ClosedAt it, pr_merged_at = fp_MergedAt it,
      pr_comments = nil_if_empty comments\<rparr>"

definition fj_toReviewComment :: "forgeReviewComment \<Rightarrow> review_comment" where
  "fj_toReviewComment c =
     \<lparr>rc_author = fw_User c, rc_body = fw_Body c, rc_created_at = fw_CreatedAt c, rc_file = fw_Path c,
      rc_line = (if fw_Position c = 0 then fw_OriginalPosition c else fw_Position c)\<rparr>"

definition fj_fetchPullsPage :: "net \<Rightarrow> fj_client \<Rightarrow> string \<Rightarrow> nat \<Rightarrow> os \<Rightarrow> (err + forgePullRequest list) \<times> os" where
  "fj_fetchPullsPage net c path page s =
     in_context (''list forgejo pull requests for '' @ path)
       (fj_getJSON net c
          (with_query [(''state'', ''all''), (''limit'', show_nat fj_pageSize), (''page'', show_nat page)]
             (join_path (fj_BaseURL c) (''/api/v1/repos/'' @ path @ ''/pulls'')))
          (dec_list dec_forgePullRequest) s)"

definition fj_fetchReviewsPage :: "net \<Rightarrow> fj_client \<Rightarrow> string \<Rightarrow> int \<Rightarrow> nat \<Rightarrow> os \<Rightarrow> (err + forgeReview list) \<times> os" where
  "fj_fetchReviewsPage net c path number page s =
     in_context (''list forgejo reviews for '' @ path @ ''#'' @ itoa number)
       (fj_getJSON net c
          (with_query [(''limit'', show_nat fj_pageSize), (''page'', show_nat page)]
             (join_path (fj_BaseURL c) (''/api/v1/repos/'' @ path @ ''/pulls/'' @ itoa number @ ''/reviews'')))
          (dec_list dec_forgeReview) s)"

definition fj_fetchOneReviewComments ::
  "net \<Rightarrow> fj_client \<Rightarrow> string \<Rightarrow> int \<Rightarrow> int \<Rightarrow> os \<Rightarrow> (err + review_comment list) \<times> os"
where
  "fj_fetchOneReviewComments net c path number review s =
     (case in_context (''list forgejo review comments for '' @ path @ ''#'' @ itoa number @ '' review '' @ itoa review)
             (fj_getJSON net c
                (join_path (fj_BaseURL c)
                   (''/api/v1/repos/'' @ path @ ''/pulls/'' @ itoa number @ ''/reviews/'' @ itoa review @ ''/comments''))
                (dec_list dec_forgeReviewComment) s) of
        (Inl e, s1) \<Rightarrow> (Inl e, s1)
      | (Inr comments, s1) \<Rightarrow> (Inr (map fj_toReviewComment comments), s1))"

definition fj_take_review :: "net \<Rightarrow> fj_client \<Rightarrow> string \<Rightarrow> int \<Rightarrow> (forgeReview, review_comment list) worker" where
  "fj_take_review net c path number r st =
     (case st of (all, s) \<Rightarrow>
        (let all1 = (if fv_Body r \<noteq> []
                     then all @ [\<lparr>rc_author = fv_User r, rc_body = fv_Body r, rc_created_at = fv_SubmittedAt r, rc_file = [], rc_line = 0\<rparr>]
                     else all)
         in case fj_fetchOneReviewComments net c path number (fv_ID r) s of
              (Inl e, s1) \<Rightarrow> Some (Inl e, (all1, s1))
            | (Inr comments, s1) \<Rightarrow> Some (Inr (), (all1 @ comments, s1))))"

definition fj_fetchReviewComments :: "net \<Rightarrow> fj_client \<Rightarrow> string \<Rightarrow> int \<Rightarrow> os \<Rightarrow> ((err + review_comment list) \<times> os) option" where
  "fj_fetchReviewComments net c path number s =
     collected (paged (by_size fj_pageSize (fj_fetchReviewsPage net c path number)) (fj_take_review net c path number) ([], s))"

definition fj_exportPullRequest :: "net \<Rightarrow> fj_client \<Rightarrow> string \<Rightarrow> string \<Rightarrow> forgePullRequest \<Rightarrow> os \<Rightarrow> ((err + unit) \<times> os) option" where
  "fj_exportPullRequest net c path dir it s =
     (case fj_fetchReviewComments net c path (fp_Number it) s of
        None \<Rightarrow> None
      | Some (Inl e, s1) \<Rightarrow> Some (Inl e, s1)
      | Some (Inr comments, s1) \<Rightarrow>
          Some (in_context (''write pull request '' @ path @ ''#'' @ itoa (fp_Number it))
                  (WritePullRequest dir (fj_toPullRequest it comments) s1)))"

definition fj_PullRequestExporter :: "net \<Rightarrow> fj_client \<Rightarrow> metadata_exporter" where
  "fj_PullRequestExporter net c =
     \<lparr>exp_kind = MetadataPullRequests,
      exp_export = (\<lambda>r dir s.
        acted (paged (by_size fj_pageSize (fj_fetchPullsPage net c (repo_path r)))
                 (acting (fj_exportPullRequest net c (repo_path r) dir)) ((), s)))\<rparr>"

section \<open>The contracts\<close>

lemma fj_fetches_read:
  "reads_only s (snd (fj_fetchSearchPage net c st page s))"
  "reads_only s (snd (fj_fetchIssuesPage net c path page s))"
  "reads_only s (snd (fj_fetchCommentsPage net c path number page s))"
  "reads_only s (snd (fj_fetchReleasesPage net c path page s))"
  "reads_only s (snd (fj_fetchPullsPage net c path page s))"
  "reads_only s (snd (fj_fetchReviewsPage net c path number page s))"
  "reads_only s (snd (fj_fetchOneReviewComments net c path number review s))"
proof -
  show "reads_only s (snd (fj_fetchSearchPage net c st page s))"
    by (auto simp: fj_fetchSearchPage_def dest: http_do_reads split: sum.splits prod.splits option.splits)
  show "reads_only s (snd (fj_fetchOneReviewComments net c path number review s))"
    unfolding fj_fetchOneReviewComments_def fj_getJSON_def
    using get_json_snd in_context_snd by (auto split: sum.splits prod.splits) (metis in_context_snd get_json_snd snd_conv)+
qed (simp_all add: fj_fetchIssuesPage_def fj_fetchCommentsPage_def fj_fetchReleasesPage_def fj_fetchPullsPage_def
    fj_fetchReviewsPage_def fj_getJSON_def)


lemma fj_exports_written:
  "fj_exportIssue net c path dir it s = Some (x, s') \<Longrightarrow> written dir s s'"
  "fj_exportPullRequest net c path dir pr s = Some (x, s') \<Longrightarrow> written dir s s'"
  "fj_downloadAsset net c path dir tag a s = (y, s') \<Longrightarrow> written dir s s'"
  "fj_exportRelease net c path dir rl s = (x, s') \<Longrightarrow> written dir s s'"
proof -
  have comments: "reads_only s s1" if "fj_fetchComments net c path n s = Some (r, s1)" for n r s s1
    using that unfolding fj_fetchComments_def by (rule collected_appending_reads) (simp add: by_size_snd fj_fetches_read)
  have taken: "reads_only (snd st) (snd st')" if "fj_take_review net c path n v st = Some (r, st')" for n v st r st'
    using that fj_fetches_read(7) [of "snd st" net c path n "fv_ID v"]
    by (auto simp: fj_take_review_def Let_def split: prod.splits sum.splits)
  have reviews: "reads_only s s1" if "fj_fetchReviewComments net c path n s = Some (r, s1)" for n r s s1
    using that unfolding fj_fetchReviewComments_def
    by (rule collected_reads) (erule paged_reads, auto simp: by_size_snd fj_fetches_read intro: taken)
  show "fj_exportIssue net c path dir it s = Some (x, s') \<Longrightarrow> written dir s s'"
    by (auto simp: fj_exportIssue_def split: option.splits sum.splits prod.splits
        dest!: comments intro: reads_written exporter_writes)
  show "fj_exportPullRequest net c path dir pr s = Some (x, s') \<Longrightarrow> written dir s s'"
    by (auto simp: fj_exportPullRequest_def split: option.splits sum.splits prod.splits
        dest!: reviews intro: reads_written exporter_writes)
  have asset: "written dir s s'" if "fj_downloadAsset net c path dir tag a s = (y, s')" for tag a s y s'
    using that by (auto simp: fj_downloadAsset_def Let_def split: option.splits sum.splits prod.splits if_splits
        dest!: http_do_reads intro: reads_written exporter_writes)
  show "fj_downloadAsset net c path dir tag a s = (y, s') \<Longrightarrow> written dir s s'" by (rule asset)
  show "written dir s s'" if run: "fj_exportRelease net c path dir rl s = (x, s')"
  proof -
    have each: "written dir s s1"
      if "collect_each (\<lambda>a s. case fj_downloadAsset net c path dir (fl_TagName rl) a s of
                            (Inl e, s1) \<Rightarrow> (Inl e, s1)
                          | (Inr n, s1) \<Rightarrow> (Inr \<lparr>ra_name = fa_Name a, ra_size = n\<rparr>, s1)) xs s = (r, s1)" for xs r s1
      using that by (rule collect_each_written) (auto dest: asset split: sum.splits prod.splits)
    show ?thesis
      using run by (auto simp: fj_exportRelease_def split: sum.splits prod.splits dest!: each intro: written_trans exporter_writes)
  qed
qed

interpretation fj_lister: lister_contract "fj_ListRepos net c" for net c
proof unfold_locales
  fix st s r s' assume "fj_ListRepos net c st s = Some (r, s')"
  then show "reads_only s s'"
    unfolding fj_ListRepos_def
    by (rule collected_reads)
      (erule paged_reads, auto simp: by_size_snd fj_fetches_read fj_take_repo_def split: if_splits prod.splits)
qed

interpretation fj_issues: file_exporter "fj_IssueExporter net c" for net c
  unfolding fj_IssueExporter_def
  by (rule paged_exporter) (simp_all add: plain_kinds by_size_snd fj_fetches_read fj_exports_written(1))

interpretation fj_releases: file_exporter "fj_ReleaseExporter net c" for net c
  unfolding fj_ReleaseExporter_def
  by (rule paged_exporter) (auto simp: plain_kinds by_size_snd fj_fetches_read intro: fj_exports_written(4))

interpretation fj_pulls: file_exporter "fj_PullRequestExporter net c" for net c
  unfolding fj_PullRequestExporter_def
  by (rule paged_exporter) (simp_all add: plain_kinds by_size_snd fj_fetches_read fj_exports_written(2))

section \<open>Where the token goes\<close>

text \<open>An authenticated request to the configured Forgejo instance.\<close>

definition fj_home :: "fj_client \<Rightarrow> request \<Rightarrow> bool" where
  "fj_home c rq \<longleftrightarrow> (\<exists>u. rq_url rq = url_string u \<and> same_site u (fj_BaseURL c)) \<and> rq_headers rq = fj_auth c"

lemma fj_homeI: "same_site u (fj_BaseURL c) \<Longrightarrow> fj_home c \<lparr>rq_url = url_string u, rq_headers = fj_auth c\<rparr>"
  by (auto simp: fj_home_def)

lemma fj_resolve_home: "fj_resolveAssetURL net c raw = Inr v \<Longrightarrow> fj_home c \<lparr>rq_url = v, rq_headers = fj_auth c\<rparr>"
  by (auto simp: fj_resolveAssetURL_def same_site_def intro!: fj_homeI split: option.splits)

lemma fj_sends_home:
  "sends (fj_home c) s (snd (fj_fetchSearchPage net c st page s))"
  "sends (fj_home c) s (snd (fj_fetchIssuesPage net c path page s))"
  "sends (fj_home c) s (snd (fj_fetchCommentsPage net c path number page s))"
  "sends (fj_home c) s (snd (fj_fetchReleasesPage net c path page s))"
  "sends (fj_home c) s (snd (fj_fetchPullsPage net c path page s))"
  "sends (fj_home c) s (snd (fj_fetchReviewsPage net c path number page s))"
  "sends (fj_home c) s (snd (fj_fetchOneReviewComments net c path number review s))"
proof -
  have "fj_home c \<lparr>rq_url = url_string (fj_searchURL c page st), rq_headers = fj_auth c\<rparr>"
    by (rule fj_homeI) (simp add: fj_searchURL_def)
  from http_do_sends [where P = "fj_home c", OF this, of s net]
  show "sends (fj_home c) s (snd (fj_fetchSearchPage net c st page s))"
    by (auto simp: fj_fetchSearchPage_def new_request_def split: sum.splits prod.splits option.splits)
  show "sends (fj_home c) s (snd (fj_fetchOneReviewComments net c path number review s))"
    unfolding fj_fetchOneReviewComments_def fj_getJSON_def
    by (simp add: case_prod_beta split: sum.split) (simp add: get_json_sends fj_homeI)
qed (simp_all add: fj_fetchIssuesPage_def fj_fetchCommentsPage_def fj_fetchReleasesPage_def fj_fetchPullsPage_def
    fj_fetchReviewsPage_def fj_getJSON_def get_json_sends fj_homeI)


lemma fj_downloads_home: "fj_downloadAsset net c path dir tag a s = (r, s') \<Longrightarrow> sends (fj_home c) s s'"
proof -
  assume run: "fj_downloadAsset net c path dir tag a s = (r, s')"
  show ?thesis
  proof (cases "fj_resolveAssetURL net c (fa_BrowserDownloadURL a)")
    case (Inl e)
    with run show ?thesis by (simp add: fj_downloadAsset_def)
  next
    case (Inr u)
    obtain x s1 where x: "http_do net \<lparr>rq_url = u, rq_headers = fj_auth c\<rparr> s = (x, s1)" by fastforce
    have "sends (fj_home c) s s1" using http_do_sends [of "fj_home c", OF fj_resolve_home [OF Inr], of s net] x by simp
    moreover have "s' = s \<or> os_requests s' = os_requests s1"
      using run Inr x by (auto simp: fj_downloadAsset_def Let_def new_request_def
          dest!: written_requests split: option.splits sum.splits if_splits)
    ultimately show ?thesis by (auto simp: sends_def)
  qed
qed

lemma fj_exports_home:
  "fj_exportIssue net c path dir it s = Some (x, s') \<Longrightarrow> sends (fj_home c) s s'"
  "fj_exportPullRequest net c path dir pr s = Some (x, s') \<Longrightarrow> sends (fj_home c) s s'"
  "fj_exportRelease net c path dir rl s = (x, s') \<Longrightarrow> sends (fj_home c) s s'"
proof -
  have comments: "sends (fj_home c) s s1" if "fj_fetchComments net c path n s = Some (r, s1)" for n r s s1
    using that unfolding fj_fetchComments_def by (rule collected_appending_sends) (simp add: by_size_snd fj_sends_home)
  have taken: "sends (fj_home c) (snd st) (snd st')" if "fj_take_review net c path n v st = Some (r, st')" for n v st r st'
    using that fj_sends_home(7) [of c "snd st" net path n "fv_ID v"]
    by (auto simp: fj_take_review_def Let_def split: prod.splits sum.splits)
  have reviews: "sends (fj_home c) s s1" if "fj_fetchReviewComments net c path n s = Some (r, s1)" for n r s s1
    using that unfolding fj_fetchReviewComments_def
    by (rule collected_sends) (erule paged_sends, auto simp: by_size_snd fj_sends_home intro: taken)
  show "fj_exportIssue net c path dir it s = Some (x, s') \<Longrightarrow> sends (fj_home c) s s'"
    by (auto simp: fj_exportIssue_def sends_def split: option.splits sum.splits prod.splits
        dest!: comments written_requests)
  show "fj_exportPullRequest net c path dir pr s = Some (x, s') \<Longrightarrow> sends (fj_home c) s s'"
    by (auto simp: fj_exportPullRequest_def sends_def split: option.splits sum.splits prod.splits
        dest!: reviews written_requests)
  show "sends (fj_home c) s s'" if run: "fj_exportRelease net c path dir rl s = (x, s')"
  proof -
    have each: "sends (fj_home c) s s1"
      if "collect_each (\<lambda>a s. case fj_downloadAsset net c path dir (fl_TagName rl) a s of
                            (Inl e, s1) \<Rightarrow> (Inl e, s1)
                          | (Inr n, s1) \<Rightarrow> (Inr \<lparr>ra_name = fa_Name a, ra_size = n\<rparr>, s1)) xs s = (r, s1)" for xs r s1
      using that by (rule collect_each_sends) (auto dest: fj_downloads_home split: sum.splits prod.splits)
    show ?thesis
      using run by (auto simp: fj_exportRelease_def sends_def split: sum.splits prod.splits
          dest!: each written_requests)
  qed
qed

definition fj_exporters :: "net \<Rightarrow> fj_client \<Rightarrow> metadata_exporter list" where
  "fj_exporters net c = [fj_IssueExporter net c, fj_ReleaseExporter net c, fj_PullRequestExporter net c]"

lemma fj_exporters_home:
  "exp_export (fj_IssueExporter net c) r dir s = Some (x, s') \<Longrightarrow> sends (fj_home c) s s'"
  "exp_export (fj_ReleaseExporter net c) r dir s = Some (x, s') \<Longrightarrow> sends (fj_home c) s s'"
  "exp_export (fj_PullRequestExporter net c) r dir s = Some (x, s') \<Longrightarrow> sends (fj_home c) s s'"
  unfolding fj_IssueExporter_def fj_ReleaseExporter_def fj_PullRequestExporter_def metadata_exporter.simps
  by (erule acted_sends; auto simp: by_size_snd fj_sends_home intro: fj_exports_home)+


section \<open>Properties\<close>

text \<open>
  An instance that answers the search with a list of repositories in pages of \<open>fj_pageSize\<close>,
  as far as the listing asks.
\<close>

definition fj_serves_page :: "net \<Rightarrow> fj_client \<Rightarrow> state \<Rightarrow> fj_repo list \<Rightarrow> nat \<Rightarrow> bool" where
  "fj_serves_page net c st xs p =
     (case new_request net (url_string (fj_searchURL c (Suc p) st)) (fj_auth c) of
        Inl _ \<Rightarrow> False
      | Inr rq \<Rightarrow>
          (case net_do net rq of
             Inl _ \<Rightarrow> False
           | Inr resp \<Rightarrow> rs_status resp = 200 \<and>
               Option.bind (rs_json resp) dec_searchResponse = Some (take fj_pageSize (drop (p * fj_pageSize) xs))))"

definition fj_serves :: "net \<Rightarrow> fj_client \<Rightarrow> state \<Rightarrow> fj_repo list \<Rightarrow> bool" where
  "fj_serves net c st xs = list_all (fj_serves_page net c st xs) [0..<Suc (length xs div fj_pageSize)]"

definition fj_listed :: "fj_client \<Rightarrow> fj_repo list \<Rightarrow> repo list" where
  "fj_listed c xs =
     map (\<lambda>r. \<lparr>repo_path = fr_FullName r, repo_archived = fr_Archived r, repo_empty = fr_Empty r\<rparr>)
       (filter (\<lambda>r. \<not> (fj_SkipMirrors c \<and> fr_Mirror r)) xs)"

lemma fj_served_fetch:
  assumes "fj_serves_page net c st xs p"
  shows "fj_fetchSearchPage net c st (Suc p) s =
    (Inr (take fj_pageSize (drop (p * fj_pageSize) xs)),
     s\<lparr>os_requests := os_requests s @ [\<lparr>rq_url = url_string (fj_searchURL c (Suc p) st), rq_headers = fj_auth c\<rparr>]\<rparr>)"
  using assms
  by (auto simp: fj_serves_page_def fj_fetchSearchPage_def new_request_def http_do_def split: option.splits sum.splits)

lemma fj_fold_listed:
  "fold (\<lambda>r acc. if fj_SkipMirrors c \<and> fr_Mirror r then acc
      else acc @ [\<lparr>repo_path = fr_FullName r, repo_archived = fr_Archived r, repo_empty = fr_Empty r\<rparr>]) xs acc
    = acc @ fj_listed c xs"
  by (induction xs arbitrary: acc) (auto simp: fj_listed_def)

text \<open>C21:
  A Forgejo listing returns every repository the instance serves, over however many pages, in
  order, leaving out exactly the pull mirrors when \<open>skip_mirrors\<close> is set.
\<close>

theorem fj_ListRepos_complete:
  assumes "fj_serves net c st xs"
  shows "\<exists>s'. fj_ListRepos net c st s = Some (Inr (fj_listed c xs), s')"
proof -
  have page: "fj_serves_page net c st xs p" if "p * fj_pageSize \<le> length xs" for p
  proof -
    have "p \<le> length xs div fj_pageSize" using that by (simp add: fj_pageSize_def less_eq_div_iff_mult_less_eq)
    with assms show ?thesis by (simp only: fj_serves_def list_all_iff set_upt atLeastLessThan_iff) simp
  qed
  have "\<exists>s'. paged (by_size fj_pageSize (fj_fetchSearchPage net c st)) (fj_take_repo c) ([], s)
      = Some (Inr (), (fold (\<lambda>r acc. if fj_SkipMirrors c \<and> fr_Mirror r then acc
          else acc @ [\<lparr>repo_path = fr_FullName r, repo_archived = fr_Archived r, repo_empty = fr_Empty r\<rparr>]) xs [], s'))"
    by (rule paged_collects [where n = fj_pageSize and
          v = "\<lambda>p s. s\<lparr>os_requests := os_requests s @ [\<lparr>rq_url = url_string (fj_searchURL c (Suc p) st), rq_headers = fj_auth c\<rparr>]\<rparr>" and
          h = "\<lambda>r s. if fj_SkipMirrors c \<and> fr_Mirror r then log_at LInfo ''skipping mirror repository'' (fr_FullName r) s else s"])
      (auto simp: fj_pageSize_def [THEN arg_cong [where f = "\<lambda>n. 0 < n"]] by_size_def fj_served_fetch [OF page] fj_take_repo_def)
  then show ?thesis unfolding fj_ListRepos_def fj_fold_listed by (auto simp: collected_def)
qed

definition sample_fj :: fj_client where
  "sample_fj = \<lparr>fj_BaseURL = sample_url ''git.example'', fj_Token = ''t'', fj_SkipMirrors = True\<rparr>"

definition sample_json_repo :: "string \<Rightarrow> bool \<Rightarrow> json" where
  "sample_json_repo n m = JObj [(''full_name'', JStr n), (''archived'', JBool False), (''empty'', JBool False), (''mirror'', JBool m)]"

definition sample_fj_net :: net where
  "sample_fj_net =
     \<lparr>net_parse = (\<lambda>u. Some (sample_url ''git.example'')),
      net_do = (\<lambda>rq. answer 200 (JObj [(''data'', JArr [sample_json_repo ''me/app'' False, sample_json_repo ''me/copy'' True])]))\<rparr>"

lemma fj_ListRepos_complete_witness:
  "\<exists>s'. fj_ListRepos sample_fj_net sample_fj StateAll (quiet_os []) =
     Some (Inr [\<lparr>repo_path = ''me/app'', repo_archived = False, repo_empty = False\<rparr>], s')"
proof -
  let ?xs = "[\<lparr>fr_FullName = ''me/app'', fr_Archived = False, fr_Empty = False, fr_Mirror = False\<rparr>,
    \<lparr>fr_FullName = ''me/copy'', fr_Archived = False, fr_Empty = False, fr_Mirror = True\<rparr>]"
  have "fj_serves sample_fj_net sample_fj StateAll ?xs" by code_simp
  from fj_ListRepos_complete [OF this, of "quiet_os []"] show ?thesis
    by (simp add: fj_listed_def sample_fj_def)
qed

text \<open>C39:
  A Forgejo listing ends: when page \<open>n + 1\<close> is an error or shorter than the page size,
  whatever the pages before it hold, \<open>ListRepos\<close> returns.
\<close>

theorem fj_ListRepos_returns:
  assumes "\<And>s. \<exists>x s1. fj_fetchSearchPage net c st (Suc n) s = (x, s1) \<and> (case x of Inl _ \<Rightarrow> True | Inr items \<Rightarrow> length items < fj_pageSize)"
  shows "\<exists>r s'. fj_ListRepos net c st s = Some (r, s')"
proof -
  have "\<exists>x s1. by_size fj_pageSize (fj_fetchSearchPage net c st) (Suc n) s = (x, s1) \<and> (\<forall>items l. x = Inr (items, l) \<longrightarrow> l)" for s
  proof -
    obtain x s1 where "fj_fetchSearchPage net c st (Suc n) s = (x, s1)" by fastforce
    with assms [of s] show ?thesis by (cases x) (simp_all add: by_size_def)
  qed
  then obtain r st' where "paged (by_size fj_pageSize (fj_fetchSearchPage net c st)) (fj_take_repo c) ([], s) = Some (r, st')"
    using paged_returns [where f = "fj_take_repo c" and fetch = "by_size fj_pageSize (fj_fetchSearchPage net c st)" and n = n]
    by (fastforce simp: fj_take_repo_def split: if_splits)
  then show ?thesis by (cases r) (auto simp: fj_ListRepos_def collected_def)
qed

lemma fj_ListRepos_returns_witness:
  "\<exists>r s'. fj_ListRepos sample_fj_net sample_fj StateAll (quiet_os []) = Some (r, s')"
proof (rule fj_ListRepos_returns [where n = 0])
  fix s
  have "fj_serves_page sample_fj_net sample_fj StateAll [\<lparr>fr_FullName = ''me/app'', fr_Archived = False, fr_Empty = False, fr_Mirror = False\<rparr>,
    \<lparr>fr_FullName = ''me/copy'', fr_Archived = False, fr_Empty = False, fr_Mirror = True\<rparr>] 0" by code_simp
  from fj_served_fetch [OF this, of s]
  show "\<exists>x s1. fj_fetchSearchPage sample_fj_net sample_fj StateAll (Suc 0) s = (x, s1) \<and>
      (case x of Inl _ \<Rightarrow> True | Inr items \<Rightarrow> length items < fj_pageSize)"
    by (simp add: fj_pageSize_def)
qed

text \<open>C28:
  The Forgejo token only goes to the configured instance: every request an export sends
  has the scheme, user and host of the base URL, even those for release assets, whose URL
  the forge reports with a host of its own choosing.
\<close>

theorem fj_token_stays_home:
  assumes "e \<in> set (fj_exporters net c)" and "exp_export e r dir s = Some (x, s')"
  shows "sends (fj_home c) s s'"
  using assms fj_exporters_home unfolding fj_exporters_def by fastforce

definition sample_release_net :: net where
  "sample_release_net =
     \<lparr>net_parse = (\<lambda>u. Some ((sample_url ''elsewhere'')\<lparr>u_path := ''/a/b.zip''\<rparr>)),
      net_do = (\<lambda>rq. if has_suffix (rq_url rq) ''b.zip'' then answer 404 JNull
        else answer 200 (JArr [JObj [(''tag_name'', JStr ''v1''),
          (''assets'', JArr [JObj [(''name'', JStr ''b.zip''), (''browser_download_url'', JStr ''https://elsewhere/a/b.zip'')]])]]))\<rparr>"

definition sample_releases :: "forgeRelease list" where
  "sample_releases =
     [\<lparr>fl_TagName = ''v1'', fl_Name = [], fl_Body = [], fl_Author = [], fl_CreatedAt = ''0001-01-01T00:00:00Z'',
       fl_PublishedAt = None, fl_Assets = [\<lparr>fa_Name = ''b.zip'', fa_BrowserDownloadURL = ''https://elsewhere/a/b.zip''\<rparr>]\<rparr>]"

lemma sample_releases_page:
  "fst (fj_fetchReleasesPage sample_release_net sample_fj ''me/app'' 1 (quiet_os [])) = Inr sample_releases"
  "map rq_url (os_requests (snd (fj_fetchReleasesPage sample_release_net sample_fj ''me/app'' 1 (quiet_os []))))
    = [''https://git.example/api/v1/repos/me/app/releases?limit=50&page=1'']"
  by code_simp+

lemma sample_asset_url:
  "fj_resolveAssetURL sample_release_net sample_fj ''https://elsewhere/a/b.zip'' = Inr ''https://git.example/a/b.zip''"
  "net_do sample_release_net \<lparr>rq_url = ''https://git.example/a/b.zip'', rq_headers = fj_auth sample_fj\<rparr> = answer 404 JNull"
  by code_simp+

lemma sample_download:
  "\<exists>e. fj_downloadAsset sample_release_net sample_fj ''me/app'' ''/b/m'' tag \<lparr>fa_Name = ''b.zip'', fa_BrowserDownloadURL = ''https://elsewhere/a/b.zip''\<rparr> s
    = (Inl e, s\<lparr>os_requests := os_requests s @ [\<lparr>rq_url = ''https://git.example/a/b.zip'', rq_headers = fj_auth sample_fj\<rparr>]\<rparr>)"
proof -
  have "net_parse sample_release_net ''https://git.example/a/b.zip'' \<noteq> None" by (simp add: sample_release_net_def)
  then show ?thesis
    by (auto simp: fj_downloadAsset_def sample_asset_url new_request_def http_do_def answer_def Let_def split: option.split)
qed

lemma fj_token_stays_home_witness:
  "\<exists>x s'. exp_export (fj_ReleaseExporter sample_release_net sample_fj) \<lparr>repo_path = ''me/app'', repo_archived = False, repo_empty = False\<rparr>
       ''/b/m'' (quiet_os []) = Some (x, s') \<and>
     map rq_url (os_requests s') = [''https://git.example/api/v1/repos/me/app/releases?limit=50&page=1'', ''https://git.example/a/b.zip''] \<and>
     sends (fj_home sample_fj) (quiet_os []) s'"
proof -
  obtain s1 where page: "fj_fetchReleasesPage sample_release_net sample_fj ''me/app'' 1 (quiet_os []) = (Inr sample_releases, s1)"
    and first: "map rq_url (os_requests s1) = [''https://git.example/api/v1/repos/me/app/releases?limit=50&page=1'']"
    using sample_releases_page by (metis prod.collapse)
  let ?f = "acting (\<lambda>it s. Some (fj_exportRelease sample_release_net sample_fj ''me/app'' ''/b/m'' it s))"
  obtain e where e: "fj_downloadAsset sample_release_net sample_fj ''me/app'' ''/b/m'' ''v1''
      \<lparr>fa_Name = ''b.zip'', fa_BrowserDownloadURL = ''https://elsewhere/a/b.zip''\<rparr> s1
    = (Inl e, s1\<lparr>os_requests := os_requests s1 @ [\<lparr>rq_url = ''https://git.example/a/b.zip'', rq_headers = fj_auth sample_fj\<rparr>]\<rparr>)"
    using sample_download by blast
  let ?s2 = "s1\<lparr>os_requests := os_requests s1 @ [\<lparr>rq_url = ''https://git.example/a/b.zip'', rq_headers = fj_auth sample_fj\<rparr>]\<rparr>"
  have work: "for_each ?f sample_releases ((), s1) = Some (Inl e, ((), ?s2))"
    by (simp add: sample_releases_def acting_def fj_exportRelease_def e)
  have "by_size fj_pageSize (fj_fetchReleasesPage sample_release_net sample_fj ''me/app'') 1 (quiet_os []) = (Inr (sample_releases, True), s1)"
    unfolding by_size_def page by (simp add: fj_pageSize_def sample_releases_def)
  from paged_single [of "by_size fj_pageSize (fj_fetchReleasesPage sample_release_net sample_fj ''me/app'')", OF this work]
  have run: "exp_export (fj_ReleaseExporter sample_release_net sample_fj) \<lparr>repo_path = ''me/app'', repo_archived = False, repo_empty = False\<rparr>
       ''/b/m'' (quiet_os []) = Some (Inl e, ?s2)"
    by (simp add: fj_ReleaseExporter_def acted_def)
  have "fj_ReleaseExporter sample_release_net sample_fj \<in> set (fj_exporters sample_release_net sample_fj)"
    by (simp add: fj_exporters_def)
  from fj_token_stays_home [OF this run] run first show ?thesis by (intro exI conjI) simp_all
qed

end
