(* ===== verification/GitLab.thy ===== *)
theory GitLab
  imports Http
begin

text \<open>
  The GitLab client (\<open>internal/gitlab\<close>): listing projects with their wikis and snippets,
  building remotes, and exporting issues, releases and merge requests. Each Go method is the
  definition of the same name with a \<open>gl_\<close> in front. A listing says by its \<open>x-next-page\<close>
  header whether there is another page; a 403 counts as an empty last page
  (\<open>getOptional\<close>). The lookups of one page's projects, which run concurrently, are taken in
  page order.
\<close>

definition gl_pageSize :: nat where
  "gl_pageSize = 100"

record gl_client =
  gl_BaseURL :: url
  gl_Token :: string

definition gl_New :: "net \<Rightarrow> string \<Rightarrow> string \<Rightarrow> err + gl_client" where
  "gl_New net base token =
     (case net_parse net base of
        None \<Rightarrow> Inl (Wrap ''parse gitlab url'' UrlError)
      | Some u \<Rightarrow> Inr \<lparr>gl_BaseURL = u, gl_Token = token\<rparr>)"

definition gl_Remote :: "gl_client \<Rightarrow> remoter" where
  "gl_Remote c r =
     \<lparr>clone_url = url_string (join_path (gl_BaseURL c) (repo_path r @ ''.git'')),
      auth_header = ''Basic '' @ Basic ''oauth2'' (gl_Token c)\<rparr>"

definition gl_auth :: "gl_client \<Rightarrow> (string \<times> string) list" where
  "gl_auth c = [(''PRIVATE-TOKEN'', gl_Token c)]"

definition gl_projectSubURL :: "gl_client \<Rightarrow> string \<Rightarrow> string \<Rightarrow> nat \<Rightarrow> url" where
  "gl_projectSubURL c path sub page =
     with_query [(''per_page'', show_nat gl_pageSize), (''page'', show_nat page)]
       (join_path (gl_BaseURL c) (''/api/v4/projects/'' @ path_escape path @ ''/'' @ sub))"

definition gl_getOptional ::
  "net \<Rightarrow> gl_client \<Rightarrow> url \<Rightarrow> string \<Rightarrow> (json \<Rightarrow> 'a list option) \<Rightarrow> os \<Rightarrow> (err + 'a list \<times> string) \<times> os"
where
  "gl_getOptional net c u path dec s =
     (let at = url_string u in
      case new_request net at (gl_auth c) of
        Inl e \<Rightarrow> (Inl (Wrap (''build request for '' @ at) e), s)
      | Inr rq \<Rightarrow>
          (case http_do net rq s of
             (Inl e, s1) \<Rightarrow> (Inl (Wrap (''get '' @ at) e), s1)
           | (Inr resp, s1) \<Rightarrow>
               if rs_status resp = 403 then
                 (Inr ([], []), log_at LInfo ''gitlab project resource not accessible, treating as empty'' path s1)
               else if rs_status resp \<noteq> 200 then (Inl (Wrap (''get '' @ at) (ErrUnexpectedStatus (rs_status resp))), s1)
               else (case Option.bind (rs_json resp) dec of
                       None \<Rightarrow> (Inl (Wrap (''decode response from '' @ at) DecodeError), s1)
                     | Some items \<Rightarrow> (Inr (items, header_get ''x-next-page'' resp), s1))))"

section \<open>Projects\<close>

record project =
  pj_PathWithNamespace :: string
  pj_Archived :: bool
  pj_EmptyRepo :: bool

definition dec_project :: "json \<Rightarrow> project option" where
  "dec_project = dec_struct (\<lambda>fs. do {
     n \<leftarrow> dec_field ''path_with_namespace'' dec_string fs;
     a \<leftarrow> dec_field ''archived'' dec_bool fs;
     e \<leftarrow> dec_field ''empty_repo'' dec_bool fs;
     Some \<lparr>pj_PathWithNamespace = n, pj_Archived = a, pj_EmptyRepo = e\<rparr> })"

text \<open>\<open>wikiPage\<close> and \<open>snippet\<close> hold one field each.\<close>

definition dec_wikiPage :: "json \<Rightarrow> string option" where
  "dec_wikiPage = dec_struct (dec_field ''slug'' dec_string)"

definition dec_snippet :: "json \<Rightarrow> int option" where
  "dec_snippet = dec_struct (dec_field ''id'' dec_int)"

definition gl_wikiRepo :: "net \<Rightarrow> gl_client \<Rightarrow> project \<Rightarrow> os \<Rightarrow> (err + repo option) \<times> os" where
  "gl_wikiRepo net c p s =
     (let path = pj_PathWithNamespace p in
      case gl_getOptional net c (gl_projectSubURL c path ''wikis'' 1) path (dec_list dec_wikiPage) s of
        (Inl e, s1) \<Rightarrow> (Inl (Wrap (''list gitlab wiki pages for '' @ path) e), s1)
      | (Inr (pages, _), s1) \<Rightarrow>
          (Inr (if pages = [] then None
                else Some \<lparr>repo_path = path @ ''.wiki'', repo_archived = pj_Archived p, repo_empty = False\<rparr>), s1))"

definition gl_fetchSnippetsPage :: "net \<Rightarrow> gl_client \<Rightarrow> project \<Rightarrow> nat \<Rightarrow> os \<Rightarrow> (err + int list \<times> string) \<times> os" where
  "gl_fetchSnippetsPage net c p page s =
     (let path = pj_PathWithNamespace p in
      in_context (''list gitlab snippets for '' @ path)
        (gl_getOptional net c (gl_projectSubURL c path ''snippets'' page) path (dec_list dec_snippet) s))"

definition gl_snippetRepo :: "project \<Rightarrow> int \<Rightarrow> repo" where
  "gl_snippetRepo p i =
     \<lparr>repo_path = pj_PathWithNamespace p @ ''/snippets/'' @ itoa i, repo_archived = pj_Archived p, repo_empty = False\<rparr>"

definition gl_snippetRepos :: "net \<Rightarrow> gl_client \<Rightarrow> project \<Rightarrow> os \<Rightarrow> ((err + repo list) \<times> os) option" where
  "gl_snippetRepos net c p s =
     collected (paged (by_header (gl_fetchSnippetsPage net c p)) (appending (\<lambda>i. [gl_snippetRepo p i])) ([], s))"

definition gl_projectDetail :: "net \<Rightarrow> gl_client \<Rightarrow> project \<Rightarrow> os \<Rightarrow> ((err + repo list) \<times> os) option" where
  "gl_projectDetail net c p s =
     (let repos = [\<lparr>repo_path = pj_PathWithNamespace p, repo_archived = pj_Archived p, repo_empty = pj_EmptyRepo p\<rparr>] in
      case gl_wikiRepo net c p s of
        (Inl e, s1) \<Rightarrow> Some (Inl e, s1)
      | (Inr wiki, s1) \<Rightarrow>
          (let repos = (case wiki of None \<Rightarrow> repos | Some w \<Rightarrow> repos @ [w]) in
           case gl_snippetRepos net c p s1 of
             None \<Rightarrow> None
           | Some (Inl e, s2) \<Rightarrow> Some (Inl e, s2)
           | Some (Inr snippets, s2) \<Rightarrow> Some (Inr (repos @ snippets), s2)))"

definition gl_take_project :: "net \<Rightarrow> gl_client \<Rightarrow> (project, repo list) worker" where
  "gl_take_project net c p st =
     (case gl_projectDetail net c p (snd st) of
        None \<Rightarrow> None
      | Some (Inl e, s1) \<Rightarrow> Some (Inl e, (fst st, s1))
      | Some (Inr repos, s1) \<Rightarrow> Some (Inr (), (fst st @ repos, s1)))"

definition gl_projectRepos :: "net \<Rightarrow> gl_client \<Rightarrow> project list \<Rightarrow> os \<Rightarrow> ((err + repo list) \<times> os) option" where
  "gl_projectRepos net c projects s =
     map_option (in_context ''resolve project details'') (collected (for_each (gl_take_project net c) projects ([], s)))"

definition gl_projectsURL :: "gl_client \<Rightarrow> nat \<Rightarrow> bool \<Rightarrow> url" where
  "gl_projectsURL c page a =
     with_query [(''membership'', ''true''), (''per_page'', show_nat gl_pageSize), (''page'', show_nat page),
                 (''archived'', if a then ''true'' else ''false'')]
       (join_path (gl_BaseURL c) ''/api/v4/projects'')"

definition gl_fetchProjectsPage :: "net \<Rightarrow> gl_client \<Rightarrow> bool \<Rightarrow> nat \<Rightarrow> os \<Rightarrow> (err + project list \<times> string) \<times> os" where
  "gl_fetchProjectsPage net c a page s =
     (case net_get net (gl_auth c) (url_string (gl_projectsURL c page a)) s of
        (Inl e, s1) \<Rightarrow> (Inl (Wrap ''list gitlab projects'' e), s1)
      | (Inr resp, s1) \<Rightarrow>
          if rs_status resp \<noteq> 200 then (Inl (Wrap ''list gitlab projects'' (ErrUnexpectedStatus (rs_status resp))), s1)
          else (case Option.bind (rs_json resp) (dec_list dec_project) of
                  None \<Rightarrow> (Inl (Wrap ''list gitlab projects: decode response'' DecodeError), s1)
                | Some projects \<Rightarrow> (Inr (projects, header_get ''x-next-page'' resp), s1)))"

text \<open>A page of projects is resolved as a whole.\<close>

definition gl_take_page :: "net \<Rightarrow> gl_client \<Rightarrow> (project list, repo list) worker" where
  "gl_take_page net c projects st =
     (case gl_projectRepos net c projects (snd st) of
        None \<Rightarrow> None
      | Some (Inl e, s1) \<Rightarrow> Some (Inl e, (fst st, s1))
      | Some (Inr repos, s1) \<Rightarrow> Some (Inr (), (fst st @ repos, s1)))"

definition whole_page :: "(nat \<Rightarrow> os \<Rightarrow> (err + 'a list \<times> bool) \<times> os) \<Rightarrow> nat \<Rightarrow> os \<Rightarrow> (err + 'a list list \<times> bool) \<times> os" where
  "whole_page fetch page s =
     (case fetch page s of (Inl e, s1) \<Rightarrow> (Inl e, s1) | (Inr (items, l), s1) \<Rightarrow> (Inr ([items], l), s1))"

definition gl_listByArchived :: "net \<Rightarrow> gl_client \<Rightarrow> bool \<Rightarrow> os \<Rightarrow> ((err + repo list) \<times> os) option" where
  "gl_listByArchived net c a s =
     collected (paged (whole_page (by_header (gl_fetchProjectsPage net c a))) (gl_take_page net c) ([], s))"

definition gl_ListRepos :: "net \<Rightarrow> gl_client \<Rightarrow> lister" where
  "gl_ListRepos net c st s =
     (if st = StateAll then
        (case gl_listByArchived net c False s of
           None \<Rightarrow> None
         | Some (Inl e, s1) \<Rightarrow> Some (Inl e, s1)
         | Some (Inr active, s1) \<Rightarrow>
             (case gl_listByArchived net c True s1 of
                None \<Rightarrow> None
              | Some (Inl e, s2) \<Rightarrow> Some (Inl e, s2)
              | Some (Inr old, s2) \<Rightarrow> Some (Inr (active @ old), s2)))
      else gl_listByArchived net c (st = StateArchived) s)"

section \<open>Issues\<close>

record glNote =
  gn_Author :: string
  gn_Body :: string
  gn_CreatedAt :: time
  gn_System :: bool

record glIssue =
  gi_IID :: int
  gi_Title :: string
  gi_Description :: string
  gi_Author :: string
  gi_State :: string
  gi_Labels :: "string list option"
  gi_CreatedAt :: time
  gi_UpdatedAt :: time
  gi_ClosedAt :: "time option"

definition dec_glUser :: "json \<Rightarrow> string option" where
  "dec_glUser = dec_struct (dec_field ''username'' dec_string)"

definition dec_glIssue :: "json \<Rightarrow> glIssue option" where
  "dec_glIssue = dec_struct (\<lambda>fs. do {
     n \<leftarrow> dec_field ''iid'' dec_int fs;
     t \<leftarrow> dec_field ''title'' dec_string fs;
     b \<leftarrow> dec_field ''description'' dec_string fs;
     u \<leftarrow> dec_field ''author'' dec_glUser fs;
     st \<leftarrow> dec_field ''state'' dec_string fs;
     ls \<leftarrow> dec_field ''labels'' (dec_slice dec_string) fs;
     ca \<leftarrow> dec_field ''created_at'' dec_time fs;
     ua \<leftarrow> dec_field ''updated_at'' dec_time fs;
     cl \<leftarrow> dec_field ''closed_at'' (dec_ptr dec_time) fs;
     Some \<lparr>gi_IID = n, gi_Title = t, gi_Description = b, gi_Author = u, gi_State = st, gi_Labels = ls,
           gi_CreatedAt = ca, gi_UpdatedAt = ua, gi_ClosedAt = cl\<rparr> })"

definition dec_glNote :: "json \<Rightarrow> glNote option" where
  "dec_glNote = dec_struct (\<lambda>fs. do {
     u \<leftarrow> dec_field ''author'' dec_glUser fs;
     b \<leftarrow> dec_field ''body'' dec_string fs;
     ca \<leftarrow> dec_field ''created_at'' dec_time fs;
     sy \<leftarrow> dec_field ''system'' dec_bool fs;
     Some \<lparr>gn_Author = u, gn_Body = b, gn_CreatedAt = ca, gn_System = sy\<rparr> })"

definition gl_toIssue :: "glIssue \<Rightarrow> glNote list \<Rightarrow> issue" where
  "gl_toIssue it notes =
     (let st = (if gi_State it = ''opened'' then ''open'' else gi_State it) in
      \<lparr>i_number = gi_IID it, i_title = gi_Title it, i_body = gi_Description it, i_author = gi_Author it, i_state = st,
       i_labels = gi_Labels it, i_created_at = gi_CreatedAt it, i_updated_at = gi_UpdatedAt it, i_closed_at = gi_ClosedAt it,
       i_comments = Some (map (\<lambda>n. \<lparr>c_author = gn_Author n, c_body = gn_Body n, c_created_at = gn_CreatedAt n\<rparr>) notes)\<rparr>)"

definition gl_fetchIssuesPage :: "net \<Rightarrow> gl_client \<Rightarrow> string \<Rightarrow> nat \<Rightarrow> os \<Rightarrow> (err + glIssue list \<times> string) \<times> os" where
  "gl_fetchIssuesPage net c path page s =
     in_context (''list gitlab issues for '' @ path)
       (gl_getOptional net c (gl_projectSubURL c path ''issues'' page) path (dec_list dec_glIssue) s)"

definition gl_notesURL :: "gl_client \<Rightarrow> string \<Rightarrow> int \<Rightarrow> nat \<Rightarrow> url" where
  "gl_notesURL c path iid page =
     with_query [(''per_page'', show_nat gl_pageSize), (''page'', show_nat page)]
       (join_path (gl_BaseURL c) (''/api/v4/projects/'' @ path_escape path @ ''/issues/'' @ itoa iid @ ''/notes''))"

definition gl_fetchNotesPage :: "net \<Rightarrow> gl_client \<Rightarrow> string \<Rightarrow> int \<Rightarrow> nat \<Rightarrow> os \<Rightarrow> (err + glNote list \<times> string) \<times> os" where
  "gl_fetchNotesPage net c path iid page s =
     in_context (''list gitlab notes for '' @ path @ ''!'' @ itoa iid)
       (gl_getOptional net c (gl_notesURL c path iid page) path (dec_list dec_glNote) s)"

definition gl_fetchNotes :: "net \<Rightarrow> gl_client \<Rightarrow> string \<Rightarrow> int \<Rightarrow> os \<Rightarrow> ((err + glNote list) \<times> os) option" where
  "gl_fetchNotes net c path iid s =
     collected (paged (by_header (gl_fetchNotesPage net c path iid)) (appending (\<lambda>n. if gn_System n then [] else [n])) ([], s))"

definition gl_exportIssue :: "net \<Rightarrow> gl_client \<Rightarrow> string \<Rightarrow> string \<Rightarrow> glIssue \<Rightarrow> os \<Rightarrow> ((err + unit) \<times> os) option" where
  "gl_exportIssue net c path dir it s =
     (case gl_fetchNotes net c path (gi_IID it) s of
        None \<Rightarrow> None
      | Some (Inl e, s1) \<Rightarrow> Some (Inl e, s1)
      | Some (Inr notes, s1) \<Rightarrow>
          Some (in_context (''write issue '' @ path @ ''#'' @ itoa (gi_IID it)) (WriteIssue dir (gl_toIssue it notes) s1)))"

definition gl_IssueExporter :: "net \<Rightarrow> gl_client \<Rightarrow> metadata_exporter" where
  "gl_IssueExporter net c =
     \<lparr>exp_kind = MetadataIssues,
      exp_export = (\<lambda>r dir s.
        acted (paged (by_header (gl_fetchIssuesPage net c (repo_path r))) (acting (gl_exportIssue net c (repo_path r) dir)) ((), s)))\<rparr>"

section \<open>Releases\<close>

record glAssetLink =
  ga_Name :: string
  ga_URL :: string
  ga_DirectAssetURL :: string

record glRelease =
  gz_TagName :: string
  gz_Name :: string
  gz_Description :: string
  gz_Author :: string
  gz_CreatedAt :: time
  gz_ReleasedAt :: "time option"
  gz_Links :: "glAssetLink list"

definition dec_glAssetLink :: "json \<Rightarrow> glAssetLink option" where
  "dec_glAssetLink = dec_struct (\<lambda>fs. do {
     n \<leftarrow> dec_field ''name'' dec_string fs;
     u \<leftarrow> dec_field ''url'' dec_string fs;
     d \<leftarrow> dec_field ''direct_asset_url'' dec_string fs;
     Some \<lparr>ga_Name = n, ga_URL = u, ga_DirectAssetURL = d\<rparr> })"

definition dec_glAssets :: "json \<Rightarrow> glAssetLink list option" where
  "dec_glAssets = dec_struct (dec_field ''links'' (dec_list dec_glAssetLink))"

definition dec_glRelease :: "json \<Rightarrow> glRelease option" where
  "dec_glRelease = dec_struct (\<lambda>fs. do {
     t \<leftarrow> dec_field ''tag_name'' dec_string fs;
     n \<leftarrow> dec_field ''name'' dec_string fs;
     b \<leftarrow> dec_field ''description'' dec_string fs;
     a \<leftarrow> dec_field ''author'' dec_glUser fs;
     ca \<leftarrow> dec_field ''created_at'' dec_time fs;
     ra \<leftarrow> dec_field ''released_at'' (dec_ptr dec_time) fs;
     as \<leftarrow> dec_field ''assets'' dec_glAssets fs;
     Some \<lparr>gz_TagName = t, gz_Name = n, gz_Description = b, gz_Author = a, gz_CreatedAt = ca, gz_ReleasedAt = ra, gz_Links = as\<rparr> })"

definition gl_fetchReleasesPage :: "net \<Rightarrow> gl_client \<Rightarrow> string \<Rightarrow> nat \<Rightarrow> os \<Rightarrow> (err + glRelease list \<times> string) \<times> os" where
  "gl_fetchReleasesPage net c path page s =
     in_context (''list gitlab releases for '' @ path)
       (gl_getOptional net c (gl_projectSubURL c path ''releases'' page) path (dec_list dec_glRelease) s)"

text \<open>
  The match of \<open>/uploads/[^/]+/[^/]+$\<close> in a path, empty when there is none: its last three
  components, when there is a slash before them.
\<close>

definition uploads_match :: "string \<Rightarrow> string" where
  "uploads_match p =
     (case rev (split_on CHR ''/'' p) of
        file # secret # dir # _ # _ \<Rightarrow>
          if dir = ''uploads'' \<and> secret \<noteq> [] \<and> file \<noteq> [] then ''/uploads/'' @ secret @ ''/'' @ file else []
      | _ \<Rightarrow> [])"

definition gl_resolveAssetURL :: "net \<Rightarrow> gl_client \<Rightarrow> string \<Rightarrow> glAssetLink \<Rightarrow> err + string" where
  "gl_resolveAssetURL net c path l =
     (let candidate = (if ga_DirectAssetURL l \<noteq> [] then ga_DirectAssetURL l else ga_URL l) in
      case net_parse net candidate of
        None \<Rightarrow> Inl (Wrap (''parse asset url '' @ candidate) UrlError)
      | Some parsed \<Rightarrow>
          (let uploads = uploads_match (u_path parsed) in
           if uploads \<noteq> [] then
             Inr (url_string (join_path (gl_BaseURL c) (''/api/v4/projects/'' @ path_escape path @ uploads)))
           else if ga_DirectAssetURL l = [] then Inr (ga_URL l)
           else Inr (url_string ((gl_BaseURL c)\<lparr>u_path := u_path parsed, u_rawpath := u_rawpath parsed, u_rawquery := u_rawquery parsed\<rparr>))))"

definition gl_downloadAsset ::
  "net \<Rightarrow> gl_client \<Rightarrow> string \<Rightarrow> string \<Rightarrow> string \<Rightarrow> glAssetLink \<Rightarrow> os \<Rightarrow> (err + int) \<times> os"
where
  "gl_downloadAsset net c path dir tag l s =
     (let ctx = ''download gitlab release asset '' @ ga_Name l @ '' for '' @ path in
      case gl_resolveAssetURL net c path l of
        Inl e \<Rightarrow> (Inl (Wrap ctx e), s)
      | Inr asset_url \<Rightarrow>
          (case net_get net (gl_auth c) asset_url s of
             (Inl e, s1) \<Rightarrow> (Inl (Wrap ctx e), s1)
           | (Inr resp, s1) \<Rightarrow>
               if rs_status resp \<noteq> 200 then (Inl (Wrap ctx (ErrUnexpectedStatus (rs_status resp))), s1)
               else if has_prefix (header_get ''Content-Type'' resp) ''text/html'' then (Inl (Wrap ctx ErrUnauthenticatedRedirect), s1)
               else in_context ctx (WriteReleaseAsset dir tag (ga_Name l) (rs_body resp) s1)))"

definition gl_exportRelease :: "net \<Rightarrow> gl_client \<Rightarrow> string \<Rightarrow> string \<Rightarrow> glRelease \<Rightarrow> os \<Rightarrow> (err + unit) \<times> os" where
  "gl_exportRelease net c path dir it s =
     (case collect_each (\<lambda>l s. case gl_downloadAsset net c path dir (gz_TagName it) l s of
                            (Inl e, s1) \<Rightarrow> (Inl e, s1)
                          | (Inr n, s1) \<Rightarrow> (Inr \<lparr>ra_name = ga_Name l, ra_size = n\<rparr>, s1)) (gz_Links it) s of
        (Inl e, s1) \<Rightarrow> (Inl e, s1)
      | (Inr assets, s1) \<Rightarrow>
          in_context (''write release '' @ path @ ''#'' @ gz_TagName it)
            (WriteRelease dir
               \<lparr>r_tag_name = gz_TagName it, r_name = gz_Name it, r_body = gz_Description it, r_author = gz_Author it,
                r_created_at = gz_CreatedAt it, r_published_at = gz_ReleasedAt it, r_assets = Some assets\<rparr> s1))"

definition gl_ReleaseExporter :: "net \<Rightarrow> gl_client \<Rightarrow> metadata_exporter" where
  "gl_ReleaseExporter net c =
     \<lparr>exp_kind = MetadataReleases,
      exp_export = (\<lambda>r dir s.
        acted (paged (by_header (gl_fetchReleasesPage net c (repo_path r)))
                 (acting (\<lambda>it s. Some (gl_exportRelease net c (repo_path r) dir it s))) ((), s)))\<rparr>"

section \<open>Merge requests\<close>

record glMergeRequest =
  gm_IID :: int
  gm_Title :: string
  gm_Description :: string
  gm_Author :: string
  gm_State :: string
  gm_SourceBranch :: string
  gm_TargetBranch :: string
  gm_CreatedAt :: time
  gm_UpdatedAt :: time
  gm_ClosedAt :: "time option"
  gm_MergedAt :: "time option"

record glPosition =
  gq_NewPath :: string
  gq_NewLine :: "int option"
  gq_OldPath :: string
  gq_OldLine :: "int option"

record glDiscussionNote =
  gd_Type :: string
  gd_Author :: string
  gd_Body :: string
  gd_CreatedAt :: time
  gd_System :: bool
  gd_Position :: "glPosition option"

definition dec_glMergeRequest :: "json \<Rightarrow> glMergeRequest option" where
  "dec_glMergeRequest = dec_struct (\<lambda>fs. do {
     n \<leftarrow> dec_field ''iid'' dec_int fs;
     t \<leftarrow> dec_field ''title'' dec_string fs;
     b \<leftarrow> dec_field ''description'' dec_string fs;
     u \<leftarrow> dec_field ''author'' dec_glUser fs;
     st \<leftarrow> dec_field ''state'' dec_string fs;
     sb \<leftarrow> dec_field ''source_branch'' dec_string fs;
     tb \<leftarrow> dec_field ''target_branch'' dec_string fs;
     ca \<leftarrow> dec_field ''created_at'' dec_time fs;
     ua \<leftarrow> dec_field ''updated_at'' dec_time fs;
     cl \<leftarrow> dec_field ''closed_at'' (dec_ptr dec_time) fs;
     ma \<leftarrow> dec_field ''merged_at'' (dec_ptr dec_time) fs;
     Some \<lparr>gm_IID = n, gm_Title = t, gm_Description = b, gm_Author = u, gm_State = st, gm_SourceBranch = sb, gm_TargetBranch = tb,
           gm_CreatedAt = ca, gm_UpdatedAt = ua, gm_ClosedAt = cl, gm_MergedAt = ma\<rparr> })"

definition dec_glPosition :: "json \<Rightarrow> glPosition option" where
  "dec_glPosition = dec_struct (\<lambda>fs. do {
     np \<leftarrow> dec_field ''new_path'' dec_string fs;
     nl \<leftarrow> dec_field ''new_line'' (dec_ptr dec_int) fs;
     op \<leftarrow> dec_field ''old_path'' dec_string fs;
     ol \<leftarrow> dec_field ''old_line'' (dec_ptr dec_int) fs;
     Some \<lparr>gq_NewPath = np, gq_NewLine = nl, gq_OldPath = op, gq_OldLine = ol\<rparr> })"

definition dec_glDiscussionNote :: "json \<Rightarrow> glDiscussionNote option" where
  "dec_glDiscussionNote = dec_struct (\<lambda>fs. do {
     ty \<leftarrow> dec_field ''type'' dec_string fs;
     u \<leftarrow> dec_field ''author'' dec_glUser fs;
     b \<leftarrow> dec_field ''body'' dec_string fs;
     ca \<leftarrow> dec_field ''created_at'' dec_time fs;
     sy \<leftarrow> dec_field ''system'' dec_bool fs;
     po \<leftarrow> dec_field ''position'' (dec_ptr dec_glPosition) fs;
     Some \<lparr>gd_Type = ty, gd_Author = u, gd_Body = b, gd_CreatedAt = ca, gd_System = sy, gd_Position = po\<rparr> })"

text \<open>A \<open>glDiscussion\<close> holds its notes.\<close>

definition dec_glDiscussion :: "json \<Rightarrow> glDiscussionNote list option" where
  "dec_glDiscussion = dec_struct (dec_field ''notes'' (dec_list dec_glDiscussionNote))"

definition gl_toPullRequest :: "glMergeRequest \<Rightarrow> review_comment list \<Rightarrow> pull_request" where
  "gl_toPullRequest it comments =
     (let st = (if gm_State it = ''opened'' then ''open'' else gm_State it) in
      \<lparr>pr_number = gm_IID it, pr_title = gm_Title it, pr_body = gm_Description it, pr_author = gm_Author it,
       pr_state = st, pr_source_branch = gm_SourceBranch it, pr_target_branch = gm_TargetBranch it,
       pr_created_at = gm_CreatedAt it, pr_updated_at = gm_UpdatedAt it, pr_closed_at = gm_ClosedAt it,
       pr_merged_at = gm_MergedAt it, pr_comments = nil_if_empty comments\<rparr>)"

definition gl_toReviewComment :: "glDiscussionNote \<Rightarrow> review_comment" where
  "gl_toReviewComment n =
     (let c = \<lparr>rc_author = gd_Author n, rc_body = gd_Body n, rc_created_at = gd_CreatedAt n, rc_file = [], rc_line = 0\<rparr> in
      case gd_Position n of
        None \<Rightarrow> c
      | Some p \<Rightarrow>
          c\<lparr>rc_file := (if gq_NewPath p = [] then gq_OldPath p else gq_NewPath p),
            rc_line := (case gq_NewLine p of Some l \<Rightarrow> l | None \<Rightarrow> (case gq_OldLine p of Some l \<Rightarrow> l | None \<Rightarrow> 0))\<rparr>)"

definition gl_fetchMergeRequestsPage :: "net \<Rightarrow> gl_client \<Rightarrow> string \<Rightarrow> nat \<Rightarrow> os \<Rightarrow> (err + glMergeRequest list \<times> string) \<times> os" where
  "gl_fetchMergeRequestsPage net c path page s =
     in_context (''list gitlab merge requests for '' @ path)
       (gl_getOptional net c (gl_projectSubURL c path ''merge_requests'' page) path (dec_list dec_glMergeRequest) s)"

definition gl_discussionsURL :: "gl_client \<Rightarrow> string \<Rightarrow> int \<Rightarrow> nat \<Rightarrow> url" where
  "gl_discussionsURL c path iid page =
     with_query [(''per_page'', show_nat gl_pageSize), (''page'', show_nat page)]
       (join_path (gl_BaseURL c) (''/api/v4/projects/'' @ path_escape path @ ''/merge_requests/'' @ itoa iid @ ''/discussions''))"

definition gl_fetchDiscussionsPage ::
  "net \<Rightarrow> gl_client \<Rightarrow> string \<Rightarrow> int \<Rightarrow> nat \<Rightarrow> os \<Rightarrow> (err + glDiscussionNote list list \<times> string) \<times> os"
where
  "gl_fetchDiscussionsPage net c path iid page s =
     in_context (''list gitlab discussions for '' @ path @ ''!'' @ itoa iid)
       (gl_getOptional net c (gl_discussionsURL c path iid page) path (dec_list dec_glDiscussion) s)"

definition gl_fetchReviewComments :: "net \<Rightarrow> gl_client \<Rightarrow> string \<Rightarrow> int \<Rightarrow> os \<Rightarrow> ((err + review_comment list) \<times> os) option" where
  "gl_fetchReviewComments net c path iid s =
     collected (paged (by_header (gl_fetchDiscussionsPage net c path iid))
       (appending (\<lambda>notes. map gl_toReviewComment (filter (\<lambda>n. \<not> gd_System n) notes))) ([], s))"

definition gl_exportPullRequest :: "net \<Rightarrow> gl_client \<Rightarrow> string \<Rightarrow> string \<Rightarrow> glMergeRequest \<Rightarrow> os \<Rightarrow> ((err + unit) \<times> os) option" where
  "gl_exportPullRequest net c path dir it s =
     (case gl_fetchReviewComments net c path (gm_IID it) s of
        None \<Rightarrow> None
      | Some (Inl e, s1) \<Rightarrow> Some (Inl e, s1)
      | Some (Inr comments, s1) \<Rightarrow>
          Some (in_context (''write pull request '' @ path @ ''!'' @ itoa (gm_IID it))
                  (WritePullRequest dir (gl_toPullRequest it comments) s1)))"

definition gl_PullRequestExporter :: "net \<Rightarrow> gl_client \<Rightarrow> metadata_exporter" where
  "gl_PullRequestExporter net c =
     \<lparr>exp_kind = MetadataPullRequests,
      exp_export = (\<lambda>r dir s.
        acted (paged (by_header (gl_fetchMergeRequestsPage net c (repo_path r)))
                 (acting (gl_exportPullRequest net c (repo_path r) dir)) ((), s)))\<rparr>"


section \<open>The contracts\<close>

lemma gl_getOptional_snd: "reads_only s (snd (gl_getOptional net c u path dec s))"
  using http_do_reads [OF surjective_pairing]
  by (auto simp: gl_getOptional_def Let_def case_prod_beta split: sum.split option.split)

lemma gl_fetches_read:
  "reads_only s (snd (gl_fetchSnippetsPage net c p page s))"
  "reads_only s (snd (gl_fetchIssuesPage net c path page s))"
  "reads_only s (snd (gl_fetchNotesPage net c path iid page s))"
  "reads_only s (snd (gl_fetchReleasesPage net c path page s))"
  "reads_only s (snd (gl_fetchMergeRequestsPage net c path page s))"
  "reads_only s (snd (gl_fetchDiscussionsPage net c path iid page s))"
  by (simp_all add: gl_fetchSnippetsPage_def gl_fetchIssuesPage_def gl_fetchNotesPage_def gl_fetchReleasesPage_def
      gl_fetchMergeRequestsPage_def gl_fetchDiscussionsPage_def gl_getOptional_snd Let_def)

lemma gl_fetchProjectsPage_snd: "reads_only s (snd (gl_fetchProjectsPage net c a page s))"
  using net_get_snd [of s net "gl_auth c" "url_string (gl_projectsURL c page a)"]
  by (cases "net_get net (gl_auth c) (url_string (gl_projectsURL c page a)) s")
    (simp add: gl_fetchProjectsPage_def split: sum.split option.split)

lemma gl_wikiRepo_snd: "reads_only s (snd (gl_wikiRepo net c p s))"
  using gl_getOptional_snd [of s net c "gl_projectSubURL c (pj_PathWithNamespace p) ''wikis'' 1" "pj_PathWithNamespace p" "dec_list dec_wikiPage"]
  by (cases "gl_getOptional net c (gl_projectSubURL c (pj_PathWithNamespace p) ''wikis'' 1) (pj_PathWithNamespace p) (dec_list dec_wikiPage) s")
    (simp add: gl_wikiRepo_def Let_def split: sum.split prod.split)

lemma whole_page_snd: "snd (whole_page fetch page s) = snd (fetch page s)"
  by (auto simp: whole_page_def split: sum.splits prod.splits)

lemma gl_listing_reads:
  "gl_snippetRepos net c p s = Some (r, s') \<Longrightarrow> reads_only s s'"
  "gl_projectDetail net c p s = Some (r, s') \<Longrightarrow> reads_only s s'"
  "gl_projectRepos net c ps s = Some (r, s') \<Longrightarrow> reads_only s s'"
  "gl_listByArchived net c a s = Some (r, s') \<Longrightarrow> reads_only s s'"
proof -
  have snippets: "gl_snippetRepos net c p s = Some (r, s') \<Longrightarrow> reads_only s s'" for p s r s'
    unfolding gl_snippetRepos_def by (erule collected_appending_reads) (simp add: by_header_snd gl_fetches_read)
  then show "gl_snippetRepos net c p s = Some (r, s') \<Longrightarrow> reads_only s s'" .
  have detail: "reads_only s s'" if run: "gl_projectDetail net c p s = Some (r, s')" for p s r s'
  proof -
    obtain w s1 where w: "gl_wikiRepo net c p s = (w, s1)" by fastforce
    have "reads_only s s1" using gl_wikiRepo_snd [of s net c p] w by simp
    moreover have "s' = s1 \<or> (\<exists>x. gl_snippetRepos net c p s1 = Some (x, s'))"
      using run w by (auto simp: gl_projectDetail_def Let_def split: sum.splits option.splits)
    ultimately show ?thesis using snippets reads_only_trans by blast
  qed
  then show "gl_projectDetail net c p s = Some (r, s') \<Longrightarrow> reads_only s s'" .
  have project: "reads_only (snd st) (snd st')" if "gl_take_project net c p st = Some (y, st')" for p st y st'
    using that detail [of p "snd st"] by (auto simp: gl_take_project_def split: option.splits sum.splits)
  have page: "reads_only s s'" if "gl_projectRepos net c ps s = Some (r, s')" for ps s r s'
  proof -
    from that obtain x where x: "collected (for_each (gl_take_project net c) ps ([], s)) = Some x" "in_context ''resolve project details'' x = (r, s')"
      by (auto simp: gl_projectRepos_def)
    then have "collected (for_each (gl_take_project net c) ps ([], s)) = Some (fst x, s')" by (auto dest: in_context_reads)
    then show ?thesis
    proof (rule collected_reads)
      fix y st' assume "for_each (gl_take_project net c) ps ([], s) = Some (y, st')"
      then show "reads_only s (snd st')"
        by (rule for_each_keeps [where I = "\<lambda>st. reads_only s (snd st)"]) (auto intro: reads_only_trans project)
    qed
  qed
  then show "gl_projectRepos net c ps s = Some (r, s') \<Longrightarrow> reads_only s s'" .
  have taken: "reads_only (snd st) (snd st')" if "gl_take_page net c ps st = Some (y, st')" for ps st y st'
    using that page [of ps "snd st"] by (auto simp: gl_take_page_def split: option.splits sum.splits)
  show "gl_listByArchived net c a s = Some (r, s') \<Longrightarrow> reads_only s s'"
    unfolding gl_listByArchived_def
    by (erule collected_reads) (erule paged_reads, auto simp: whole_page_snd by_header_snd gl_fetchProjectsPage_snd intro: taken)
qed

lemma gl_exports_written:
  "gl_exportIssue net c path dir it s = Some (x, s') \<Longrightarrow> written dir s s'"
  "gl_exportPullRequest net c path dir pr s = Some (x, s') \<Longrightarrow> written dir s s'"
  "gl_exportRelease net c path dir rl s = (x, s') \<Longrightarrow> written dir s s'"
proof -
  have noted: "reads_only s s1" if "gl_fetchNotes net c path n s = Some (r, s1)" for n r s s1
    using that unfolding gl_fetchNotes_def by (rule collected_appending_reads) (simp add: by_header_snd gl_fetches_read)
  have reviews: "reads_only s s1" if "gl_fetchReviewComments net c path n s = Some (r, s1)" for n r s s1
    using that unfolding gl_fetchReviewComments_def by (rule collected_appending_reads) (simp add: by_header_snd gl_fetches_read)
  show "gl_exportIssue net c path dir it s = Some (x, s') \<Longrightarrow> written dir s s'"
    by (auto simp: gl_exportIssue_def split: option.splits sum.splits prod.splits
        dest!: noted intro: reads_written exporter_writes)
  show "gl_exportPullRequest net c path dir pr s = Some (x, s') \<Longrightarrow> written dir s s'"
    by (auto simp: gl_exportPullRequest_def split: option.splits sum.splits prod.splits
        dest!: reviews intro: reads_written exporter_writes)
  have asset: "written dir s s'" if "gl_downloadAsset net c path dir tag a s = (y, s')" for tag a s y s'
    using that by (auto simp: gl_downloadAsset_def Let_def split: sum.splits prod.splits if_splits
        dest!: net_get_reads intro: reads_written exporter_writes)
  show "written dir s s'" if run: "gl_exportRelease net c path dir rl s = (x, s')"
  proof -
    have each: "written dir s s1"
      if "collect_each (\<lambda>l s. case gl_downloadAsset net c path dir (gz_TagName rl) l s of
                            (Inl e, s1) \<Rightarrow> (Inl e, s1)
                          | (Inr n, s1) \<Rightarrow> (Inr \<lparr>ra_name = ga_Name l, ra_size = n\<rparr>, s1)) xs s = (r, s1)" for xs r s1
      using that by (rule collect_each_written) (auto dest: asset split: sum.splits prod.splits)
    show ?thesis
      using run by (auto simp: gl_exportRelease_def split: sum.splits prod.splits dest!: each intro: written_trans exporter_writes)
  qed
qed

interpretation gl_lister: lister_contract "gl_ListRepos net c" for net c
  by unfold_locales
    (auto simp: gl_ListRepos_def split: if_splits option.splits sum.splits prod.splits dest!: gl_listing_reads(4) intro: reads_only_trans)

interpretation gl_issues: file_exporter "gl_IssueExporter net c" for net c
  unfolding gl_IssueExporter_def
  by (rule paged_exporter) (simp_all add: plain_kinds by_header_snd gl_fetches_read gl_exports_written(1))

interpretation gl_releases: file_exporter "gl_ReleaseExporter net c" for net c
  unfolding gl_ReleaseExporter_def
  by (rule paged_exporter) (auto simp: plain_kinds by_header_snd gl_fetches_read intro: gl_exports_written(3))

interpretation gl_pulls: file_exporter "gl_PullRequestExporter net c" for net c
  unfolding gl_PullRequestExporter_def
  by (rule paged_exporter) (simp_all add: plain_kinds by_header_snd gl_fetches_read gl_exports_written(2))


section \<open>Properties\<close>

text \<open>
  An instance that serves a list of values page by page, with a next page named in the header
  of every page but the last.
\<close>

definition gl_answers :: "net \<Rightarrow> gl_client \<Rightarrow> url \<Rightarrow> (json \<Rightarrow> 'a option) \<Rightarrow> 'a \<Rightarrow> bool \<Rightarrow> bool" where
  "gl_answers net c u dec x final =
     (case new_request net (url_string u) (gl_auth c) of
        Inl _ \<Rightarrow> False
      | Inr rq \<Rightarrow>
          (case net_do net rq of
             Inl _ \<Rightarrow> False
           | Inr resp \<Rightarrow> rs_status resp = 200 \<and> Option.bind (rs_json resp) dec = Some x \<and> (header_get ''x-next-page'' resp = []) = final))"

definition gl_serves :: "net \<Rightarrow> gl_client \<Rightarrow> (nat \<Rightarrow> url) \<Rightarrow> (json \<Rightarrow> 'a list option) \<Rightarrow> 'a list list \<Rightarrow> bool" where
  "gl_serves net c at dec ps \<longleftrightarrow>
     ps \<noteq> [] \<and> list_all (\<lambda>p. gl_answers net c (at (Suc p)) dec (ps ! p) (Suc p = length ps)) [0..<length ps]"

text \<open>What a project is made of: itself, its wiki when it has pages, and its snippets.\<close>

definition gl_repos_of :: "(project \<Rightarrow> string list) \<Rightarrow> (project \<Rightarrow> int list list) \<Rightarrow> project \<Rightarrow> repo list" where
  "gl_repos_of wiki snips p =
     \<lparr>repo_path = pj_PathWithNamespace p, repo_archived = pj_Archived p, repo_empty = pj_EmptyRepo p\<rparr> #
     (if wiki p = [] then []
      else [\<lparr>repo_path = pj_PathWithNamespace p @ ''.wiki'', repo_archived = pj_Archived p, repo_empty = False\<rparr>]) @
     map (gl_snippetRepo p) (concat (snips p))"

definition gl_serves_projects ::
  "net \<Rightarrow> gl_client \<Rightarrow> bool \<Rightarrow> project list list \<Rightarrow> (project \<Rightarrow> string list) \<Rightarrow> (project \<Rightarrow> int list list) \<Rightarrow> bool"
where
  "gl_serves_projects net c a ps wiki snips \<longleftrightarrow>
     gl_serves net c (\<lambda>page. gl_projectsURL c page a) (dec_list dec_project) ps \<and>
     list_all (\<lambda>p. (\<exists>final \<in> {True, False}. gl_answers net c (gl_projectSubURL c (pj_PathWithNamespace p) ''wikis'' 1) (dec_list dec_wikiPage) (wiki p) final) \<and>
       gl_serves net c (gl_projectSubURL c (pj_PathWithNamespace p) ''snippets'') (dec_list dec_snippet) (snips p)) (concat ps)"

definition sent :: "gl_client \<Rightarrow> url \<Rightarrow> os \<Rightarrow> os" where
  "sent c u s = s\<lparr>os_requests := os_requests s @ [\<lparr>rq_url = url_string u, rq_headers = gl_auth c\<rparr>]\<rparr>"

lemma gl_answers_get:
  assumes "gl_answers net c u dec x final"
  obtains nxt where "gl_getOptional net c u path dec s = (Inr (x, nxt), sent c u s)" "(nxt = []) = final"
  using assms
  by (auto simp: gl_answers_def gl_getOptional_def new_request_def http_do_def sent_def Let_def split: option.splits sum.splits)

lemma gl_serves_page:
  assumes "gl_serves net c at dec ps" "p < length ps"
  obtains nxt where "gl_getOptional net c (at (Suc p)) path dec s = (Inr (ps ! p, nxt), sent c (at (Suc p)) s)"
    "(nxt = []) = (Suc p = length ps)"
proof -
  have "gl_answers net c (at (Suc p)) dec (ps ! p) (Suc p = length ps)"
    using assms by (simp add: gl_serves_def list_all_iff)
  then show thesis by (rule gl_answers_get) (rule that)
qed

lemma gl_snippetRepos_served:
  assumes "gl_serves net c (gl_projectSubURL c (pj_PathWithNamespace p) ''snippets'') (dec_list dec_snippet) xs"
  shows "\<exists>s'. gl_snippetRepos net c p s = Some (Inr (map (gl_snippetRepo p) (concat xs)), s')"
proof -
  have page: "by_header (gl_fetchSnippetsPage net c p) (Suc i) s =
      (Inr (xs ! i, Suc i = length xs), sent c (gl_projectSubURL c (pj_PathWithNamespace p) ''snippets'' (Suc i)) s)"
    if i: "i < length xs" for i s
    by (rule gl_serves_page [OF assms i, of "pj_PathWithNamespace p" s])
      (simp add: by_header_def gl_fetchSnippetsPage_def in_context_def Let_def)
  have ne: "xs \<noteq> []" using assms by (simp add: gl_serves_def)
  have "concat (map (\<lambda>i. [gl_snippetRepo p i]) (concat xs)) = map (gl_snippetRepo p) (concat xs)"
    by (induction "concat xs") simp_all
  with paged_pages_appending [where fetch = "by_header (gl_fetchSnippetsPage net c p)" and ps = xs and g = "\<lambda>i. [gl_snippetRepo p i]"
      and v = "\<lambda>i. sent c (gl_projectSubURL c (pj_PathWithNamespace p) ''snippets'' (Suc i))", OF page ne, of s]
  show ?thesis by (simp add: gl_snippetRepos_def)
qed

lemma gl_projectDetail_served:
  assumes "\<exists>final \<in> {True, False}. gl_answers net c (gl_projectSubURL c (pj_PathWithNamespace p) ''wikis'' 1) (dec_list dec_wikiPage) (wiki p) final"
    and "gl_serves net c (gl_projectSubURL c (pj_PathWithNamespace p) ''snippets'') (dec_list dec_snippet) (snips p)"
  shows "\<exists>s'. gl_projectDetail net c p s = Some (Inr (gl_repos_of wiki snips p), s')"
proof -
  from assms(1) obtain final where
    "gl_answers net c (gl_projectSubURL c (pj_PathWithNamespace p) ''wikis'' 1) (dec_list dec_wikiPage) (wiki p) final" by blast
  then show ?thesis
  proof (rule gl_answers_get [where s = s and path = "pj_PathWithNamespace p"])
    fix nxt
    assume w: "gl_getOptional net c (gl_projectSubURL c (pj_PathWithNamespace p) ''wikis'' 1) (pj_PathWithNamespace p) (dec_list dec_wikiPage) s
        = (Inr (wiki p, nxt), sent c (gl_projectSubURL c (pj_PathWithNamespace p) ''wikis'' 1) s)"
    obtain s' where "gl_snippetRepos net c p (sent c (gl_projectSubURL c (pj_PathWithNamespace p) ''wikis'' 1) s)
        = Some (Inr (map (gl_snippetRepo p) (concat (snips p))), s')"
      using gl_snippetRepos_served [OF assms(2)] by blast
    with w show ?thesis by (simp add: gl_projectDetail_def gl_wikiRepo_def gl_repos_of_def Let_def)
  qed
qed

text \<open>What is left in the state of resolving one project, a page of them.\<close>

definition detail_state :: "net \<Rightarrow> gl_client \<Rightarrow> project \<Rightarrow> os \<Rightarrow> os" where
  "detail_state net c p s = (case gl_projectDetail net c p s of None \<Rightarrow> s | Some (_, s') \<Rightarrow> s')"

definition page_state :: "net \<Rightarrow> gl_client \<Rightarrow> project list \<Rightarrow> os \<Rightarrow> os" where
  "page_state net c ps s = (case gl_projectRepos net c ps s of None \<Rightarrow> s | Some (_, s') \<Rightarrow> s')"

text \<open>C22:
  A GitLab listing returns every project the instance serves, each followed by its wiki when
  that has a page and by each of its snippets, over all pages of projects and of snippets.
\<close>

theorem gl_listByArchived_complete:
  assumes "gl_serves_projects net c a ps wiki snips"
  shows "\<exists>s'. gl_listByArchived net c a s = Some (Inr (concat (map (gl_repos_of wiki snips) (concat ps))), s')"
proof -
  have detail: "gl_take_project net c p (acc, s) = Some (Inr (), (acc @ gl_repos_of wiki snips p, detail_state net c p s))"
    if "p \<in> set (concat ps)" for p acc s
    using gl_projectDetail_served [of net c p wiki snips s] assms that
    by (auto simp: gl_serves_projects_def list_all_iff gl_take_project_def detail_state_def)
  have each: "for_each (gl_take_project net c) qs (acc, s)
      = Some (Inr (), (acc @ concat (map (gl_repos_of wiki snips) qs), fold (detail_state net c) qs s))"
    if "set qs \<subseteq> set (concat ps)" for qs acc s
    using that by (induction qs arbitrary: acc s) (simp_all add: detail del: set_concat)
  have page: "gl_take_page net c qs (acc, s) = Some (Inr (), (acc @ concat (map (gl_repos_of wiki snips) qs), page_state net c qs s))"
    if "qs \<in> set ps" for qs acc s
  proof -
    have "set qs \<subseteq> set (concat ps)" using that by auto
    from each [OF this, of "[]" s] show ?thesis
      by (simp add: gl_take_page_def gl_projectRepos_def page_state_def collected_def in_context_def)
  qed
  have serves: "gl_serves net c (\<lambda>page. gl_projectsURL c page a) (dec_list dec_project) ps"
    using assms by (simp add: gl_serves_projects_def)
  have fetch: "whole_page (by_header (gl_fetchProjectsPage net c a)) (Suc i) s
      = (Inr (map (\<lambda>qs. [qs]) ps ! i, Suc i = length (map (\<lambda>qs. [qs]) ps)), sent c (gl_projectsURL c (Suc i) a) s)"
    if i: "i < length (map (\<lambda>qs. [qs]) ps)" for i s
  proof -
    have "gl_answers net c (gl_projectsURL c (Suc i) a) (dec_list dec_project) (ps ! i) (Suc i = length ps)"
      using serves i by (simp add: gl_serves_def list_all_iff)
    then show ?thesis using i
      by (auto simp: whole_page_def by_header_def gl_fetchProjectsPage_def net_get_def gl_answers_def new_request_def http_do_def sent_def
          split: option.splits sum.splits)
  qed
  have ne: "map (\<lambda>qs. [qs]) ps \<noteq> []" using serves by (simp add: gl_serves_def)
  have "concat (map (\<lambda>qs. [qs]) ps) = ps" by (induction ps) simp_all
  with paged_pages [where fetch = "whole_page (by_header (gl_fetchProjectsPage net c a))" and f = "gl_take_page net c" and acc = "[]" and s = s
      and v = "\<lambda>i. sent c (gl_projectsURL c (Suc i) a)" and g = "\<lambda>qs acc. acc @ concat (map (gl_repos_of wiki snips) qs)"
      and h = "page_state net c", OF fetch ne] page
  obtain s' where "paged (whole_page (by_header (gl_fetchProjectsPage net c a))) (gl_take_page net c) ([], s)
      = Some (Inr (), (fold (\<lambda>qs acc. acc @ concat (map (gl_repos_of wiki snips) qs)) ps [], s'))" by auto
  moreover have "fold (\<lambda>qs acc. acc @ concat (map (gl_repos_of wiki snips) qs)) ps acc
      = acc @ concat (map (gl_repos_of wiki snips) (concat ps))" for acc
    by (induction ps arbitrary: acc) simp_all
  ultimately show ?thesis by (simp add: gl_listByArchived_def collected_def)
qed

definition sample_gl :: gl_client where
  "sample_gl = \<lparr>gl_BaseURL = sample_url ''gitlab.example'', gl_Token = ''t''\<rparr>"

text \<open>One project with a wiki and two pages of snippets, answered by the URL asked for.\<close>

definition gl_reply :: "json list \<Rightarrow> string \<Rightarrow> err + response" where
  "gl_reply items nxt = Inr \<lparr>rs_status = 200, rs_headers = [(''X-Next-Page'', nxt)], rs_json = Some (JArr items),
     rs_body = \<lparr>st_data = [], st_error = None\<rparr>\<rparr>"

definition sample_gl_net :: net where
  "sample_gl_net =
     \<lparr>net_parse = (\<lambda>u. Some (sample_url ''gitlab.example'')),
      net_do = (\<lambda>rq.
        if has_suffix (rq_url rq) ''snippets?page=1&per_page=100'' then gl_reply [JObj [(''id'', JNum 7)]] ''2''
        else if has_suffix (rq_url rq) ''snippets?page=2&per_page=100'' then gl_reply [JObj [(''id'', JNum 8)]] []
        else if has_suffix (rq_url rq) ''wikis?page=1&per_page=100'' then gl_reply [JObj [(''slug'', JStr ''home'')]] []
        else gl_reply [JObj [(''path_with_namespace'', JStr ''me/app''), (''archived'', JBool False), (''empty_repo'', JBool False)]] [])\<rparr>"

definition sample_project :: project where
  "sample_project = \<lparr>pj_PathWithNamespace = ''me/app'', pj_Archived = False, pj_EmptyRepo = False\<rparr>"

lemma gl_listByArchived_complete_witness:
  "\<exists>rs s'. gl_listByArchived sample_gl_net sample_gl False (quiet_os []) = Some (Inr rs, s') \<and>
     map repo_path rs = [''me/app'', ''me/app.wiki'', ''me/app/snippets/7'', ''me/app/snippets/8'']"
proof -
  have "gl_serves_projects sample_gl_net sample_gl False [[sample_project]] (\<lambda>_. [''home'']) (\<lambda>_. [[7], [8]])"
  proof -
    have "gl_serves sample_gl_net sample_gl (\<lambda>page. gl_projectsURL sample_gl page False) (dec_list dec_project) [[sample_project]]"
      by code_simp
    moreover have "gl_answers sample_gl_net sample_gl (gl_projectSubURL sample_gl (pj_PathWithNamespace sample_project) ''wikis'' 1)
        (dec_list dec_wikiPage) [''home''] True"
      by code_simp
    moreover have "gl_serves sample_gl_net sample_gl (gl_projectSubURL sample_gl (pj_PathWithNamespace sample_project) ''snippets'')
        (dec_list dec_snippet) [[7], [8]]"
      by code_simp
    ultimately show ?thesis by (simp add: gl_serves_projects_def)
  qed
  from gl_listByArchived_complete [OF this, of "quiet_os []"] obtain s' where
    "gl_listByArchived sample_gl_net sample_gl False (quiet_os [])
      = Some (Inr (concat (map (gl_repos_of (\<lambda>_. [''home'']) (\<lambda>_. [[7], [8]])) (concat [[sample_project]]))), s')" ..
  moreover have "map repo_path (concat (map (gl_repos_of (\<lambda>_. [''home'']) (\<lambda>_. [[7], [8]])) (concat [[sample_project]])))
      = [''me/app'', ''me/app.wiki'', ''me/app/snippets/7'', ''me/app/snippets/8'']"
    by code_simp
  ultimately show ?thesis by (intro exI conjI)
qed


text \<open>A request the instance answers with 403.\<close>

definition gl_forbidden :: "net \<Rightarrow> gl_client \<Rightarrow> url \<Rightarrow> bool" where
  "gl_forbidden net c u =
     (case new_request net (url_string u) (gl_auth c) of
        Inl _ \<Rightarrow> False
      | Inr rq \<Rightarrow> (case net_do net rq of Inl _ \<Rightarrow> False | Inr resp \<Rightarrow> rs_status resp = 403))"

lemma gl_forbidden_get:
  "gl_forbidden net c u \<Longrightarrow> gl_getOptional net c u path dec s =
     (Inr ([], []), log_at LInfo ''gitlab project resource not accessible, treating as empty'' path (sent c u s))"
  by (auto simp: gl_forbidden_def gl_getOptional_def new_request_def http_do_def sent_def Let_def split: option.splits sum.splits)

text \<open>A project whose wiki and snippets are answered with 403 is listed without them and without
  an error, so a run with \<open>--prune-removed\<close> takes mirrors made of them earlier for stale,
  also when it is only the token that may not read them any more.
\<close>

lemma gl_forbidden_shortens_listing:
  assumes "gl_forbidden net c (gl_projectSubURL c (pj_PathWithNamespace p) ''wikis'' 1)"
    and "gl_forbidden net c (gl_projectSubURL c (pj_PathWithNamespace p) ''snippets'' 1)"
  shows "\<exists>s'. gl_projectDetail net c p s =
    Some (Inr [\<lparr>repo_path = pj_PathWithNamespace p, repo_archived = pj_Archived p, repo_empty = pj_EmptyRepo p\<rparr>], s')"
proof -
  have "by_header (gl_fetchSnippetsPage net c p) 1 t = (Inr ([], True),
      log_at LInfo ''gitlab project resource not accessible, treating as empty'' (pj_PathWithNamespace p)
        (sent c (gl_projectSubURL c (pj_PathWithNamespace p) ''snippets'' 1) t))" for t
    by (simp add: gl_forbidden_get [OF assms(2)] by_header_def gl_fetchSnippetsPage_def in_context_def Let_def del: One_nat_def)
  from paged_single [of "by_header (gl_fetchSnippetsPage net c p)", OF this, of "appending (\<lambda>i. [gl_snippetRepo p i])" "[]"]
  have snippets: "\<exists>s'. gl_snippetRepos net c p t = Some (Inr [], s')" for t
    by (simp add: gl_snippetRepos_def collected_def)
  let ?s1 = "log_at LInfo ''gitlab project resource not accessible, treating as empty'' (pj_PathWithNamespace p)
    (sent c (gl_projectSubURL c (pj_PathWithNamespace p) ''wikis'' 1) s)"
  from snippets [of ?s1] obtain s' where "gl_snippetRepos net c p ?s1 = Some (Inr [], s')" ..
  then show ?thesis
    by (simp add: gl_forbidden_get [OF assms(1)] gl_projectDetail_def gl_wikiRepo_def Let_def del: One_nat_def)
qed

definition sample_forbidden_net :: net where
  "sample_forbidden_net = \<lparr>net_parse = (\<lambda>u. Some (sample_url ''gitlab.example'')), net_do = (\<lambda>rq. answer 403 JNull)\<rparr>"

lemma gl_forbidden_shortens_listing_witness:
  "\<exists>s'. gl_projectDetail sample_forbidden_net sample_gl sample_project (quiet_os []) =
     Some (Inr [\<lparr>repo_path = ''me/app'', repo_archived = False, repo_empty = False\<rparr>], s')"
proof -
  have "gl_forbidden sample_forbidden_net sample_gl u" for u
    by (simp add: gl_forbidden_def sample_forbidden_net_def new_request_def answer_def)
  from gl_forbidden_shortens_listing [OF this this, of sample_project "quiet_os []"] show ?thesis
    by (simp add: sample_project_def)
qed

text \<open>The GitLab token is sent to any host: the download of an asset link that has no direct
  asset URL and is not an upload requests the link's URL as it stands, with the
  \<open>PRIVATE-TOKEN\<close> header.
\<close>

lemma gl_token_sent_anywhere:
  assumes "ga_DirectAssetURL l = []" and "net_parse net (ga_URL l) = Some u" and "uploads_match (u_path u) = []"
  shows "os_requests (snd (gl_downloadAsset net c path dir tag l s)) =
    os_requests s @ [\<lparr>rq_url = ga_URL l, rq_headers = [(''PRIVATE-TOKEN'', gl_Token c)]\<rparr>]"
proof -
  have url: "gl_resolveAssetURL net c path l = Inr (ga_URL l)" using assms by (simp add: gl_resolveAssetURL_def)
  have get: "net_get net (gl_auth c) (ga_URL l) s = (net_do net \<lparr>rq_url = ga_URL l, rq_headers = gl_auth c\<rparr>,
      s\<lparr>os_requests := os_requests s @ [\<lparr>rq_url = ga_URL l, rq_headers = gl_auth c\<rparr>]\<rparr>)"
    using assms(2) by (simp add: net_get_def new_request_def http_do_def)
  show ?thesis
    by (cases "net_do net \<lparr>rq_url = ga_URL l, rq_headers = gl_auth c\<rparr>")
      (simp_all add: gl_downloadAsset_def url get Let_def Write_requests, simp_all add: gl_auth_def)
qed

definition sample_link :: glAssetLink where
  "sample_link = \<lparr>ga_Name = ''tool'', ga_URL = ''https://evil.example/tool'', ga_DirectAssetURL = []\<rparr>"

lemma gl_token_sent_anywhere_witness:
  "os_requests (snd (gl_downloadAsset sample_forbidden_net sample_gl ''me/app'' ''/b/m'' ''v1'' sample_link (quiet_os []))) =
     [\<lparr>rq_url = ''https://evil.example/tool'', rq_headers = [(''PRIVATE-TOKEN'', ''t'')]\<rparr>]"
proof -
  have "ga_DirectAssetURL sample_link = []" by (simp add: sample_link_def)
  moreover have "net_parse sample_forbidden_net (ga_URL sample_link) = Some (sample_url ''gitlab.example'')"
    by (simp add: sample_forbidden_net_def)
  moreover have "uploads_match (u_path (sample_url ''gitlab.example'')) = []" by code_simp
  ultimately show ?thesis
    using gl_token_sent_anywhere [of sample_link sample_forbidden_net "sample_url ''gitlab.example''" sample_gl "''me/app''" "''/b/m''" "''v1''" "quiet_os []"]
    by (simp add: sample_link_def sample_gl_def quiet_os_def)
qed

text \<open>
  A sign-in page is never stored as an asset: an answer of type \<open>text/html\<close> is an error and
  the file system stays as it is.
\<close>

lemma gl_sign_in_page_refused:
  assumes "gl_resolveAssetURL net c path l = Inr u" and "net_parse net u \<noteq> None"
    and "net_do net \<lparr>rq_url = u, rq_headers = gl_auth c\<rparr> = Inr resp" and "rs_status resp = 200"
    and "has_prefix (header_get ''Content-Type'' resp) ''text/html''"
  shows "case gl_downloadAsset net c path dir tag l s of
      (Inl e, s') \<Rightarrow> err_is e ErrUnauthenticatedRedirect \<and> reads_only s s'
    | (Inr n, s') \<Rightarrow> False"
proof -
  have "net_get net (gl_auth c) u s = (Inr resp, s\<lparr>os_requests := os_requests s @ [\<lparr>rq_url = u, rq_headers = gl_auth c\<rparr>]\<rparr>)"
    using assms(2,3) by (auto simp: net_get_def new_request_def http_do_def)
  then show ?thesis using assms(1,4,5) by (simp add: gl_downloadAsset_def Let_def reads_only_def)
qed

definition sample_html_net :: net where
  "sample_html_net =
     \<lparr>net_parse = (\<lambda>u. Some (sample_url ''gitlab.example'')),
      net_do = (\<lambda>rq. Inr \<lparr>rs_status = 200, rs_headers = [(''content-type'', ''text/html; charset=utf-8'')], rs_json = None,
        rs_body = \<lparr>st_data = ''sign in'', st_error = None\<rparr>\<rparr>)\<rparr>"

lemma gl_sign_in_page_refused_witness:
  "case gl_downloadAsset sample_html_net sample_gl ''me/app'' ''/b/m'' ''v1'' sample_link (quiet_os []) of
      (Inl e, s') \<Rightarrow> err_is e ErrUnauthenticatedRedirect \<and> reads_only (quiet_os []) s'
    | (Inr n, s') \<Rightarrow> False"
proof (rule gl_sign_in_page_refused)
  show "gl_resolveAssetURL sample_html_net sample_gl ''me/app'' sample_link = Inr ''https://evil.example/tool''" by code_simp
  show "net_parse sample_html_net ''https://evil.example/tool'' \<noteq> None" by (simp add: sample_html_net_def)
  show "net_do sample_html_net \<lparr>rq_url = ''https://evil.example/tool'', rq_headers = gl_auth sample_gl\<rparr>
      = Inr \<lparr>rs_status = 200, rs_headers = [(''content-type'', ''text/html; charset=utf-8'')], rs_json = None,
        rs_body = \<lparr>st_data = ''sign in'', st_error = None\<rparr>\<rparr>" by (simp add: sample_html_net_def)
  show "has_prefix (header_get ''Content-Type'' \<lparr>rs_status = 200, rs_headers = [(''content-type'', ''text/html; charset=utf-8'')], rs_json = None,
        rs_body = \<lparr>st_data = ''sign in'', st_error = None\<rparr>\<rparr>) ''text/html''" by code_simp
qed simp

text \<open>
  The notes exported with an issue are only those a person wrote: whatever the pages hold,
  no note GitLab made itself is among them.
\<close>

lemma gl_notes_by_people:
  "case gl_fetchNotes net c path iid s of Some (Inr notes, s') \<Rightarrow> list_all (\<lambda>n. \<not> gn_System n) notes | _ \<Rightarrow> True"
proof -
  have "list_all (\<lambda>n. \<not> gn_System n) (fst st')"
    if "paged (by_header (gl_fetchNotesPage net c path iid)) (appending (\<lambda>n. if gn_System n then [] else [n])) ([], s) = Some (r, st')" for r st'
    using that
    by (rule paged_keeps [where I = "\<lambda>st. list_all (\<lambda>n. \<not> gn_System n) (fst st)"]) (auto simp: appending_def)
  then show ?thesis
    by (auto simp: gl_fetchNotes_def collected_def split: option.splits sum.splits)
qed

end
