(* ===== verification/Program.thy ===== *)
theory Program
  imports Forgejo GitHub GitLab Cli
begin

text \<open>
  The composition root (\<open>cmd/backup-git-repos/main.go\<close>): the runner of each kind of forge, and
  the program made of it. Every runner keeps the contract of its adapters, so what holds of a
  run under the contract holds of the program.
\<close>

definition zero_mirror :: mirror where
  "zero_mirror = \<lparr>git_path = [], git_lfs_path = []\<rparr>"

definition fj_runner :: "net \<Rightarrow> tool \<Rightarrow> fj_client \<Rightarrow> runner" where
  "fj_runner net git c =
     \<lparr>run_lister = fj_ListRepos net c, run_mirrorer = Sync git (net_parse net) zero_mirror, run_remoter = fj_Remote c,
      run_exporters = [fj_IssueExporter net c, fj_ReleaseExporter net c, fj_PullRequestExporter net c]\<rparr>"

definition gl_runner :: "net \<Rightarrow> tool \<Rightarrow> gl_client \<Rightarrow> runner" where
  "gl_runner net git c =
     \<lparr>run_lister = gl_ListRepos net c, run_mirrorer = Sync git (net_parse net) zero_mirror, run_remoter = gl_Remote c,
      run_exporters = [gl_IssueExporter net c, gl_ReleaseExporter net c, gl_PullRequestExporter net c]\<rparr>"

definition gh_runner :: "net \<Rightarrow> tool \<Rightarrow> gh_client \<Rightarrow> runner" where
  "gh_runner net git c =
     \<lparr>run_lister = gh_ListRepos net c, run_mirrorer = Sync git (net_parse net) zero_mirror, run_remoter = gh_Remote c,
      run_exporters = [gh_IssueExporter net c, gh_ReleaseExporter net c, gh_PullRequestExporter net c]\<rparr>"

definition newRunner :: "net \<Rightarrow> tool \<Rightarrow> forge_config \<Rightarrow> err + runner" where
  "newRunner net git fc =
     (let ctx = ''forge '' @ fg_Name fc in
      if fg_Kind fc = ''forgejo'' then
        (case fj_New net (fg_URL fc) (fg_Token fc) of
           Inl e \<Rightarrow> Inl (Wrap ctx e)
         | Inr c \<Rightarrow> Inr (fj_runner net git (c\<lparr>fj_SkipMirrors := fg_SkipMirrors fc\<rparr>)))
      else if fg_Kind fc = ''gitlab'' then
        (case gl_New net (fg_URL fc) (fg_Token fc) of Inl e \<Rightarrow> Inl (Wrap ctx e) | Inr c \<Rightarrow> Inr (gl_runner net git c))
      else if fg_Kind fc = ''github'' then
        (case gh_New net (fg_URL fc) (fg_Token fc) of Inl e \<Rightarrow> Inl (Wrap ctx e) | Inr c \<Rightarrow> Inr (gh_runner net git c))
      else Inl (Wrap ctx (UnknownKindError (fg_Kind fc))))"

text \<open>The exit code of the program; a command that does not return has none.\<close>

definition main_run :: "world \<Rightarrow> command \<Rightarrow> cli_flags \<Rightarrow> os \<Rightarrow> (nat \<times> os) option" where
  "main_run w cmd flags s =
     (case root_command w ''dev'' cmd flags s of
        None \<Rightarrow> None
      | Some (Inl e, s1) \<Rightarrow> Some (1, s1)
      | Some (Inr _, s1) \<Rightarrow> Some (0, s1))"

section \<open>The contract\<close>

interpretation fj_program: runner_contract "fj_runner net git c" for net git c
  by (rule runner_contract.intro)
    (auto simp: fj_runner_def intro: fj_lister.lister_contract_axioms git.mirrorer_contract_axioms
      fj_issues.exporter_contract_axioms fj_releases.exporter_contract_axioms fj_pulls.exporter_contract_axioms)

interpretation gl_program: runner_contract "gl_runner net git c" for net git c
  by (rule runner_contract.intro)
    (auto simp: gl_runner_def intro: gl_lister.lister_contract_axioms git.mirrorer_contract_axioms
      gl_issues.exporter_contract_axioms gl_releases.exporter_contract_axioms gl_pulls.exporter_contract_axioms)

interpretation gh_program: runner_contract "gh_runner net git c" for net git c
  by (rule runner_contract.intro)
    (auto simp: gh_runner_def intro: gh_lister.lister_contract_axioms git.mirrorer_contract_axioms
      gh_issues.exporter_contract_axioms gh_releases.exporter_contract_axioms gh_pulls.exporter_contract_axioms)

lemma newRunner_contract: "newRunner net git fc = Inr rn \<Longrightarrow> runner_contract rn"
  by (auto simp: newRunner_def Let_def split: if_splits sum.splits
      intro: fj_program.runner_contract_axioms gl_program.runner_contract_axioms gh_program.runner_contract_axioms)

lemma newRunner_lister: "newRunner net git fc = Inr rn \<Longrightarrow> lister_contract (run_lister rn)"
  using newRunner_contract by (auto simp: runner_contract_def)

section \<open>Reading without writing\<close>

lemma reads_only_println [simp]: "reads_only s (println l s') = reads_only s s'"
  by (simp add: println_def)

lemma reads_only_fold_println: "reads_only s (fold (\<lambda>x. println (g x)) xs s') = reads_only s s'"
  by (induction xs arbitrary: s') simp_all

lemma dry_run_repos_reads: "reads_only s (snd (dry_run_repos forge cfg rs n s')) = reads_only s s'"
  by (induction forge cfg rs n s' rule: dry_run_repos.induct) (simp_all add: Let_def)

lemma lister_reads: "lister_contract (run_lister rn) \<Longrightarrow> run_lister rn st s = Some (r, s') \<Longrightarrow> reads_only s s'"
  by (rule lister_contract.list_reads_only)

lemma dryRunPrune_reads:
  assumes "lister_contract (run_lister rn)" "dryRunPrune fc cfg rn repos s = Some (r, s')"
  shows "reads_only s s'"
  using assms(2)
  by (auto simp: dryRunPrune_def Let_def reads_only_fold_println dest!: lister_reads [OF assms(1)]
      split: if_splits option.splits sum.splits prod.splits)

lemma dryRunForge_reads:
  assumes "lister_contract (run_lister rn)" "dryRunForge fc cfg rn s = Some (r, s')"
  shows "reads_only s s'"
proof -
  note listed = lister_reads [OF assms(1)] and pruned = dryRunPrune_reads [OF assms(1)]
  obtain x s1 where l: "run_lister rn (dr_state cfg) s = Some (x, s1)"
    using assms(2) by (auto simp: dryRunForge_def Let_def split: option.splits)
  show ?thesis
  proof (cases x)
    case (Inl e)
    with l assms(2) listed [OF l] show ?thesis by (simp add: dryRunForge_def Let_def)
  next
    case (Inr repos)
    obtain n s2 where d: "dry_run_repos (fg_Name fc) cfg repos (0, 0, 0) s1 = (n, s2)" by fastforce
    have "reads_only s s2" using dry_run_repos_reads [of s "fg_Name fc" cfg repos "(0, 0, 0)" s1] d listed [OF l] by simp
    with l Inr d assms(2) show ?thesis
      by (auto simp: dryRunForge_def Let_def dest!: pruned intro: reads_only_trans split: if_splits option.splits sum.splits prod.splits)
  qed
qed

lemma preview_reads:
  assumes "w_newRunner w = newRunner net git" "list_only \<or> fl_dryRun flags"
    and "runForge w fc dest archive_dir st arch kinds flags list_only s = Some (r, s')"
  shows "reads_only s s'"
proof (cases "newRunner net git fc")
  case (Inl e)
  with assms show ?thesis by (simp add: runForge_def Let_def)
next
  case (Inr rn)
  note l = newRunner_lister [OF Inr]
  show ?thesis
  proof (cases list_only)
    case True
    with Inr assms(1,3) show ?thesis
      by (auto simp: runForge_def Let_def reads_only_fold_println dest!: lister_reads [OF l] split: option.splits sum.splits)
  next
    case False
    with Inr assms show ?thesis
      by (auto simp: runForge_def Let_def dest!: dryRunForge_reads [OF l])
  qed
qed

lemma look_println [simp]: "look (println l s) = look s"
  by (simp add: println_def)

lemma look_fold_progress: "look (fold (newProgressReporter name tty) calls s) = look s"
  by (induction calls arbitrary: s) (auto simp: newProgressReporter_def Let_def split: prod.split)

definition sample_gone :: os where
  "sample_gone = quiet_os
     [([''b''], Dir), ([''b'', ''hub''], Dir), ([''b'', ''hub'', ''gone.git''], Dir), ([''b'', ''hub'', ''gone.git'', ''HEAD''], File ''ref''),
      ([''b'', ''keep''], File ''x'')]"

definition sample_hub :: forge_config where
  "sample_hub = \<lparr>fg_Name = ''hub'', fg_Kind = ''github'', fg_URL = [], fg_TokenEnv = [], fg_TokenLiteral = ''t'', fg_TokenCommand = [],
     fg_Token = ''t'', fg_SkipMirrors = False\<rparr>"

definition sample_flags :: cli_flags where
  "sample_flags = \<lparr>fl_config = [], fl_dest = ''/b'', fl_forges = [], fl_state = ''all'', fl_archive = ''none'', fl_archiveDir = [],
     fl_concurrency = 1, fl_timeout = 0, fl_verbose = False, fl_dryRun = False, fl_pruneRemoved = True, fl_exportMetadata = []\<rparr>"

definition sample_world :: "net \<Rightarrow> world" where
  "sample_world net = \<lparr>w_targz = sample_targz, w_yaml = (\<lambda>_. Some \<lparr>cf_Dest = ''/b'', cf_Forges = [sample_hub]\<rparr>), w_shell = sample_shell,
     w_viper = (\<lambda>_ _ _. undefined), w_newRunner = newRunner net sample_git, w_gen_man = (\<lambda>_ s. (Inr (), s)), w_tty = True, w_interactive = False\<rparr>"

lemma sample_hub_runner:
  "newRunner (sample_gh_net ''repo'' []) sample_git sample_hub = Inr (gh_runner (sample_gh_net ''repo'' []) sample_git sample_gh)"
  by (simp add: newRunner_def sample_hub_def gh_New_def sample_gh_net_def sample_gh_def)

lemma sample_hub_listing:
  "\<exists>rs. gh_ListRepos (sample_gh_net ''repo'' []) sample_gh st s = Some (Inr [], s\<lparr>os_requests := rs\<rparr>)"
proof -
  let ?net = "sample_gh_net ''repo'' []"
  have "answers ?net (gh_api sample_gh) (gh_reposURL sample_gh (Suc 0)) (dec_list dec_gh_repo) []" by code_simp
  moreover have "\<exists>sc. gh_scopes ?net (gh_first_request sample_gh) = Some sc \<and> scopes_allow sc"
  proof -
    have "gh_scopes ?net (gh_first_request sample_gh) = Some ''repo''"
      by (simp add: gh_scopes_def sample_gh_net_def header_get_def) code_simp
    moreover have "scopes_allow ''repo''" by code_simp
    ultimately show ?thesis by blast
  qed
  ultimately have "gh_listing_page ?net sample_gh 1 s = (Inr ([], True),
      s\<lparr>os_requests := os_requests s @ [\<lparr>rq_url = url_string (gh_reposURL sample_gh 1), rq_headers = gh_api sample_gh\<rparr>]\<rparr>)"
    using gh_served_page [of ?net sample_gh 0 "[]" s] by simp
  from paged_single [of "gh_listing_page ?net sample_gh", OF this, of "appending (\<lambda>items. gh_filterRepos items st)" "[]"]
  show ?thesis by (simp add: gh_ListRepos_def collected_def) (rule exI, rule refl)
qed

text \<open>A run of the sample hub: it lists nothing, so the mirror on disk is stale and pruned.\<close>

lemma sample_hub_run:
  obtains s' where "runForge (sample_world (sample_gh_net ''repo'' [])) sample_hub ''/b'' ''/b/archive'' StateAll ArchiveNone [] sample_flags False sample_gone = Some (Inr (), s')"
    and "look s' [''b'', ''hub'', ''gone.git'', ''HEAD''] = None"
proof -
  let ?net = "sample_gh_net ''repo'' []" and ?s = sample_gone
  let ?rn = "gh_runner ?net sample_git sample_gh"
  let ?opts = "forge_options sample_hub ''/b'' ''/b/archive'' StateAll ArchiveNone [] sample_flags"
  obtain rs where l: "gh_ListRepos ?net sample_gh StateAll ?s = Some (Inr [], ?s\<lparr>os_requests := rs\<rparr>)" using sample_hub_listing by blast
  let ?s1 = "?s\<lparr>os_requests := rs\<rparr>"
  have listed: "listRepos ?rn StateAll ?s = Some (Inr ([], []), ?s1)" by (simp add: listRepos_def gh_runner_def l)
  have opts: "o_state ?opts = StateAll" by (simp add: forge_options_def)
  have stale: "staleMirrors (o_dest ?opts) (o_archive_dir ?opts) [] ?s1 = Inr [''gone'']" by code_simp
  have pruned: "case prune ?opts [''gone''] ?s1 of (n, s2) \<Rightarrow> n = 1 \<and> look s2 [''b'', ''hub'', ''gone.git'', ''HEAD''] = None" by code_simp
  obtain n s2 where p: "prune ?opts [''gone''] ?s1 = (n, s2)" by fastforce
  have "Run sample_targz ?rn ?opts ?s = Some (Inr (Run_result (new_counters 0) n, []), s2)"
    by (simp add: Run_def opts listed stale p new_counters_def del: prune.simps)
  then obtain s' where run: "runForge (sample_world ?net) sample_hub ''/b'' ''/b/archive'' StateAll ArchiveNone [] sample_flags False ?s = Some (Inr (), s')"
    and same: "look s' = look s2"
    by (simp add: runForge_def sample_world_def sample_hub_runner sample_flags_def Let_def look_println)
  have "look s' [''b'', ''hub'', ''gone.git'', ''HEAD''] = None" using pruned unfolding p same by simp
  with run show thesis by (rule that)
qed

lemma wf_sample_gone: "wf_os sample_gone"
  by (auto simp: wf_os_def look_def sample_gone_def quiet_os_def quiet_machine_def plain_name_def split: if_splits)

text \<open>C33:
  Listing and a dry run leave the machine alone: whatever the forge is and answers, not an
  entry of the file system is changed, by \<open>list\<close> or by \<open>run --dry-run\<close>.
\<close>

theorem preview_changes_nothing:
  assumes "w_newRunner w = newRunner net git" and "list_only \<or> fl_dryRun flags"
    and "runForge w fc dest archive_dir st arch kinds flags list_only s = Some (r, s')"
  shows "reads_only s s'"
  by (rule preview_reads [OF assms])

lemma preview_changes_nothing_witness:
  "\<exists>r s'. runForge (sample_world (sample_gh_net ''repo'' [])) sample_hub ''/b'' ''/b/archive'' StateAll ArchiveNone [] sample_flags True sample_gone = Some (r, s') \<and>
     reads_only sample_gone s'"
proof -
  let ?net = "sample_gh_net ''repo'' []"
  obtain r s' where run: "runForge (sample_world ?net) sample_hub ''/b'' ''/b/archive'' StateAll ArchiveNone [] sample_flags True sample_gone = Some (r, s')"
    using sample_hub_listing [of StateAll sample_gone]
    by (auto simp: runForge_def sample_world_def sample_hub_runner gh_runner_def Let_def)
  have "w_newRunner (sample_world ?net) = newRunner ?net sample_git" by (simp add: sample_world_def)
  from preview_changes_nothing [OF this _ run] run show ?thesis by blast
qed

text \<open>Where the run of one forge works, and that it leaves the machine's settings.\<close>

lemma runForge_within:
  assumes "w_newRunner w = newRunner net git" and "wf_os s"
    and "newRunner net git fc = Inr rn" and "lists_plain rn st s"
    and "runForge w fc dest archive_dir st arch kinds flags list_only s = Some (r, s')"
    and "look s q = Some n" and "look s' q \<noteq> Some n"
  shows "prefix (at_path s (fpjoin [dest, fg_Name fc])) q \<or> prefix (at_path s (fpjoin [archive_dir, fg_Name fc])) q \<or>
    (\<exists>p \<in> scratch_dirs s. prefix p q)"
proof -
  have "\<not> reads_only s s'" using assms(6,7) by (auto simp: reads_only_look)
  then have run: "\<not> list_only" "\<not> fl_dryRun flags"
    using preview_reads [OF assms(1) _ assms(5)] by auto
  let ?opts = "forge_options fc dest archive_dir st arch kinds flags"
  obtain x s1 where x: "Run (w_targz w) rn ?opts s = Some (x, s1)" and same: "look s' = look s1"
    using assms(1,3,5) run by (auto simp: runForge_def Let_def look_fold_progress split: option.splits sum.splits prod.splits)
  have "prefix (at_path s (o_dest ?opts)) q \<or> prefix (at_path s (o_archive_dir ?opts)) q \<or> (\<exists>p \<in> scratch_dirs s. prefix p q)"
    by (rule run_within [OF newRunner_contract [OF assms(3)] assms(2) _ x assms(6)])
      (use assms(4,7) same in \<open>simp_all add: forge_options_def\<close>)
  then show ?thesis by (simp add: forge_options_def)
qed

lemma Run_mach:
  assumes "runner_contract rn" "plain_path (m_wd (os_mach s))" "Run targz rn opts s = Some (x, s')"
  shows "os_mach s' = os_mach s"
  using assms(3)
proof (cases rule: Run_cases)
  case (refused e)
  then show ?thesis using runner_contract.listRepos_reads_only [OF assms(1)] by (auto simp: reads_only_def)
next
  case (completed repos canonical s1 stale c s2 n)
  have m1: "os_mach s1 = os_mach s"
    using runner_contract.listRepos_reads_only [OF assms(1) completed(1)] by (simp add: reads_only_def)
  have "os_mach s2 = os_mach s1"
    using confined_mach [OF runner_contract.confined_run_repos [OF assms(1) completed(3)]] assms(2) by (simp add: m1)
  with m1 removed_only_mach [OF prune_removed_only [OF completed(4)]] show ?thesis by simp
qed

lemma mach_fold_progress [simp]: "os_mach (fold (newProgressReporter name tty) calls s) = os_mach s"
  by (induction calls arbitrary: s) (auto simp: newProgressReporter_def println_def Let_def split: prod.split)

lemma runForge_mach:
  assumes "w_newRunner w = newRunner net git" and "plain_path (m_wd (os_mach s))"
    and "runForge w fc dest archive_dir st arch kinds flags list_only s = Some (r, s')"
  shows "os_mach s' = os_mach s"
proof (cases "list_only \<or> fl_dryRun flags")
  case True
  from preview_reads [OF assms(1) True assms(3)] show ?thesis by (simp add: reads_only_def)
next
  case False
  show ?thesis
  proof (cases "newRunner net git fc")
    case (Inr rn)
    note kept = Run_mach [OF newRunner_contract [OF Inr] assms(2)]
    from assms(1,3) False Inr show ?thesis
      by (auto simp: runForge_def Let_def println_def split: option.splits sum.splits prod.splits dest!: kept)
  qed (use assms(1,3) in \<open>simp add: runForge_def Let_def\<close>)
qed

text \<open>C1:
  A run of one forge stays in its directories: whatever the forge is, an entry of the file
  system is only changed or removed below the forge's own directory in the destination, below its own
  directory in the archive directory, or in a scratch directory, so no forge's run
  touches the backups of another. The forge's paths have to be plain; one like
  \<open>../x\<close> would lead out.
\<close>

theorem program_stays_in_its_directories:
  assumes "w_newRunner w = newRunner net git" and "wf_os s"
    and "newRunner net git fc = Inr rn" and "lists_plain rn st s"
    and "runForge w fc dest archive_dir st arch kinds flags list_only s = Some (r, s')"
    and "look s q = Some n" and "look s' q \<noteq> Some n"
  shows "prefix (at_path s (fpjoin [dest, fg_Name fc])) q \<or> prefix (at_path s (fpjoin [archive_dir, fg_Name fc])) q \<or>
    (\<exists>p \<in> scratch_dirs s. prefix p q)"
  by (rule runForge_within [OF assms])

lemma program_stays_in_its_directories_witness:
  "\<exists>r s'. runForge (sample_world (sample_gh_net ''repo'' [])) sample_hub ''/b'' ''/b/archive'' StateAll ArchiveNone [] sample_flags False sample_gone = Some (r, s') \<and>
     look s' [''b'', ''hub'', ''gone.git'', ''HEAD''] = None \<and> look s' [''b'', ''keep''] = Some (File ''x'')"
proof -
  let ?net = "sample_gh_net ''repo'' []" and ?s = sample_gone
  let ?rn = "gh_runner ?net sample_git sample_gh"
  obtain s' where run: "runForge (sample_world ?net) sample_hub ''/b'' ''/b/archive'' StateAll ArchiveNone [] sample_flags False ?s = Some (Inr (), s')"
    and gone: "look s' [''b'', ''hub'', ''gone.git'', ''HEAD''] = None" by (rule sample_hub_run)
  obtain rs where l: "gh_ListRepos ?net sample_gh StateAll ?s = Some (Inr [], ?s\<lparr>os_requests := rs\<rparr>)" using sample_hub_listing by blast
  have listed: "listRepos ?rn StateAll ?s = Some (Inr ([], []), ?s\<lparr>os_requests := rs\<rparr>)" by (simp add: listRepos_def gh_runner_def l)
  have keep: "look ?s [''b'', ''keep''] = Some (File ''x'')" by code_simp
  have dirs: "at_path ?s (fpjoin [''/b'', fg_Name sample_hub]) = [''b'', ''hub'']"
    "at_path ?s (fpjoin [''/b/archive'', fg_Name sample_hub]) = [''b'', ''archive'', ''hub'']" "at_path ?s (temp_dir ?s) = [''tmp'']" by code_simp+
  have "look s' [''b'', ''keep''] = Some (File ''x'')"
  proof (rule ccontr)
    assume ne: "look s' [''b'', ''keep''] \<noteq> Some (File ''x'')"
    have "w_newRunner (sample_world ?net) = newRunner ?net sample_git" by (simp add: sample_world_def)
    from program_stays_in_its_directories [OF this wf_sample_gone sample_hub_runner _ run keep ne] show False
      by (simp add: lists_plain_def listed dirs scratch_dirs_def)
  qed
  with run gone show ?thesis by blast
qed

end
