(* ===== verification/Trees.thy ===== *)
theory Trees
  imports Program
begin

text \<open>
  The type invariant of the disk: every entry has a name the kernel accepts and a directory
  above it (\<open>wf_os\<close>). A whole run keeps it, so what is proved of one run from a well-formed
  disk holds of the next one too. git and git-lfs are asked to leave the directory they work
  in a tree of that kind; nothing is asked of the forge.
\<close>

section \<open>Keeping the tree\<close>

definition keeps_tree :: "os \<Rightarrow> os \<Rightarrow> bool" where
  "keeps_tree s s' \<longleftrightarrow> (wf_os s \<longrightarrow> wf_os s')"

lemma keeps_tree_refl [simp]: "keeps_tree s s"
  by (simp add: keeps_tree_def)

lemma keeps_tree_trans [trans]: "keeps_tree s s1 \<Longrightarrow> keeps_tree s1 s2 \<Longrightarrow> keeps_tree s s2"
  by (simp add: keeps_tree_def)

lemma keeps_tree_effects [simp]:
  "keeps_tree s (log_at l m x s') = keeps_tree s s'"
  "keeps_tree (log_at l m x s) s' = keeps_tree s s'"
  by (simp_all add: keeps_tree_def)

lemma reads_keep_tree: "reads_only s s' \<Longrightarrow> keeps_tree s s'"
  using reads_only_look [of s s'] by (simp add: keeps_tree_def wf_os_def reads_only_def)

section \<open>The directory of a path\<close>

text \<open>\<open>filepath.Dir\<close> names the directory that holds the entry, when the path ends in an entry's name.\<close>

lemma resolve_dot: "resolve wd ''.'' = wd"
  by (simp add: resolve_def clean_step_def)

lemma resolve_parent:
  assumes "proper_dir d"
  shows "resolve wd (fpdir d) = butlast (resolve wd d)"
proof (cases "CHR ''/'' \<in> set d")
  case True
  then obtain u l where d: "d = u @ CHR ''/'' # l" and l: "CHR ''/'' \<notin> set l" by (meson split_list_last)
  have dir: "rev (dropWhile (\<lambda>c. c \<noteq> CHR ''/'') (rev d)) = u @ ''/''"
    using l dropWhile_append3 [of "\<lambda>c. c \<noteq> CHR ''/''" "CHR ''/''" "rev l" "rev u"] by (auto simp: d dropWhile_append2)
  have last: "plain_name l" using assms l by (simp add: proper_dir_def d split_on_append split_on_free)
  have rooted: "is_rooted (u @ CHR ''/'' # w) = is_rooted (u @ ''/'')" for w by (cases u) simp_all
  have "resolve wd d = resolve wd (u @ ''/'') @ [l]"
    using rooted [of l] by (simp add: resolve_def d split_on_append split_on_free [OF l] clean_step_plain [OF last])
      (simp add: clean_step_def)
  then show ?thesis by (simp add: fpdir_def dir resolve_clean)
next
  case False
  then have "rev (dropWhile (\<lambda>c. c \<noteq> CHR ''/'') (rev d)) = []" by auto
  moreover have "plain_name d" using assms False by (simp add: proper_dir_def split_on_free)
  moreover from this have "\<not> is_rooted d" by (cases d) (auto simp: plain_name_def)
  ultimately show ?thesis
    by (simp add: fpdir_def fpclean_def resolve_dot) (simp add: resolve_def split_on_free [OF False] clean_step_plain)
qed

lemma at_parent: "proper_dir d \<Longrightarrow> at_path s (fpdir d) = butlast (at_path s d)"
  by (simp add: at_path_def resolve_parent)

lemma at_sibling_parent:
  assumes "proper_dir d" "CHR ''/'' \<notin> set e" "length e > 2"
  shows "butlast (at_path s (d @ e)) = butlast (at_path s d)" "at_path s (d @ e) \<noteq> []"
proof -
  obtain R where R: "\<And>e. CHR ''/'' \<notin> set e \<Longrightarrow> e = [] \<or> length e > 2 \<Longrightarrow>
      resolve (m_wd (os_mach s)) (d @ e) = R @ [last (split_on CHR ''/'' d) @ e]"
    using resolve_last [OF assms(1), where wd = "m_wd (os_mach s)"] by blast
  show "butlast (at_path s (d @ e)) = butlast (at_path s d)" "at_path s (d @ e) \<noteq> []"
    using R [of "[]"] R [OF assms(2)] assms(3) by (simp_all add: at_path_def)
qed

text \<open>A directory that an operation does not work in is still there afterwards.\<close>

lemma parent_stays:
  assumes "confined {at_path s d, at_path s (d @ e)} s s'" "proper_dir d" "CHR ''/'' \<notin> set e" "length e > 2"
    and "look s (butlast (at_path s d)) = Some Dir"
  shows "look s' (butlast (at_path s d)) = Some Dir"
proof (rule confined_keeps [OF assms(1,5)])
  note sib = at_sibling_parent [OF assms(2-4), of s]
  have up: "\<not> prefix p (butlast p)" if "p \<noteq> []" for p :: fpath
    using that prefix_length_le [of p "butlast p"] by (cases p) auto
  have "at_path s d \<noteq> []" using proper_dir_not_root [OF assms(2)] by (simp add: at_path_def)
  with up [of "at_path s d"] up [OF sib(2)] sib(1)
  show "\<forall>p \<in> {at_path s d, at_path s (d @ e)}. \<not> prefix p (butlast (at_path s d))" by auto
qed

section \<open>Commands\<close>

text \<open>
  The content of a directory as a tool sees it: apart from the directory itself, every entry
  has a proper name and a directory above it.
\<close>

definition proper_tree :: "dir_tree \<Rightarrow> bool" where
  "proper_tree t \<longleftrightarrow>
     (\<forall>q \<in> fst ` set t. q \<noteq> [] \<longrightarrow> plain_path q \<and> map_of t (butlast q) = Some Dir)"

definition proper_tool :: "tool \<Rightarrow> bool" where
  "proper_tool tool \<longleftrightarrow> (\<forall>c t. proper_tree t \<longrightarrow> proper_tree (snd (tool c t)))"

lemma proper_treeD:
  "proper_tree t \<Longrightarrow> map_of t q = Some n \<Longrightarrow> q \<noteq> [] \<Longrightarrow> plain_path q \<and> map_of t (butlast q) = Some Dir"
  using map_of_SomeD [of t q n] unfolding proper_tree_def by force

lemma map_of_subtree: "map_of (subtree p s) q = map_of (os_tree s) (p @ q)"
proof -
  have "map_of (map (\<lambda>(q, n). (drop (length p) q, n)) (filter (\<lambda>e. prefix p (fst e)) t)) q = map_of t (p @ q)" for t :: dir_tree
    by (induction t) (auto simp: prefix_def, metis append_eq_conv_conj)
  then show ?thesis by (simp add: subtree_def)
qed

lemma proper_subtree:
  assumes "wf_os s" "p \<noteq> []"
  shows "proper_tree (subtree p s)"
proof -
  have "plain_path q \<and> map_of (subtree p s) (butlast q) = Some Dir" if "q \<in> fst ` set (subtree p s)" "q \<noteq> []" for q
  proof -
    from that obtain n where "map_of (subtree p s) q = Some n"
      by (metis (no_types, lifting) domD dom_map_of_conv_image_fst)
    then have l: "look s (p @ q) = Some n" using assms(2) by (simp add: map_of_subtree look_def)
    have "plain_path (p @ q)" using wf_osD(2) [OF assms(1) l] .
    moreover have "look s (p @ butlast q) = Some Dir" using wf_osD(3) [OF assms(1) l] that(2) by (simp add: butlast_append)
    ultimately show ?thesis using assms(2) by (simp add: map_of_subtree look_def)
  qed
  then show ?thesis by (auto simp: proper_tree_def)
qed

lemma wf_record_cmd [simp]: "wf_os (record_cmd c s) = wf_os s"
  by (simp add: wf_os_def)

lemma wf_graft:
  assumes "wf_os s" "proper_tree t" "p \<noteq> []" "plain_path p" "look s (butlast p) = Some Dir"
  shows "wf_os (graft p t s)"
proof -
  have up: "\<not> prefix p (butlast p)"
    using assms(3) prefix_length_le [of p "butlast p"] by (cases p) auto
  have "plain_path q \<and> look (graft p t s) (butlast q) = Some Dir" if l: "look (graft p t s) q = Some n" for q n
  proof (cases "prefix p q")
    case True
    then obtain r where q: "q = p @ r" by (auto simp: prefix_def)
    with l assms(3) have r: "map_of t r = Some n" by (simp add: look_graft)
    show ?thesis
    proof (cases "r = []")
      case True
      with q assms(3-5) up show ?thesis by (simp add: look_graft)
    next
      case False
      with q proper_treeD [OF assms(2) r] assms(3,4) show ?thesis by (simp add: look_graft butlast_append)
    qed
  next
    case False
    moreover from False have "\<not> prefix p (butlast q)" by (meson prefix_order.trans prefixeq_butlast)
    ultimately show ?thesis using l wf_osD(2,3) [OF assms(1), of q n] assms(3) by (simp add: look_graft)
  qed
  with assms(1) show ?thesis by (simp add: wf_os_def)
qed

lemma wf_exec_in:
  assumes "exec_in tool c p s = (r, s')" "proper_tool tool" "wf_os s" "p \<noteq> []" "plain_path p" "look s (butlast p) = Some Dir"
  shows "wf_os s'"
proof -
  have "s' = graft p (snd (tool c (subtree p s))) (record_cmd c s)"
    using assms(1) by (auto simp: exec_in_def split: prod.splits)
  moreover have "proper_tree (snd (tool c (subtree p s)))"
    using assms(2) proper_subtree [OF assms(3,4)] by (simp add: proper_tool_def)
  ultimately show ?thesis using assms by (auto intro: wf_graft)
qed

text \<open>
  A sync needs the directory above the mirror, which the run makes first; for an update it
  has to be there because the mirror is.
\<close>

lemma wf_clone:
  assumes "clone tool parse git r d s = (x, s')" "proper_tool tool" "proper_dir d" "wf_os s"
    and parent: "look s (butlast (at_path s d)) = Some Dir"
  shows "wf_os s'"
proof -
  note sib = at_sibling_parent [OF assms(3), of "''.partial''", simplified]
  have step: "wf_os s2" if ra: "sys_remove_all (at_path s (d @ ''.partial'')) s = (y, s1)"
    and ex: "exec_in tool c (at_path s1 (d @ ''.partial'')) s1 = (res, s2)" for y s1 c res s2
  proof -
    have c: "confined {at_path s d, at_path s (d @ ''.partial'')} s s1" using ra by (rule confined_remove_all) simp
    have wf1: "wf_os s1" using wf_remove_all [OF ra assms(4)] .
    have "look s1 (butlast (at_path s d)) = Some Dir" by (rule parent_stays [OF c assms(3)]) (use parent in auto)
    then show ?thesis
      using wf_exec_in [OF ex assms(2) wf1] sib [of s1] wf_at_path [OF wf1] by (simp add: confined_at [OF c])
  qed
  show ?thesis using assms(1)
  proof (cases rule: clone_cases)
    case (early y e)
    then show ?thesis using wf_remove_all assms(4) by blast
  next
    case (git_failed s1 env res e)
    then show ?thesis using step by blast
  next
    case (renamed s1 env res s2 z)
    from step [OF renamed(1,3)] have "wf_os s2" .
    then show ?thesis using wf_rename [OF renamed(5)] wf_at_path by blast
  qed
qed

lemma wf_update:
  assumes "update tool parse git r d s = (x, s')" "proper_tool tool" "proper_dir d" "wf_os s"
    and "look s (butlast (at_path s d)) = Some Dir"
  shows "wf_os s'"
proof -
  have "at_path s d \<noteq> []" using proper_dir_not_root [OF assms(3)] by (simp add: at_path_def)
  then show ?thesis
    using assms(1) wf_exec_in [OF _ assms(2,4) _ wf_at_path [OF assms(4)] assms(5)] assms(4)
    by (auto simp: update_def Let_def split: sum.splits prod.splits option.splits)
qed

lemma wf_syncLFS:
  assumes "syncLFS tool parse m git r d s = (x, s')" "proper_tool tool" "proper_dir d" "wf_os s"
    and parent: "look s (butlast (at_path s d)) = Some Dir"
  shows "wf_os s'"
proof -
  have read: "wf_os s1 \<and> look s1 = look s \<and> os_mach s1 = os_mach s" if "usesLFS tool git d s = (y, s1)" for y s1
    using that by (rule usesLFS_effect) (use assms(4) in simp_all)
  show ?thesis using assms(1)
  proof (cases rule: syncLFS_cases)
    case (fetched s1 gitLFS env res)
    note r = read [OF fetched(1)]
    have at: "at_path s1 d = at_path s d" using r by (intro at_path_cong) simp
    have "at_path s d \<noteq> []" using proper_dir_not_root [OF assms(3)] by (simp add: at_path_def)
    moreover have "wf_os s1" "look s1 (butlast (at_path s1 d)) = Some Dir" using r parent by (auto simp: at)
    ultimately show ?thesis
      using \<open>at_path s d \<noteq> []\<close> wf_exec_in [OF fetched(4) assms(2)] wf_at_path by (metis at)
  qed (use read in blast)+
qed

lemma wf_Sync:
  assumes "Sync tool parse m r d s = (x, s')" "proper_tool tool" "proper_dir d" "wf_os s"
    and parent: "look s (butlast (at_path s d)) = Some Dir"
  shows "wf_os s'"
proof -
  have rest: "wf_os s'"
    if first: "update tool parse git r d s = (y, s1) \<or> clone tool parse git r d s = (y, s1)"
    and next_step: "s' = s1 \<or> syncLFS tool parse m git r d s1 = (x, s')" for git y s1
  proof -
    have c: "confined {at_path s d, at_path s (d @ ''.partial'')} s s1"
      using first by (auto intro: confined_update confined_clone)
    have wf1: "wf_os s1"
      using first wf_update [OF _ assms(2-5)] wf_clone [OF _ assms(2-5)] by blast
    have "look s1 (butlast (at_path s1 d)) = Some Dir"
      unfolding confined_at [OF c] by (rule parent_stays [OF c assms(3)]) (use parent in auto)
    then show ?thesis using next_step wf1 wf_syncLFS [OF _ assms(2,3) wf1] by blast
  qed
  show ?thesis using assms(1)
  proof (cases rule: Sync_cases)
    case no_git
    with assms(4) show ?thesis by simp
  next
    case (updated git n y s1)
    with rest show ?thesis by blast
  next
    case (cloned git e y s1)
    with rest show ?thesis by blast
  qed
qed

section \<open>Archives and metadata files\<close>

text \<open>An open file: its directory is there and nothing is below it, whatever it is filled with.\<close>

lemma wf_filled:
  assumes "sys_create p s = (Inr u, s')" "wf_os s" "plain_path p"
  shows "wf_os (put p (File c) s')"
proof -
  have ok: "s' = put p (File []) s" "look s p \<noteq> Some Dir" "look s (butlast p) = Some Dir"
    using assms(1) by (auto simp: sys_create_def split: if_splits option.splits)
  then have ne: "p \<noteq> []" by auto
  then have "butlast p \<noteq> p" by (cases p rule: rev_cases) auto
  moreover have "wf_os s'" unfolding ok(1) using assms(2,3) ok by (intro wf_put) auto
  ultimately show ?thesis using assms(3) ok ne by (intro wf_put) auto
qed

lemma wf_created: "sys_create p s = (r, s') \<Longrightarrow> wf_os s \<Longrightarrow> plain_path p \<Longrightarrow> wf_os s'"
  by (cases r) (auto dest: create_err simp: sys_create_def split: if_splits option.splits intro: wf_put)

lemma wf_writeArchive:
  assumes "writeArchive targz dir out s = (r, s')" "wf_os s"
  shows "wf_os s'"
proof (cases "s' = s")
  case False
  let ?o = "at_path s out"
  from assms(1) False obtain u s1 where c: "sys_create ?o s = (Inr u, s1)" and r: "s' = s1 \<or> (\<exists>c. s' = put ?o (File c) s1)"
    by (auto simp: writeArchive_def sys_fill_def Let_def split: sum.splits prod.splits option.splits if_splits dest: create_err)
  with wf_created [OF c assms(2)] wf_filled [OF c assms(2)] wf_at_path [OF assms(2)] show ?thesis by blast
qed (use assms(2) in simp)

lemma wf_archiveRepo:
  assumes "archiveRepo targz dir out s = (r, s')" "wf_os s"
  shows "wf_os s'"
proof -
  have archived: "wf_os s'" if "Archive targz dir out s1 = (r, s')" "wf_os s1" for s1
    using that(1)
  proof (cases rule: archive_cases)
    case (failed e s2)
    with wf_writeArchive [OF failed(1) that(2)] wf_remove [OF surjective_pairing] show ?thesis by blast
  next
    case (renamed u s2 x)
    with wf_writeArchive [OF renamed(1) that(2)] wf_rename wf_at_path show ?thesis by blast
  qed
  obtain x s1 where m: "sys_mkdir_all (at_path s (fpdir out)) s = (x, s1)" by fastforce
  have "wf_os s1" using wf_mkdir_all [OF m assms(2) wf_at_path [OF assms(2)]] .
  then show ?thesis using assms(1) m archived by (cases x) (auto simp: archiveRepo_def)
qed

lemma keeps_WriteIssue: "keeps_tree s (snd (WriteIssue dir i s))"
proof -
  have "plain_path (numbered_file dir (i_number i) s)" if "wf_os s"
    using wf_at_path [OF that] plain_itoa_json by (simp add: numbered_file_def)
  then show ?thesis
    by (auto simp: WriteIssue_alt keeps_tree_def split: prod.splits sum.splits intro: wf_write_file)
qed

lemma keeps_WritePullRequest: "keeps_tree s (snd (WritePullRequest dir p s))"
proof -
  have "plain_path (numbered_file dir (pr_number p) s)" if "wf_os s"
    using wf_at_path [OF that] plain_itoa_json by (simp add: numbered_file_def)
  then show ?thesis
    by (auto simp: WritePullRequest_alt keeps_tree_def split: prod.splits sum.splits intro: wf_write_file)
qed

lemma keeps_WriteRelease: "keeps_tree s (snd (WriteRelease dir r s))"
proof -
  have "wf_os s'" if w: "WriteRelease dir r s = (x, s')" and wf: "wf_os s" for x s'
  proof -
    obtain y s1 where m: "sys_mkdir_all (at_path s dir @ [sanitizeName (r_tag_name r)]) s = (y, s1)" by fastforce
    have wf1: "wf_os s1" using wf_mkdir_all [OF m wf] wf_at_path [OF wf] sanitizeName_plain_name by simp
    have "plain_path (release_file dir (r_tag_name r) s1)"
      using wf_at_path [OF wf1] by (simp add: release_file_def sanitizeName_plain_name plain_literals)
    moreover have "s' = s1 \<or> (\<exists>z. sys_write_file (release_file dir (r_tag_name r) s1) (MarshalIndent (release_json (full_release r))) s1 = (z, s'))"
      using w m by (auto simp: WriteRelease_alt Let_def split: prod.splits sum.splits)
    ultimately show ?thesis using wf1 wf_write_file by blast
  qed
  then show ?thesis by (metis keeps_tree_def prod.collapse)
qed

lemma keeps_WriteReleaseAsset: "keeps_tree s (snd (WriteReleaseAsset dir tag name body s))"
proof -
  have "wf_os s'" if w: "WriteReleaseAsset dir tag name body s = (x, s')" and wf: "wf_os s" for x s'
  proof -
    let ?p = "asset_file dir tag name s"
    have plain: "plain_path ?p" "plain_path (at_path s dir @ [sanitizeName tag, ''assets''])"
      using wf_at_path [OF wf] by (simp_all add: asset_file_def sanitizeName_plain_name plain_literals)
    show ?thesis using w
    proof (cases rule: WriteReleaseAsset_cases)
      case (not_opened e y s1 z)
      have "wf_os s1" using wf_mkdir_all [OF not_opened(1) wf plain(2)] .
      with not_opened(2) show ?thesis by (auto dest: create_err)
    next
      case (opened s1 n c s3)
      have "wf_os s1" using wf_mkdir_all [OF opened(1) wf plain(2)] .
      moreover obtain d where "s3 = put ?p (File d) (put ?p (File []) s1)" using io_copy_effect [OF opened(3)] by blast
      ultimately have "wf_os s3" using wf_filled [OF opened(2)] plain(1) by simp
      moreover have "wf_os (snd (sys_remove ?p s3))" if "wf_os s3" using wf_remove [OF surjective_pairing that] .
      ultimately show ?thesis using opened(4) by (auto split: option.splits if_splits)
    qed
  qed
  then show ?thesis by (metis keeps_tree_def prod.collapse)
qed

lemma written_keeps: "written dir s s' \<Longrightarrow> keeps_tree s s'"
  by (induction rule: written.induct)
    (auto intro: reads_keep_tree keeps_tree_trans keeps_WriteIssue keeps_WritePullRequest keeps_WriteRelease keeps_WriteReleaseAsset)

section \<open>A run\<close>

text \<open>What a run needs to know of its adapters to keep the tree; \<open>sound\<close> is what is asked of git.\<close>

locale tree_contract = runner_contract +
  fixes sound :: bool
  assumes exporters_keep:
    "exp \<in> set (run_exporters rn) \<Longrightarrow> exp_export exp r d s = Some (x, s') \<Longrightarrow> keeps_tree s s'"
    and mirrorer_keeps:
    "sound \<Longrightarrow> run_mirrorer rn rem d s = (y, s') \<Longrightarrow> proper_dir d \<Longrightarrow> look s (butlast (at_path s d)) = Some Dir \<Longrightarrow> keeps_tree s s'"

context tree_contract
begin

lemma export_keeps:
  assumes "exportMetadata exps opts r n b s = Some (x, s')" "set exps \<subseteq> set (run_exporters rn)"
  shows "keeps_tree s s'"
  using assms
proof (induction exps arbitrary: n b s)
  case (Cons e exps)
  let ?d = "fpjoin [metadata_dir (o_dest opts) (repo_path r), exp_kind e]"
  have rest: "set exps \<subseteq> set (run_exporters rn)" and e: "e \<in> set (run_exporters rn)" using Cons.prems(2) by auto
  obtain y s1 where m: "sys_mkdir_all (at_path s ?d) s = (y, s1)" by fastforce
  then have k1: "keeps_tree s s1" using wf_mkdir_all wf_at_path by (auto simp: keeps_tree_def)
  have k2: "keeps_tree s1 s2" if "exp_export e r ?d (log_at LDebug ''exporting metadata'' (repo_path r) s1) = Some (z, s2)" for z s2
    using exporters_keep [OF e that] by simp
  show ?case
    using Cons.prems(1) m k1
    by (auto simp: Let_def split: if_splits sum.splits option.splits
        dest!: k2 Cons.IH [OF _ rest]) (auto simp: keeps_tree_def)
qed simp

lemma mirror_in_keeps:
  assumes "mirror_in targz rn opts r dir s = Some (out, s')" "sound" "proper_dir dir"
  shows "keeps_tree s s'"
proof -
  have made: "keeps_tree s s1" if "sys_mkdir_all (at_path s (fpdir dir)) s = (y, s1)" for y s1
    using that wf_mkdir_all wf_at_path by (auto simp: keeps_tree_def)
  have synced: "keeps_tree s s2"
    if m: "sys_mkdir_all (at_path s (fpdir dir)) s = (Inr (), s1)"
      and sy: "run_mirrorer rn (run_remoter rn r) dir (log_at LDebug ''mirroring'' (repo_path r) s1) = (y, s2)" for s1 y s2
  proof -
    have "look s1 (butlast (at_path s1 dir)) = Some Dir"
      using mkdir_all_ok [OF m] at_path_cong [OF mkdir_all_mach [OF m]] by (simp add: at_parent [OF assms(3)])
    then have "keeps_tree s1 s2" using mirrorer_keeps [OF assms(2) sy assms(3)] by simp
    with made [OF m] show ?thesis by (rule keeps_tree_trans)
  qed
  show ?thesis using assms(1)
  proof (cases rule: mirror_in_cases)
    case (no_dir e s1)
    then show ?thesis using made by simp
  next
    case (not_synced s1 e s2)
    then show ?thesis using synced by simp
  next
    case (not_archived s1 s2 n b)
    from synced [OF not_archived(1,2)] export_keeps [OF not_archived(3)] show ?thesis
      by (blast intro: keeps_tree_trans)
  next
    case (archived s1 s2 n b s3 x s4)
    have "keeps_tree s s3"
      using synced [OF archived(1,2)] export_keeps [OF archived(3)] by (blast intro: keeps_tree_trans)
    moreover have "keeps_tree s3 s4" using wf_archiveRepo [OF archived(5)] by (simp add: keeps_tree_def)
    ultimately show ?thesis using archived(6) by (auto intro: keeps_tree_trans)
  qed
qed

lemma mirrorRepo_keeps:
  assumes "mirrorRepo targz rn opts r s = Some (out, s')" "sound"
  shows "keeps_tree s s'"
  using assms(1)
proof (cases rule: mirrorRepo_cases)
  case direct
  have "proper_dir (mirror_path (o_dest opts) (repo_path r))"
    unfolding mirror_path_def by (intro proper_dir_fpjoin(1) layout_base(1)) auto
  then show ?thesis by (rule mirror_in_keeps [OF direct(2) assms(2)])
next
  case (no_scratch e s1)
  then show ?thesis using wf_mkdir_temp [OF no_scratch(3)] by (simp add: keeps_tree_def plain_name_def)
next
  case (scratch p s1 s2)
  let ?b = "fpbase (mirror_path (o_dest opts) (repo_path r))"
  have b: "plain_name ?b" unfolding mirror_path_def using layout_base [of "''.git''"] by simp
  have k1: "keeps_tree s s1" using wf_mkdir_temp [OF scratch(3)] by (simp add: keeps_tree_def plain_name_def)
  have k2: "keeps_tree s1 s2"
    by (rule mirror_in_keeps [OF scratch(4) assms(2)], rule proper_dir_fpjoin(1))
      (use b in \<open>simp add: split_on_free plain_name_def\<close>)
  have k3: "keeps_tree s2 s'" using wf_remove_all [OF surjective_pairing] by (auto simp: keeps_tree_def scratch(5))
  show ?thesis using keeps_tree_trans [OF keeps_tree_trans [OF k1 k2] k3] .
qed

lemma run_repos_keeps:
  assumes "run_repos targz rn opts rs (c, s) = Some (c', s')" "sound"
  shows "keeps_tree s s'"
  using assms(1)
proof (induction rs arbitrary: c s)
  case (Cons r rs)
  show ?case
  proof (cases "repo_empty r")
    case True
    with Cons.prems Cons.IH show ?thesis by fastforce
  next
    case False
    with Cons.prems obtain out c1 s1 where "mirrorRepo targz rn opts r s = Some (out, s1)"
      and rest: "run_repos targz rn opts rs (reportDone c1, s1) = Some (c', s')"
      by (auto simp: runRepo_def split: option.splits)
    from mirrorRepo_keeps [OF this(1) assms(2)] Cons.IH [OF rest] show ?thesis by (rule keeps_tree_trans)
  qed
qed simp

lemma prune_keeps: "prune opts ps s = (n, s') \<Longrightarrow> keeps_tree s s'"
proof (induction ps arbitrary: n s)
  case (Cons p ps)
  show ?case
  proof (cases "o_prune_removed opts")
    case True
    from Cons.prems Cons.IH show ?thesis
      by (elim prune_Cons_remove [OF True]) (auto simp: keeps_tree_def)
  next
    case False
    with Cons.prems Cons.IH show ?thesis by fastforce
  qed
qed simp

lemma Run_keeps:
  assumes "Run targz rn opts s = Some (x, s')" "sound"
  shows "keeps_tree s s'"
proof -
  have listed: "reads_only s s1" if "listRepos rn st s = Some (l, s1)" for st l s1
    using that by (auto simp: listRepos_def dest!: lister_contract.list_reads_only [OF lister]
        split: option.splits sum.splits if_splits) (auto simp: reads_only_def)
  show ?thesis using assms(1)
  proof (cases rule: Run_cases)
    case refused
    then show ?thesis using listed reads_keep_tree by blast
  next
    case (completed repos canonical s1 stale c s2 n)
    have "keeps_tree s s1" using listed [OF completed(1)] by (rule reads_keep_tree)
    also have "keeps_tree s1 s2" using completed(3) assms(2) by (rule run_repos_keeps)
    also have "keeps_tree s2 s'" using completed(4) by (rule prune_keeps)
    finally show ?thesis .
  qed
qed

end

section \<open>The program\<close>

lemma Sync_keeps:
  "proper_tool git \<Longrightarrow> Sync git parse m rem d s = (y, s') \<Longrightarrow> proper_dir d \<Longrightarrow>
     look s (butlast (at_path s d)) = Some Dir \<Longrightarrow> keeps_tree s s'"
  using wf_Sync by (auto simp: keeps_tree_def)

interpretation fj_trees: tree_contract "fj_runner net git c" "proper_tool git" for net git c
  by unfold_locales (auto simp: fj_runner_def intro: Sync_keeps
      dest: fj_issues.export_written fj_releases.export_written fj_pulls.export_written written_keeps)

interpretation gl_trees: tree_contract "gl_runner net git c" "proper_tool git" for net git c
  by unfold_locales (auto simp: gl_runner_def intro: Sync_keeps
      dest: gl_issues.export_written gl_releases.export_written gl_pulls.export_written written_keeps)

interpretation gh_trees: tree_contract "gh_runner net git c" "proper_tool git" for net git c
  by unfold_locales (auto simp: gh_runner_def intro: Sync_keeps
      dest: gh_issues.export_written gh_releases.export_written gh_pulls.export_written written_keeps)

lemma newRunner_trees: "newRunner net git fc = Inr rn \<Longrightarrow> tree_contract rn (proper_tool git)"
  by (auto simp: newRunner_def Let_def split: if_splits sum.splits
      intro: fj_trees.tree_contract_axioms gl_trees.tree_contract_axioms gh_trees.tree_contract_axioms)

lemma newRunner_Run_keeps:
  assumes "newRunner net git fc = Inr rn" "proper_tool git" "Run targz rn opts s = Some (x, s')"
  shows "keeps_tree s s'"
  using tree_contract.Run_keeps [OF newRunner_trees [OF assms(1)] assms(3,2)] .

lemma println_keeps [simp]:
  "keeps_tree s (println l s') = keeps_tree s s'" "keeps_tree (println l s) s' = keeps_tree s s'"
  "keeps_tree s (print l s') = keeps_tree s s'" "keeps_tree (print l s) s' = keeps_tree s s'"
  by (simp_all add: keeps_tree_def println_def)

lemma progress_keeps [simp]: "keeps_tree s (fold (newProgressReporter name tty) calls s') = keeps_tree s s'"
  by (induction calls arbitrary: s') (auto simp: newProgressReporter_def Let_def split: prod.split)

lemma runForge_keeps:
  assumes "w_newRunner w = newRunner net git" "proper_tool git"
    and "runForge w fc dest archive_dir st arch kinds flags list_only s = Some (r, s')"
  shows "keeps_tree s s'"
proof (cases "list_only \<or> fl_dryRun flags")
  case True
  show ?thesis by (rule reads_keep_tree [OF preview_reads [OF assms(1) True assms(3)]])
next
  case False
  show ?thesis
  proof (cases "newRunner net git fc")
    case (Inl e)
    with assms show ?thesis by (simp add: runForge_def Let_def)
  next
    case (Inr rn)
    note kept = newRunner_Run_keeps [OF Inr assms(2)]
    from assms(1,3) Inr False show ?thesis
      by (auto simp: runForge_def Let_def split: option.splits sum.splits prod.splits dest!: kept)
  qed
qed

lemma runConfigInit_keeps:
  assumes "runConfigInit flags force s = (r, s')"
  shows "keeps_tree s s'"
proof -
  have written: "keeps_tree s1 s2" if "sys_write_file (at_path s1 path) d s1 = (y, s2)" for path d s1 y s2
    using wf_write_file [OF that] wf_at_path by (auto simp: keeps_tree_def)
  have make: "keeps_tree s s1" if "sys_mkdir_all (at_path s path) s = (y, s1)" for path y s1
    using wf_mkdir_all [OF that] wf_at_path by (auto simp: keeps_tree_def)
  show ?thesis
    using assms
    by (auto simp: runConfigInit_def split: sum.splits prod.splits option.splits dest!: make written intro: keeps_tree_trans)
qed

lemma resolveConfigPath_keeps:
  assumes "resolveConfigPath interactive flags s = (r, s')"
  shows "keeps_tree s s'"
proof -
  have "keeps_tree s s'" if "promptConfigInit flags path s = (y, s')" for path y
    using that by (auto simp: promptConfigInit_def Let_def split: sum.splits prod.splits if_splits dest!: runConfigInit_keeps)
  with assms show ?thesis
    by (auto simp: resolveConfigPath_def split: if_splits sum.splits prod.splits)
qed

text \<open>The shell that runs a token command may do anything that leaves the disk a tree.\<close>

definition proper_shell :: "tool \<Rightarrow> bool" where
  "proper_shell shell \<longleftrightarrow> (\<forall>c s. keeps_tree s (snd (exec_in shell c [] s)))"

lemma LoadConfig_keeps:
  assumes "LoadConfig yaml shell path s = (r, s')" "proper_shell shell"
  shows "keeps_tree s s'"
proof -
  have token: "keeps_tree s s'" if "runTokenCommand shell c s = (y, s')" for c s y s'
    using that assms(2) unfolding runTokenCommand_def proper_shell_def
    by (auto split: prod.splits option.splits) (metis snd_conv)+
  then have load: "keeps_tree s s'" if "load_forge shell f s = (y, s')" for f s y s'
    using that by (auto simp: load_forge_def resolveToken_def Let_def split: if_splits sum.splits prod.splits option.splits)
  have "keeps_tree s s'" if "collect_each (load_forge shell) fs s = (y, s')" for fs y s s'
    using that
  proof (induction fs arbitrary: s y)
    case (Cons f fs)
    then show ?case by (auto split: sum.splits prod.splits dest!: load Cons.IH intro: keeps_tree_trans)
  qed simp
  with assms(1) show ?thesis by (auto simp: LoadConfig_def split: sum.splits option.splits prod.splits)
qed

text \<open>
  What is asked of the world: the program's own runners, and programs beside it that leave
  the disk a tree.
\<close>

definition sound_world :: "world \<Rightarrow> bool" where
  "sound_world w \<longleftrightarrow> (\<exists>net git. w_newRunner w = newRunner net git \<and> proper_tool git) \<and> proper_shell (w_shell w) \<and>
     (\<forall>dir s. keeps_tree s (snd (w_gen_man w dir s)))"

lemma runBackup_keeps:
  assumes "runBackup w flags list_only s = Some (r, s')" "sound_world w"
  shows "keeps_tree s s'"
proof -
  obtain net git where w: "w_newRunner w = newRunner net git" "proper_tool git" "proper_shell (w_shell w)"
    using assms(2) by (auto simp: sound_world_def)
  have forges: "keeps_tree s s'" if "run_forges w dest archive_dir st arch kinds fl list_only fs s = Some (y, s')"
    for dest archive_dir st arch kinds fl fs s y s'
    using that unfolding run_forges_def
    by (rule for_each_keeps [where I = "keeps_tree s"])
      (auto split: if_splits dest: runForge_keeps [OF w(1,2)] intro: keeps_tree_trans)
  show ?thesis
    using assms(1)
    by (auto simp: runBackup_def Let_def split: sum.splits prod.splits
        dest!: resolveConfigPath_keeps LoadConfig_keeps [OF _ w(3)] forges intro: keeps_tree_trans)
qed

lemma main_run_keeps:
  assumes "main_run w cmd flags s = Some (code, s')" "sound_world w"
  shows "keeps_tree s s'"
proof -
  have man: "keeps_tree s s'" if "genMan w dir s = (y, s')" for dir y s'
  proof -
    obtain x s1 where m: "sys_mkdir_all (at_path s dir) s = (x, s1)" by fastforce
    have "keeps_tree s s1" using wf_mkdir_all [OF m] wf_at_path by (auto simp: keeps_tree_def)
    moreover have "keeps_tree s1 (snd (w_gen_man w dir s1))" using assms(2) by (simp add: sound_world_def)
    moreover have "s' = s1 \<or> s' = snd (w_gen_man w dir s1)"
      using that m by (auto simp: genMan_def split: sum.splits prod.splits)
    ultimately show ?thesis by (auto intro: keeps_tree_trans)
  qed
  obtain r where "root_command w ''dev'' cmd flags s = Some (r, s')"
    using assms(1) by (auto simp: main_run_def split: option.splits sum.splits)
  then show ?thesis
    by (auto simp: root_command_def split: command.splits
        dest: runBackup_keeps [OF _ assms(2)] runConfigInit_keeps man)
qed

section \<open>One invocation after another\<close>

text \<open>
  What a user does over time: run commands of the program, each in its own world and with its
  own flags, while the machine (its environment, its faults, the modes and times of files)
  changes in between.
\<close>

definition wf_machine :: "machine \<Rightarrow> bool" where
  "wf_machine m \<longleftrightarrow> plain_path (m_wd m) \<and> (\<forall>c. m_fault m c \<noteq> Some ENOENT)"

inductive session :: "os \<Rightarrow> os \<Rightarrow> bool" for s where
  session_start: "session s s"
| session_command: "session s s1 \<Longrightarrow> sound_world w \<Longrightarrow> main_run w cmd flags s1 = Some (code, s2) \<Longrightarrow> session s s2"
| session_machine: "session s s1 \<Longrightarrow> wf_machine m \<Longrightarrow> session s (s1\<lparr>os_mach := m\<rparr>)"

lemma wf_moved: "wf_os s \<Longrightarrow> wf_machine m \<Longrightarrow> wf_os (s\<lparr>os_mach := m\<rparr>)"
proof -
  have "look (s\<lparr>os_mach := m\<rparr>) = look s" by (simp add: look_def fun_eq_iff)
  then show "wf_os s \<Longrightarrow> wf_machine m \<Longrightarrow> wf_os (s\<lparr>os_mach := m\<rparr>)" by (simp add: wf_os_def wf_machine_def)
qed

lemma session_keeps: "session s s' \<Longrightarrow> keeps_tree s s'"
proof (induction rule: session.induct)
  case (session_command s1 w cmd flags code s2)
  then show ?case using main_run_keeps by (blast intro: keeps_tree_trans)
next
  case (session_machine s1 m)
  then show ?case by (auto simp: keeps_tree_def wf_moved)
qed simp

text \<open>
  The disk stays well-formed for ever: whatever commands of the program are run one after another,
  against whatever forges, every entry of the file system keeps a proper name and a
  directory above it. What holds of one run from a well-formed disk therefore holds of every later one.
  git, the token commands and the generator of the man pages must leave such a tree themselves.
\<close>

lemma session_well_formed:
  assumes "session s s'" and "wf_os s"
  shows "wf_os s'"
  using session_keeps [OF assms(1)] assms(2) by (simp add: keeps_tree_def)

lemma proper_sample_git: "proper_tool sample_git"
  by (auto simp: proper_tool_def sample_git_def proper_tree_def plain_name_def)

definition sample_viper :: viper where
  "sample_viper = \<lparr>vp_string = (\<lambda>k. if k = ''dest'' then ''/b'' else if k = ''state'' then ''all'' else if k = ''archive'' then ''none'' else []),
     vp_slice = (\<lambda>_. []), vp_int = (\<lambda>_. 1), vp_duration = (\<lambda>_. 0), vp_bool = (\<lambda>k. k = ''prune-removed'')\<rparr>"

definition sample_start :: world where
  "sample_start = (sample_world (sample_gh_net ''repo'' []))\<lparr>w_viper := (\<lambda>_ _ _. sample_viper)\<rparr>"

lemma proper_sample_shell: "proper_shell sample_shell"
proof -
  have "look (snd (exec_in sample_shell c [] s)) q = look s q" for c s q
    using map_of_subtree [of "[]" s q] map_of_graft [of "[]" "subtree [] s" q]
    by (simp add: exec_in_def sample_shell_def look_def graft_def record_cmd_def)
  moreover have "os_mach (snd (exec_in sample_shell c [] s)) = os_mach s" for c s
    by (simp add: exec_in_def sample_shell_def)
  ultimately show ?thesis by (simp add: proper_shell_def keeps_tree_def wf_os_def)
qed

lemma sound_sample_start: "sound_world sample_start"
  using proper_sample_git proper_sample_shell
  by (auto simp: sound_world_def sample_start_def sample_world_def)

lemma session_well_formed_witness:
  "\<exists>s'. main_run sample_start CmdRun (sample_flags\<lparr>fl_config := ''/b/keep''\<rparr>) sample_gone = Some (0, s') \<and>
     wf_os s' \<and> look s' [''b'', ''hub'', ''gone.git'', ''HEAD''] = None"
proof -
  let ?flags = "sample_flags\<lparr>fl_config := ''/b/keep''\<rparr>" and ?w = "sample_world (sample_gh_net ''repo'' [])"
  let ?cfg = "\<lparr>cf_Dest = ''/b'', cf_Forges = [sample_hub]\<rparr>"
  obtain s' where run: "runForge ?w sample_hub ''/b'' ''/b/archive'' StateAll ArchiveNone [] sample_flags False sample_gone = Some (Inr (), s')"
    and gone: "look s' [''b'', ''hub'', ''gone.git'', ''HEAD''] = None" by (rule sample_hub_run)
  have same: "runForge sample_start = runForge ?w" by (intro ext) (simp add: runForge_def sample_start_def Let_def cong: sum.case_cong option.case_cong if_cong)
  have path: "resolveConfigPath False ?flags sample_gone = (Inr ''/b/keep'', sample_gone)"
    by (simp add: resolveConfigPath_def expandHome_def has_prefix_def)
  have flags: "resolvedFlags sample_viper = sample_flags" by (simp add: resolvedFlags_def sample_viper_def sample_flags_def)
  have content: "sys_read_file (at_path sample_gone ''/b/keep'') sample_gone = Inr ''x''" by code_simp
  have loaded: "LoadConfig (w_yaml sample_start) sample_shell ''/b/keep'' sample_gone = (Inr ?cfg, sample_gone)"
    by (simp add: LoadConfig_def content sample_start_def sample_world_def load_forge_def resolveToken_def sample_hub_def knownForgeKinds_def Let_def)
  have world: "w_interactive sample_start = False" "w_viper sample_start f p s = sample_viper" "w_shell sample_start = sample_shell" for f p s
    by (simp_all add: sample_start_def sample_world_def)
  have parsed: "ParseState (fl_state sample_flags) = Inr StateAll" "ParseArchive (fl_archive sample_flags) = Inr ArchiveNone"
    "ParseMetadataKinds (fl_exportMetadata sample_flags) = Inr []" by code_simp+
  have paths: "resolveDestPaths sample_flags ?cfg False sample_gone = Inr (''/b'', ''/b/archive'')" by code_simp
  have "run_forges sample_start ''/b'' ''/b/archive'' StateAll ArchiveNone [] sample_flags False [sample_hub] sample_gone = Some (Inr (), s')"
    by (simp add: run_forges_def same run) (simp add: sample_flags_def)
  then have "main_run sample_start CmdRun ?flags sample_gone = Some (0, s')"
    by (simp add: main_run_def root_command_def runBackup_def world path flags parsed loaded paths)
  moreover from session_command [OF session_start sound_sample_start this] have "session sample_gone s'" .
  ultimately show ?thesis using session_well_formed [OF _ wf_sample_gone] gone by blast
qed

section \<open>All forges of a configuration\<close>









end
