(* ===== verification/Export_Suites.thy ===== *)
theory Export_Suites
  imports Acceptance Config
begin

text \<open>
  Exports from beginning to end: on a forge that answers and a directory that can be written,
  an export returns, and what it leaves in the directory is known exactly. With that the
  suites of the exporters (\<open>testing.go\<close>) are met.
\<close>

section \<open>A listing worked on completely\<close>

text \<open>
  \<open>P xs st\<close>: the state after the items \<open>xs\<close>. When every page is served and every item can be
  worked on, the loop returns, in the state after all of them.
\<close>

lemma for_each_all:
  assumes "\<And>xs x ys st. all = xs @ x # ys \<Longrightarrow> P xs st \<Longrightarrow> \<exists>st'. f x st = Some (Inr (), st') \<and> P (xs @ [x]) st'"
    and "all = us @ vs @ ws" "P us st"
  shows "\<exists>st'. for_each f vs st = Some (Inr (), st') \<and> P (us @ vs) st'"
  using assms(2,3)
proof (induction vs arbitrary: us st)
  case (Cons v vs)
  from assms(1) [of us v "vs @ ws", OF _ Cons.prems(2)] Cons.prems(1)
  obtain st1 where f: "f v st = Some (Inr (), st1)" and P: "P (us @ [v]) st1" by auto
  from Cons.IH [OF _ P] Cons.prems(1) f show ?case by auto
qed simp

lemma paged_total:
  assumes fetch: "\<And>p xs st. p < length ps \<Longrightarrow> P xs st \<Longrightarrow>
      \<exists>s1. fetch (Suc p) (snd st) = (Inr (ps ! p, Suc p = length ps), s1) \<and> P xs (fst st, s1)"
    and work: "\<And>xs x ys st. concat ps = xs @ x # ys \<Longrightarrow> P xs st \<Longrightarrow> \<exists>st'. f x st = Some (Inr (), st') \<and> P (xs @ [x]) st'"
    and start: "P [] st" and ne: "ps \<noteq> []"
  shows "\<exists>st'. paged fetch f st = Some (Inr (), st') \<and> P (concat ps) st'"
proof -
  have "\<exists>st'. for_pages (page_step fetch f) (Suc p) st = Some (Some (Inr (), st')) \<and> P (concat ps) st'"
    if "p < length ps" "P (concat (take p ps)) st" for p st
    using that
  proof (induction "length ps - p" arbitrary: p st rule: less_induct)
    case less
    obtain s1 where s1: "fetch (Suc p) (snd st) = (Inr (ps ! p, Suc p = length ps), s1)" "P (concat (take p ps)) (fst st, s1)"
      using fetch [OF less.prems] by blast
    have "concat ps = concat (take p ps) @ ps ! p @ concat (drop (Suc p) ps)"
      using less.prems(1) by (metis append_take_drop_id concat.simps(2) concat_append Cons_nth_drop_Suc)
    from for_each_all [where P = P and f = f and all = "concat ps", OF _ this s1(2)] work obtain st2
      where fe: "for_each f (ps ! p) (fst st, s1) = Some (Inr (), st2)" and P: "P (concat (take (Suc p) ps)) st2"
      using less.prems(1) by (fastforce simp: take_Suc_conv_app_nth)
    show ?case
    proof (cases "Suc p = length ps")
      case True
      then have "page_step fetch f (Suc p) st = Return (Some (Inr (), st2))" using s1(1) fe by (simp add: page_step_def)
      from for_pages_Return [of "page_step fetch f", OF this] P True show ?thesis by simp
    next
      case False
      then have "page_step fetch f (Suc p) st = Next st2" using s1(1) fe by (simp add: page_step_def)
      from for_pages_Next [of "page_step fetch f", OF this] less.hyps [of "Suc p" st2] False less.prems(1) P show ?thesis by simp
    qed
  qed
  from this [of 0 st] start ne show ?thesis by (auto simp: paged_def)
qed

section \<open>The issues of a GitHub repository\<close>

abbreviation gh_commentsURL :: "gh_client \<Rightarrow> string \<Rightarrow> int \<Rightarrow> nat \<Rightarrow> url" where
  "gh_commentsURL c path number page \<equiv>
     with_query [(''page'', show_nat page), (''per_page'', show_nat gh_pageSize)]
       (join_path (gh_BaseURL c) (''/repos/'' @ path @ ''/issues/'' @ itoa number @ ''/comments''))"

lemma gh_comments_served:
  assumes "serves net (gh_api c) (gh_commentsURL c path n) (dec_list dec_ghComment) ps" "full_pages gh_pageSize ps"
  shows "\<exists>s'. gh_fetchComments net c path n s = Some (Inr (concat ps), s')"
proof -
  have page: "by_size gh_pageSize (gh_fetchCommentsPage net c path n) (Suc p) s = (Inr (ps ! p, Suc p = length ps),
      s\<lparr>os_requests := os_requests s @ [\<lparr>rq_url = url_string (gh_commentsURL c path n (Suc p)), rq_headers = gh_api c\<rparr>]\<rparr>)"
    if p: "p < length ps" for p s
    using answers_get_json [OF serves_answers [OF assms(1) p], of s] full_pages_short [OF assms(2) p]
    by (simp add: by_size_def gh_fetchCommentsPage_def gh_getJSON_def in_context_def)
  have "ps \<noteq> []" using assms(1) by (simp add: serves_def)
  from paged_pages_appending [OF page this, where g = "\<lambda>x. [x]"] show ?thesis by (simp add: gh_fetchComments_def)
qed

text \<open>A directory in which every numbered file can be written.\<close>

definition writable_dir :: "string \<Rightarrow> os \<Rightarrow> bool" where
  "writable_dir dir s \<longleftrightarrow> look s (at_path s dir) = Some Dir \<and>
     (\<forall>n. let p = numbered_file dir n s in
        look s p \<noteq> Some Dir \<and> fault s (SysOpen p) = None \<and> fault s (SysWrite p) = None \<and> fault s (SysClose p) = None)"

lemma WriteIssue_total: "writable_dir dir s \<Longrightarrow> \<exists>s'. in_context ctx (WriteIssue dir i s) = (Inr (), s')"
  by (simp add: writable_dir_def Let_def in_context_def WriteIssue_alt sys_write_file_def)
    (simp add: numbered_file_def butlast_append)

lemma WritePullRequest_total: "writable_dir dir s \<Longrightarrow> \<exists>s'. in_context ctx (WritePullRequest dir p s) = (Inr (), s')"
  by (simp add: writable_dir_def Let_def in_context_def WritePullRequest_alt sys_write_file_def)
    (simp add: numbered_file_def butlast_append)

lemma numbered_not_dir: "numbered_file dir n s \<noteq> at_path s dir"
  by (simp add: numbered_file_def)

text \<open>What an export of numbered records leaves: the directory as it was, and a file for each record.\<close>

definition with_files :: "string \<Rightarrow> (int \<times> string) list \<Rightarrow> os \<Rightarrow> os \<Rightarrow> bool" where
  "with_files dir ts s s' \<longleftrightarrow> os_mach s' = os_mach s \<and>
     look s' = look s ++ map_of (map (\<lambda>(n, text). (numbered_file dir n s, File text)) (rev ts))"

lemma with_files_Nil: "with_files dir [] s s"
  by (simp add: with_files_def)

lemma with_files_reads: "with_files dir ts s s1 \<Longrightarrow> reads_only s1 s2 \<Longrightarrow> with_files dir ts s s2"
  by (simp add: with_files_def reads_only_look) (simp add: reads_only_def)

lemma with_files_trans:
  assumes "with_files dir ts s s1" "with_files dir us s1 s2"
  shows "with_files dir (ts @ us) s s2"
  using assms numbered_file_cong [of s1 s dir] by (simp add: with_files_def)

lemma with_files_written:
  assumes "in_context ctx (WriteIssue dir i s) = (Inr u, s')"
  shows "with_files dir [(i_number i, MarshalIndent (issue_json (full_issue i)))] s s'"
  using WriteIssue_written [OF assms] by (simp add: with_files_def)

lemma with_files_pull:
  assumes "in_context ctx (WritePullRequest dir p s) = (Inr u, s')"
  shows "with_files dir [(pr_number p, MarshalIndent (pull_request_json (full_pull_request p)))] s s'"
proof -
  have "sys_write_file (numbered_file dir (pr_number p) s) (MarshalIndent (pull_request_json (full_pull_request p))) s = (Inr (), s')"
    using assms by (auto simp: in_context_def WritePullRequest_alt split: sum.splits prod.splits)
  from write_file_look [OF this] show ?thesis by (auto simp: with_files_def)
qed

lemma with_files_writable: "with_files dir ts s s1 \<Longrightarrow> writable_dir dir s \<Longrightarrow> writable_dir dir s1"
proof -
  assume w: "with_files dir ts s s1" and d: "writable_dir dir s"
  have at: "at_path s1 dir = at_path s dir" "numbered_file dir n s1 = numbered_file dir n s" "fault s1 x = fault s x" for n x
    using w by (simp_all add: with_files_def at_path_def numbered_file_def fault_def)
  have "map_of (map (\<lambda>(n, text). (numbered_file dir n s, File text)) ts) (at_path s dir) = None" for ts
    by (auto simp: map_of_eq_None_iff numbered_not_dir [symmetric])
  moreover have "map_of (map (\<lambda>(n, text). (numbered_file dir n s, File text)) ts) p \<noteq> Some Dir" for ts p
    by (auto dest!: map_of_SomeD)
  ultimately show "writable_dir dir s1"
    using w d by (simp add: writable_dir_def at Let_def with_files_def map_add_def split: option.split) blast
qed

text \<open>A loop over records, each of which becomes some numbered files.\<close>

lemma numbered_export_total:
  assumes fetch: "\<And>p s. p < length ps \<Longrightarrow> \<exists>rs. fetch (Suc p) s = (Inr (ps ! p, Suc p = length ps), s\<lparr>os_requests := rs\<rparr>)"
    and work: "\<And>x s. x \<in> set (concat ps) \<Longrightarrow> writable_dir dir s \<Longrightarrow> \<exists>s'. g x s = Some (Inr (), s') \<and> with_files dir (files x) s s'"
    and "ps \<noteq> []" and dir: "writable_dir dir s"
  shows "\<exists>s'. acted (paged fetch (acting g) ((), s)) = Some (Inr (), s') \<and> with_files dir (concat (map files (concat ps))) s s'"
proof -
  let ?P = "\<lambda>xs (st :: unit \<times> os). with_files dir (concat (map files xs)) s (snd st)"
  have "\<exists>st'. paged fetch (acting g) ((), s) = Some (Inr (), st') \<and> ?P (concat ps) st'"
  proof (rule paged_total [where P = ?P])
    fix p xs and st :: "unit \<times> os" assume p: "p < length ps" and P: "?P xs st"
    have "reads_only (snd st) ((snd st)\<lparr>os_requests := rs\<rparr>)" for rs by (simp add: reads_only_def)
    with fetch [OF p, of "snd st"] show "\<exists>s1. fetch (Suc p) (snd st) = (Inr (ps ! p, Suc p = length ps), s1) \<and> ?P xs (fst st, s1)"
      using with_files_reads [OF P] by auto
  next
    fix xs x ys and st :: "unit \<times> os" assume split: "concat ps = xs @ x # ys" and P: "?P xs st"
    from work [of x "snd st"] split with_files_writable [OF P dir]
    obtain s2 where "g x (snd st) = Some (Inr (), s2)" "with_files dir (files x) (snd st) s2" by auto
    with with_files_trans [OF P] show "\<exists>st'. acting g x st = Some (Inr (), st') \<and> ?P (xs @ [x]) st'"
      by (simp add: acting_def)
  qed (use assms(3) in \<open>simp_all add: with_files_Nil\<close>)
  then show ?thesis by (auto simp: acted_def)
qed

definition gh_issue_files :: "(int \<Rightarrow> ghComment list) \<Rightarrow> ghIssue \<Rightarrow> (int \<times> string) list" where
  "gh_issue_files cs it =
     (if hi_PullRequest it \<noteq> None then []
      else [(hi_Number it, MarshalIndent (issue_json (gh_toIssue it (cs (hi_Number it)))))])"

lemma gh_issue_export_total:
  assumes "serves net (gh_api c) (gh_issuesURL c (repo_path r)) (dec_list dec_ghIssue) ps" and "full_pages gh_pageSize ps"
    and "\<And>it. it \<in> set (real_issues ps) \<Longrightarrow>
      serves net (gh_api c) (gh_commentsURL c (repo_path r) (hi_Number it)) (dec_list dec_ghComment) (cps (hi_Number it)) \<and>
      full_pages gh_pageSize (cps (hi_Number it))"
    and "writable_dir dir s"
  shows "\<exists>s'. exp_export (gh_IssueExporter net c) r dir s = Some (Inr (), s') \<and>
    with_files dir (concat (map (gh_issue_files (\<lambda>n. concat (cps n))) (concat ps))) s s'"
proof -
  let ?path = "repo_path r" and ?cs = "\<lambda>n. concat (cps n)"
  let ?fetch = "until_short gh_pageSize (gh_fetchIssuesPage net c ?path)"
  have "\<exists>s'. acted (paged ?fetch (acting (gh_exportIssue net c ?path dir)) ((), s)) = Some (Inr (), s') \<and>
      with_files dir (concat (map (gh_issue_files ?cs) (concat ps))) s s'"
  proof (rule numbered_export_total)
    fix p s assume p: "p < length ps"
    from answers_get_json [OF serves_answers [OF assms(1) p], of s] full_pages_short [OF assms(2) p]
    show "\<exists>rs. ?fetch (Suc p) s = (Inr (ps ! p, Suc p = length ps), s\<lparr>os_requests := rs\<rparr>)"
      by (simp add: until_short_def gh_fetchIssuesPage_def gh_getJSON_def gh_issuesURL_def in_context_def gh_pageSize_def) force
  next
    fix it s assume it: "it \<in> set (concat ps)" and w: "writable_dir dir s"
    show "\<exists>s'. gh_exportIssue net c ?path dir it s = Some (Inr (), s') \<and> with_files dir (gh_issue_files ?cs it) s s'"
    proof (cases "hi_PullRequest it")
      case (Some j)
      then show ?thesis by (simp add: gh_exportIssue_def gh_issue_files_def with_files_Nil)
    next
      case None
      with it have "it \<in> set (real_issues ps)" by (simp add: real_issues_def)
      then obtain s1 where f: "gh_fetchComments net c ?path (hi_Number it) s = Some (Inr (?cs (hi_Number it)), s1)"
        using gh_comments_served assms(3) by blast
      note read = with_files_reads [OF with_files_Nil gh_fetchComments_reads [OF f]]
      obtain s2 where wrote: "in_context (''write issue '' @ ?path @ ''#'' @ itoa (hi_Number it))
          (WriteIssue dir (gh_toIssue it (?cs (hi_Number it))) s1) = (Inr (), s2)"
        using WriteIssue_total [OF with_files_writable [OF read w]] by blast
      from with_files_trans [OF read with_files_written [OF wrote]] None f wrote show ?thesis
        by (simp add: gh_exportIssue_def gh_issue_files_def full_gh_issue) (simp add: gh_toIssue_def)
    qed
  qed (use assms(1,4) in \<open>simp_all add: serves_def\<close>)
  then show ?thesis by (simp add: gh_IssueExporter_def)
qed

text \<open>C20:
  A GitHub issue export finishes and is exact: when the forge serves the issues and the comments
  of each, over however many pages, and the directory can be written, the export returns without
  error, every issue that is not a pull request stands in its numbered file with all
  its comments, and nothing else on the machine has changed.
\<close>

theorem gh_issue_export_exact:
  assumes "serves net (gh_api c) (gh_issuesURL c (repo_path r)) (dec_list dec_ghIssue) ps" and "full_pages gh_pageSize ps"
    and "\<And>it. it \<in> set (real_issues ps) \<Longrightarrow>
      serves net (gh_api c) (gh_commentsURL c (repo_path r) (hi_Number it)) (dec_list dec_ghComment) (cps (hi_Number it)) \<and>
      full_pages gh_pageSize (cps (hi_Number it))"
    and "writable_dir dir s"
  shows "\<exists>s'. exp_export (gh_IssueExporter net c) r dir s = Some (Inr (), s') \<and>
    with_files dir (concat (map (gh_issue_files (\<lambda>n. concat (cps n))) (concat ps))) s s'"
  by (rule gh_issue_export_total [OF assms(1,2) _ assms(4)]) (rule assms(3))

section \<open>Reading an export back\<close>

text \<open>\<open>os.ReadDir\<close>, of which the suites use the names.\<close>

definition sys_read_dir :: "fpath \<Rightarrow> os \<Rightarrow> oserr + string list" where
  "sys_read_dir p s =
     (case fault s (SysReadDir p) of
        Some e \<Rightarrow> Inl e
      | None \<Rightarrow>
          if look s p \<noteq> Some Dir then Inl (if look s p = None then absent_err s p else ENOTDIR)
          else Inr (sort (remdups (map last (filter (\<lambda>q. q \<noteq> [] \<and> butlast q = p) (map fst (os_tree s)))))))"

definition read_files :: "(json \<Rightarrow> 'a option) \<Rightarrow> string \<Rightarrow> os \<Rightarrow> 'a list option" where
  "read_files dec dir s =
     (case sys_read_dir (at_path s dir) s of
        Inl e \<Rightarrow> None
      | Inr names \<Rightarrow>
          those (map (\<lambda>n. case sys_read_file (at_path s (fpjoin [dir, n])) s of
                            Inl e \<Rightarrow> None
                          | Inr data \<Rightarrow> Option.bind (read_json data) dec) names))"

definition readIssues :: "string \<Rightarrow> os \<Rightarrow> issue list option" where
  "readIssues dir s = read_files read_issue dir s"

definition readPullRequests :: "string \<Rightarrow> os \<Rightarrow> pull_request list option" where
  "readPullRequests dir s = read_files read_pull_request dir s"

lemma sys_read_dir_names:
  assumes "fault s (SysReadDir p) = None" "look s p = Some Dir"
  shows "\<exists>names. sys_read_dir p s = Inr names \<and> set names = {n. look s (p @ [n]) \<noteq> None}"
proof -
  have "last ` {q \<in> fst ` set (os_tree s). q \<noteq> [] \<and> butlast q = p} = {n. p @ [n] \<in> fst ` set (os_tree s)}"
  proof (intro equalityI subsetI)
    fix n assume "n \<in> last ` {q \<in> fst ` set (os_tree s). q \<noteq> [] \<and> butlast q = p}"
    then obtain q where "q \<in> fst ` set (os_tree s)" "q \<noteq> []" "butlast q = p" "n = last q" by blast
    then show "n \<in> {n. p @ [n] \<in> fst ` set (os_tree s)}" using append_butlast_last_id [of q] by simp
  next
    fix n assume "n \<in> {n. p @ [n] \<in> fst ` set (os_tree s)}"
    then have "p @ [n] \<in> {q \<in> fst ` set (os_tree s). q \<noteq> [] \<and> butlast q = p}" by simp
    then show "n \<in> last ` {q \<in> fst ` set (os_tree s). q \<noteq> [] \<and> butlast q = p}" by (metis (mono_tags, lifting) image_eqI last_snoc)
  qed
  moreover have "look s (p @ [n]) \<noteq> None \<longleftrightarrow> p @ [n] \<in> fst ` set (os_tree s)" for n by (rule look_in_tree) simp
  ultimately show ?thesis using assms by (auto simp: sys_read_dir_def)
qed

lemma those_all: "\<forall>x \<in> set xs. f x \<noteq> None \<Longrightarrow> \<exists>ys. those (map f xs) = Some ys \<and> set ys = {y. \<exists>x \<in> set xs. f x = Some y}"
  by (induction xs) auto

text \<open>Numbered files written into an empty directory are read back, each of them and nothing else.\<close>

lemma read_files_back:
  assumes w: "with_files dir (map (\<lambda>x. (num x, MarshalIndent (enc x))) xs) s s'" and quiet: "\<forall>c. fault s c = None"
    and dir: "look s (at_path s dir) = Some Dir" and empty: "\<forall>n. look s (at_path s dir @ [n]) = None"
    and nums: "distinct (map num xs)" and dec: "\<And>x. x \<in> set xs \<Longrightarrow> dec (enc x) = Some x"
  shows "\<exists>ys. read_files dec dir s' = Some ys \<and> set ys = set xs"
proof -
  define files where "files = map (\<lambda>(n, text). (numbered_file dir n s, File text)) (rev (map (\<lambda>x. (num x, MarshalIndent (enc x))) xs))"
  have at: "at_path s' p = at_path s p" "fault s' c = None" for p c
    using w quiet by (simp_all add: with_files_def at_path_def fault_def)
  have look': "look s' = look s ++ map_of files" using w by (simp add: with_files_def files_def)
  have keys: "distinct (map fst files)"
    using nums by (simp add: files_def comp_def distinct_map inj_on_def rev_map [symmetric])
  have members: "(q, m) \<in> set files \<longleftrightarrow> (\<exists>x \<in> set xs. q = numbered_file dir (num x) s \<and> m = File (MarshalIndent (enc x)))" for q m
    by (auto simp: files_def)
  have "look s' (at_path s dir @ [n]) = map_of files (at_path s dir @ [n])" for n
    unfolding look' using empty by (simp add: map_add_def split: option.split)
  then have content: "look s' (at_path s dir @ [n]) = Some m \<longleftrightarrow> (\<exists>x \<in> set xs. n = itoa (num x) @ ''.json'' \<and> m = File (MarshalIndent (enc x)))" for n m
    by (simp add: map_of_eq_Some_iff [OF keys] members numbered_file_def)
  have "look s' (at_path s dir) = Some Dir"
    unfolding look' using dir by (auto simp: map_add_def members numbered_file_def split: option.split dest!: map_of_SomeD)
  from sys_read_dir_names [of s', OF at(2) this] obtain names
    where names: "sys_read_dir (at_path s dir) s' = Inr names" "set names = (\<lambda>x. itoa (num x) @ ''.json'') ` set xs"
    using content by fastforce
  let ?read = "\<lambda>n. case sys_read_file (at_path s (fpjoin [dir, n])) s' of Inl e \<Rightarrow> None | Inr data \<Rightarrow> Option.bind (read_json data) dec"
  have read: "?read (itoa (num x) @ ''.json'') = Some x" if "x \<in> set xs" for x
  proof -
    have "look s' (at_path s dir @ [itoa (num x) @ ''.json'']) = Some (File (MarshalIndent (enc x)))"
      using content that by blast
    then show ?thesis
      using dec [OF that] by (simp add: at_kind [OF plain_itoa_json] sys_read_file_def at(2) read_json_back)
  qed
  then have "\<forall>n \<in> set names. ?read n \<noteq> None" unfolding names(2) by auto
  from those_all [OF this] obtain ys where "those (map ?read names) = Some ys" "set ys = {y. \<exists>n \<in> set names. ?read n = Some y}" by blast
  moreover have "{y. \<exists>n \<in> set names. ?read n = Some y} = set xs" unfolding names(2) using read by force
  ultimately show ?thesis by (simp add: read_files_def at(1) names(1))
qed

section \<open>The suite of every issue exporter\<close>

definition is_zero :: "time \<Rightarrow> bool" where
  "is_zero t \<longleftrightarrow> t = ''0001-01-01T00:00:00Z''"

definition TestIssueOpenTitle :: string where "TestIssueOpenTitle = ''open issue''"
definition TestIssueClosedTitle :: string where "TestIssueClosedTitle = ''closed issue''"
definition TestIssueCommentBody :: string where "TestIssueCommentBody = ''a comment on the open issue''"

definition findIssueByTitle :: "issue list \<Rightarrow> string \<Rightarrow> issue option" where
  "findIssueByTitle is title = find (\<lambda>i. i_title i = title) is"

text \<open>\<open>require.NoError\<close> on the export of the active repository, then the assertions on what it left.\<close>

definition exports :: "metadata_exporter \<Rightarrow> string \<Rightarrow> os \<Rightarrow> (os \<Rightarrow> bool) \<Rightarrow> bool" where
  "exports exp dir s P =
     (case exp_export exp \<lparr>repo_path = TestActiveRepoPath, repo_archived = False, repo_empty = False\<rparr> dir s of
        Some (Inr _, s') \<Rightarrow> P s' | _ \<Rightarrow> False)"

definition open_issue_ok :: "issue \<Rightarrow> bool" where
  "open_issue_ok i \<longleftrightarrow>
     i_state i = ''open'' \<and> i_author i \<noteq> [] \<and> \<not> is_zero (i_created_at i) \<and> \<not> is_zero (i_updated_at i) \<and> i_closed_at i = None \<and>
     (case i_comments i of
        Some [c] \<Rightarrow> c_body c = TestIssueCommentBody \<and> c_author c \<noteq> [] \<and> \<not> is_zero (c_created_at c)
      | _ \<Rightarrow> False)"

definition closed_issue_ok :: "issue \<Rightarrow> bool" where
  "closed_issue_ok i \<longleftrightarrow> i_state i = ''closed'' \<and> i_closed_at i \<noteq> None \<and> i_comments i = Some []"

definition TestIssueExporter :: "metadata_exporter \<Rightarrow> string \<Rightarrow> os \<Rightarrow> bool" where
  "TestIssueExporter exp dir s \<longleftrightarrow>
     exp_kind exp = MetadataIssues \<and>
     exports exp dir s (\<lambda>s1.
       case readIssues dir s1 of
         None \<Rightarrow> False
       | Some issues \<Rightarrow>
           (case findIssueByTitle issues TestIssueOpenTitle of None \<Rightarrow> False | Some i \<Rightarrow> open_issue_ok i) \<and>
           (case findIssueByTitle issues TestIssueClosedTitle of None \<Rightarrow> False | Some i \<Rightarrow> closed_issue_ok i))"

text \<open>The records a suite expects are found by their titles.\<close>

lemma find_titled:
  assumes "set ys = set xs" "title \<in> t ` set xs" "\<And>x. x \<in> set xs \<Longrightarrow> t x = title \<Longrightarrow> P x"
  shows "case find (\<lambda>x. t x = title) ys of None \<Rightarrow> False | Some x \<Rightarrow> P x"
proof (cases "find (\<lambda>x. t x = title) ys")
  case None
  with assms(1,2) show ?thesis by (auto simp: find_None_iff)
next
  case (Some y)
  then have "y \<in> set ys" "t y = title" by (auto simp: find_Some_iff)
  with assms(1,3) Some show ?thesis by simp
qed

definition fixture_issues :: "issue list \<Rightarrow> bool" where
  "fixture_issues is \<longleftrightarrow>
     TestIssueOpenTitle \<in> i_title ` set is \<and> TestIssueClosedTitle \<in> i_title ` set is \<and>
     list_all (\<lambda>i. (i_title i = TestIssueOpenTitle \<longrightarrow> open_issue_ok i) \<and> (i_title i = TestIssueClosedTitle \<longrightarrow> closed_issue_ok i)) is"

text \<open>An empty directory on a machine that fails no call, as the suites start with.\<close>

definition fresh_dir :: "string \<Rightarrow> os \<Rightarrow> bool" where
  "fresh_dir dir s \<longleftrightarrow> (\<forall>c. fault s c = None) \<and> look s (at_path s dir) = Some Dir \<and> (\<forall>n. look s (at_path s dir @ [n]) = None)"

lemma fresh_writable: "fresh_dir dir s \<Longrightarrow> writable_dir dir s"
  by (simp add: fresh_dir_def writable_dir_def numbered_file_def Let_def)

text \<open>The fixture issues as the forge serves them, each with the comments it serves for its number.\<close>

definition fixture_gh_issues :: "(int \<Rightarrow> ghComment list) \<Rightarrow> ghIssue list \<Rightarrow> bool" where
  "fixture_gh_issues cs its \<longleftrightarrow>
     TestIssueOpenTitle \<in> hi_Title ` set its \<and> TestIssueClosedTitle \<in> hi_Title ` set its \<and>
     list_all (\<lambda>it.
       (hi_Title it = TestIssueOpenTitle \<longrightarrow>
          hi_State it = ''open'' \<and> hi_User it \<noteq> [] \<and> \<not> is_zero (hi_CreatedAt it) \<and> \<not> is_zero (hi_UpdatedAt it) \<and> hi_ClosedAt it = None \<and>
          (case cs (hi_Number it) of
             [c] \<Rightarrow> hc_Body c = TestIssueCommentBody \<and> hc_User c \<noteq> [] \<and> \<not> is_zero (hc_CreatedAt c) | _ \<Rightarrow> False)) \<and>
       (hi_Title it = TestIssueClosedTitle \<longrightarrow> hi_State it = ''closed'' \<and> hi_ClosedAt it \<noteq> None \<and> cs (hi_Number it) = [])) its"

lemma single_case: "(case xs of [a] \<Rightarrow> P a | _ \<Rightarrow> False) \<longleftrightarrow> (\<exists>a. xs = [a] \<and> P a)"
  by (cases xs; cases "tl xs") auto

lemma fixture_gh_issues_converted:
  assumes "fixture_gh_issues cs its"
  shows "fixture_issues (map (\<lambda>it. gh_toIssue it (cs (hi_Number it))) its)"
  using assms unfolding fixture_gh_issues_def fixture_issues_def
  by (fastforce simp: list_all_iff single_case gh_toIssue_def open_issue_ok_def closed_issue_ok_def image_iff)

text \<open>C24:
  GitHub's issue exporter meets the specification of an issue exporter: on a forge whose answers hold
  the fixture issues and their comments, among any others, pull requests included, and over however many
  pages, every assertion of the suite holds of what it writes into an empty directory, read back by
  the JSON grammar. The fixtures are conditions on the fields the forge serves.
\<close>

theorem gh_meets_TestIssueExporter:
  assumes "serves net (gh_api c) (gh_issuesURL c TestActiveRepoPath) (dec_list dec_ghIssue) ps" and "full_pages gh_pageSize ps"
    and "\<And>it. it \<in> set (real_issues ps) \<Longrightarrow>
      serves net (gh_api c) (gh_commentsURL c TestActiveRepoPath (hi_Number it)) (dec_list dec_ghComment) (cps (hi_Number it)) \<and>
      full_pages gh_pageSize (cps (hi_Number it))"
    and "distinct (map hi_Number (real_issues ps))"
    and "fixture_gh_issues (\<lambda>n. concat (cps n)) (real_issues ps)"
    and "fresh_dir dir s"
  shows "TestIssueExporter (gh_IssueExporter net c) dir s"
proof -
  let ?is = "map (\<lambda>it. gh_toIssue it (concat (cps (hi_Number it)))) (real_issues ps)"
  let ?r = "\<lparr>repo_path = TestActiveRepoPath, repo_archived = False, repo_empty = False\<rparr>"
  have number: "i_number (gh_toIssue it cs) = hi_Number it" for it cs by (simp add: gh_toIssue_def)
  obtain s' where run: "exp_export (gh_IssueExporter net c) ?r dir s = Some (Inr (), s')"
    and "with_files dir (concat (map (gh_issue_files (\<lambda>n. concat (cps n))) (concat ps))) s s'"
    using gh_issue_export_total [of net c ?r ps cps dir s] assms(1-3) fresh_writable [OF assms(6)] by auto
  moreover have "concat (map (gh_issue_files (\<lambda>n. concat (cps n))) its) = map (\<lambda>i. (i_number i, MarshalIndent (issue_json i)))
      (map (\<lambda>it. gh_toIssue it (concat (cps (hi_Number it)))) (filter (\<lambda>it. hi_PullRequest it = None) its))" for its
    by (induction its) (simp_all add: gh_issue_files_def number)
  ultimately have "with_files dir (map (\<lambda>i. (i_number i, MarshalIndent (issue_json i))) ?is) s s'" by (simp only: real_issues_def)
  from read_files_back [OF this, of read_issue] obtain "is" where read: "readIssues dir s' = Some is" "set is = set ?is"
    using assms(4,6) by (auto simp: fresh_dir_def read_issue_back readIssues_def comp_def number)
  note fits = fixture_gh_issues_converted [OF assms(5), unfolded fixture_issues_def list_all_iff]
  have "case findIssueByTitle is TestIssueOpenTitle of None \<Rightarrow> False | Some i \<Rightarrow> open_issue_ok i"
    unfolding findIssueByTitle_def by (rule find_titled [OF read(2)]) (use fits in blast)+
  moreover have "case findIssueByTitle is TestIssueClosedTitle of None \<Rightarrow> False | Some i \<Rightarrow> closed_issue_ok i"
    unfolding findIssueByTitle_def by (rule find_titled [OF read(2)]) (use fits in blast)+
  ultimately show ?thesis
    using run read(1) by (simp add: TestIssueExporter_def exports_def gh_IssueExporter_def)
qed

text \<open>The fixture on a GitHub: an open issue with a comment, a closed one without, and a pull request.\<close>

definition fixture_issue_json :: "int \<Rightarrow> string \<Rightarrow> string \<Rightarrow> (string \<times> json) list \<Rightarrow> json" where
  "fixture_issue_json n title st fs =
     JObj ([(''number'', JNum n), (''title'', JStr title), (''user'', JObj [(''login'', JStr ''me'')]), (''state'', JStr st),
       (''created_at'', JStr ''2024-01-01T00:00:00Z''), (''updated_at'', JStr ''2024-01-02T00:00:00Z'')] @ fs)"

definition fixture_issue_net :: net where
  "fixture_issue_net =
     \<lparr>net_parse = (\<lambda>u. Some (sample_url ''api.github.com'')),
      net_do = (\<lambda>rq. answer 200 (JArr
        (if has_prefix (rq_url rq) ''https://api.github.com/repos/team/active-repo/issues?'' then
           [fixture_issue_json 1 ''open issue'' ''open'' [],
            fixture_issue_json 2 ''closed issue'' ''closed'' [(''closed_at'', JStr ''2024-01-03T00:00:00Z'')],
            fixture_issue_json 3 ''a change'' ''open'' [(''pull_request'', JObj [])]]
         else if has_prefix (rq_url rq) ''https://api.github.com/repos/team/active-repo/issues/1/comments?'' then
           [JObj [(''user'', JObj [(''login'', JStr ''you'')]), (''body'', JStr ''a comment on the open issue''), (''created_at'', JStr ''2024-01-02T00:00:00Z'')]]
         else [])))\<rparr>"

definition fixture_ghIssue :: "int \<Rightarrow> string \<Rightarrow> string \<Rightarrow> time option \<Rightarrow> json option \<Rightarrow> ghIssue" where
  "fixture_ghIssue n title st closed pr =
     \<lparr>hi_Number = n, hi_Title = title, hi_Body = [], hi_User = ''me'', hi_State = st, hi_Labels = [], hi_CreatedAt = ''2024-01-01T00:00:00Z'',
      hi_UpdatedAt = ''2024-01-02T00:00:00Z'', hi_ClosedAt = closed, hi_PullRequest = pr\<rparr>"

definition fixture_pages :: "ghIssue list list" where
  "fixture_pages = [[fixture_ghIssue 1 ''open issue'' ''open'' None None,
     fixture_ghIssue 2 ''closed issue'' ''closed'' (Some ''2024-01-03T00:00:00Z'') None, fixture_ghIssue 3 ''a change'' ''open'' None (Some (JObj []))]]"

definition fixture_comments :: "int \<Rightarrow> ghComment list list" where
  "fixture_comments n = [if n = 1 then [\<lparr>hc_User = ''you'', hc_Body = ''a comment on the open issue'', hc_CreatedAt = ''2024-01-02T00:00:00Z''\<rparr>] else []]"

definition fixture_dir_os :: os where
  "fixture_dir_os = quiet_os [([''t''], Dir), ([''t'', ''issues''], Dir)]"

lemma fixture_issues_served:
  "serves fixture_issue_net (gh_api sample_gh) (gh_issuesURL sample_gh TestActiveRepoPath) (dec_list dec_ghIssue) fixture_pages"
  by code_simp

lemma fixture_comments_served:
  assumes "it \<in> set (real_issues fixture_pages)"
  shows "serves fixture_issue_net (gh_api sample_gh) (gh_commentsURL sample_gh TestActiveRepoPath (hi_Number it)) (dec_list dec_ghComment) (fixture_comments (hi_Number it)) \<and>
    full_pages gh_pageSize (fixture_comments (hi_Number it))"
proof -
  have "hi_Number it = 1 \<or> hi_Number it = 2" using assms by (auto simp: real_issues_def fixture_pages_def fixture_ghIssue_def)
  moreover have "serves fixture_issue_net (gh_api sample_gh) (gh_commentsURL sample_gh TestActiveRepoPath 1) (dec_list dec_ghComment) (fixture_comments 1)" by code_simp
  moreover have "serves fixture_issue_net (gh_api sample_gh) (gh_commentsURL sample_gh TestActiveRepoPath 2) (dec_list dec_ghComment) (fixture_comments 2)" by code_simp
  moreover have "full_pages gh_pageSize (fixture_comments n)" for n by (simp add: full_pages_def fixture_comments_def gh_pageSize_def)
  ultimately show ?thesis by auto
qed

lemma fixture_fresh: "fresh_dir ''/t/issues'' fixture_dir_os"
proof -
  have "at_path fixture_dir_os ''/t/issues'' = [''t'', ''issues'']" by code_simp
  then show ?thesis
    by (simp add: fresh_dir_def) (simp add: fault_def look_def fixture_dir_os_def quiet_os_def quiet_machine_def)
qed

lemma fixture_full: "full_pages gh_pageSize fixture_pages"
  by (simp add: full_pages_def fixture_pages_def gh_pageSize_def)

lemma gh_meets_TestIssueExporter_witness: "TestIssueExporter (gh_IssueExporter fixture_issue_net sample_gh) ''/t/issues'' fixture_dir_os"
proof (rule gh_meets_TestIssueExporter [OF fixture_issues_served fixture_full fixture_comments_served _ _ fixture_fresh])
  show "distinct (map hi_Number (real_issues fixture_pages))"
    by (simp add: real_issues_def fixture_pages_def fixture_ghIssue_def)
  show "fixture_gh_issues (\<lambda>n. concat (fixture_comments n)) (real_issues fixture_pages)"
    by code_simp
qed

lemma gh_issue_export_exact_witness:
  "\<exists>s'. exp_export (gh_IssueExporter fixture_issue_net sample_gh) (sample_repo TestActiveRepoPath False False) ''/t/issues'' fixture_dir_os = Some (Inr (), s') \<and>
     look s' [''t'', ''issues'', ''2.json''] \<noteq> None \<and> look s' [''t'', ''issues'', ''3.json''] = None"
proof -
  have path: "repo_path (sample_repo TestActiveRepoPath False False) = TestActiveRepoPath" by (simp add: sample_repo_def)
  obtain s' where run: "exp_export (gh_IssueExporter fixture_issue_net sample_gh) (sample_repo TestActiveRepoPath False False) ''/t/issues'' fixture_dir_os = Some (Inr (), s')"
    and w: "with_files ''/t/issues'' (concat (map (gh_issue_files (\<lambda>n. concat (fixture_comments n))) (concat fixture_pages))) fixture_dir_os s'"
    using gh_issue_export_exact [of fixture_issue_net sample_gh "sample_repo TestActiveRepoPath False False", unfolded path,
      OF fixture_issues_served fixture_full fixture_comments_served fresh_writable [OF fixture_fresh]] by blast
  have "numbered_file ''/t/issues'' n fixture_dir_os = [''t'', ''issues'', itoa n @ ''.json'']" for n
  proof -
    have "at_path fixture_dir_os ''/t/issues'' = [''t'', ''issues'']" by code_simp
    then show ?thesis by (simp add: numbered_file_def)
  qed
  moreover have "itoa 1 = ''1''" "itoa 2 = ''2''" by code_simp+
  ultimately have "look s' [''t'', ''issues'', ''2.json''] \<noteq> None" "look s' [''t'', ''issues'', ''3.json''] = None"
    using w by (simp_all add: with_files_def gh_issue_files_def fixture_pages_def fixture_ghIssue_def)
      (simp add: look_def fixture_dir_os_def quiet_os_def)
  with run show ?thesis by blast
qed

section \<open>Pull requests\<close>

abbreviation gh_pullsURL :: "gh_client \<Rightarrow> string \<Rightarrow> nat \<Rightarrow> url" where
  "gh_pullsURL c path page \<equiv>
     with_query [(''state'', ''all''), (''per_page'', show_nat gh_pageSize), (''page'', show_nat page)]
       (join_path (gh_BaseURL c) (''/repos/'' @ path @ ''/pulls''))"

abbreviation gh_reviewsURL :: "gh_client \<Rightarrow> string \<Rightarrow> int \<Rightarrow> nat \<Rightarrow> url" where
  "gh_reviewsURL c path number page \<equiv>
     with_query [(''page'', show_nat page), (''per_page'', show_nat gh_pageSize)]
       (join_path (gh_BaseURL c) (''/repos/'' @ path @ ''/pulls/'' @ itoa number @ ''/comments''))"

lemma gh_reviews_served:
  assumes "serves net (gh_api c) (gh_reviewsURL c path n) (dec_list dec_ghReviewComment) ps" "full_pages gh_pageSize ps"
  obtains s' where "gh_fetchReviewComments net c path n s = Some (Inr (map gh_toReviewComment (concat ps)), s')" "reads_only s s'"
proof -
  have page: "by_size gh_pageSize (gh_fetchReviewCommentsPage net c path n) (Suc p) s = (Inr (ps ! p, Suc p = length ps),
      s\<lparr>os_requests := os_requests s @ [\<lparr>rq_url = url_string (gh_reviewsURL c path n (Suc p)), rq_headers = gh_api c\<rparr>]\<rparr>)"
    if p: "p < length ps" for p s
    using answers_get_json [OF serves_answers [OF assms(1) p], of s] full_pages_short [OF assms(2) p]
    by (simp add: by_size_def gh_fetchReviewCommentsPage_def gh_getJSON_def in_context_def)
  have "ps \<noteq> []" using assms(1) by (simp add: serves_def)
  from paged_pages_appending [OF page this, where g = "\<lambda>x. [gh_toReviewComment x]"]
  have "\<exists>s'. gh_fetchReviewComments net c path n s = Some (Inr (concat (map (\<lambda>x. [gh_toReviewComment x]) (concat ps))), s')"
    by (simp add: gh_fetchReviewComments_def)
  then obtain s' where f: "gh_fetchReviewComments net c path n s = Some (Inr (concat (map (\<lambda>x. [gh_toReviewComment x]) (concat ps))), s')"
    by blast
  moreover have "concat (map (\<lambda>x. [gh_toReviewComment x]) xs) = map gh_toReviewComment xs" for xs by (induction xs) simp_all
  moreover have "reads_only s s'"
    using f unfolding gh_fetchReviewComments_def by (rule collected_appending_reads) (simp add: by_size_snd gh_fetches_read)
  ultimately show thesis using that by simp
qed

text \<open>What is written for a pull request: its record, with an empty list for no comments.\<close>

definition gh_pull_record :: "(int \<Rightarrow> ghReviewComment list) \<Rightarrow> ghPullRequest \<Rightarrow> pull_request" where
  "gh_pull_record cs it = full_pull_request (gh_toPullRequest it (map gh_toReviewComment (cs (hp_Number it))))"

definition gh_pull_file :: "(int \<Rightarrow> ghReviewComment list) \<Rightarrow> ghPullRequest \<Rightarrow> int \<times> string" where
  "gh_pull_file cs it = (hp_Number it, MarshalIndent (pull_request_json (gh_pull_record cs it)))"

lemma gh_pull_export_total:
  assumes "serves net (gh_api c) (gh_pullsURL c (repo_path r)) (dec_list dec_ghPullRequest) ps" and "full_pages gh_pageSize ps"
    and "\<And>it. it \<in> set (concat ps) \<Longrightarrow>
      serves net (gh_api c) (gh_reviewsURL c (repo_path r) (hp_Number it)) (dec_list dec_ghReviewComment) (cps (hp_Number it)) \<and>
      full_pages gh_pageSize (cps (hp_Number it))"
    and "writable_dir dir s"
  shows "\<exists>s'. exp_export (gh_PullRequestExporter net c) r dir s = Some (Inr (), s') \<and>
    with_files dir (map (gh_pull_file (\<lambda>n. concat (cps n))) (concat ps)) s s'"
proof -
  let ?path = "repo_path r" and ?cs = "\<lambda>n. concat (cps n)"
  let ?fetch = "until_short gh_pageSize (gh_fetchPullsPage net c ?path)"
  have "\<exists>s'. acted (paged ?fetch (acting (gh_exportPullRequest net c ?path dir)) ((), s)) = Some (Inr (), s') \<and>
      with_files dir (concat (map (\<lambda>it. [gh_pull_file ?cs it]) (concat ps))) s s'"
  proof (rule numbered_export_total)
    fix p s assume p: "p < length ps"
    from answers_get_json [OF serves_answers [OF assms(1) p], of s] full_pages_short [OF assms(2) p]
    show "\<exists>rs. ?fetch (Suc p) s = (Inr (ps ! p, Suc p = length ps), s\<lparr>os_requests := rs\<rparr>)"
      by (simp add: until_short_def gh_fetchPullsPage_def gh_getJSON_def in_context_def gh_pageSize_def) force
  next
    fix it s assume it: "it \<in> set (concat ps)" and w: "writable_dir dir s"
    obtain s1 where f: "gh_fetchReviewComments net c ?path (hp_Number it) s = Some (Inr (map gh_toReviewComment (?cs (hp_Number it))), s1)"
      and r: "reads_only s s1" using gh_reviews_served assms(3) [OF it] by blast
    note read = with_files_reads [OF with_files_Nil r]
    let ?pr = "gh_toPullRequest it (map gh_toReviewComment (?cs (hp_Number it)))"
    obtain s2 where wrote: "in_context (''write pull request '' @ ?path @ ''#'' @ itoa (hp_Number it)) (WritePullRequest dir ?pr s1) = (Inr (), s2)"
      using WritePullRequest_total [OF with_files_writable [OF read w]] by blast
    have "pr_number ?pr = hp_Number it" by (simp add: gh_toPullRequest_def)
    with with_files_trans [OF read with_files_pull [OF wrote]] f wrote
    show "\<exists>s'. gh_exportPullRequest net c ?path dir it s = Some (Inr (), s') \<and> with_files dir [gh_pull_file ?cs it] s s'"
      by (simp add: gh_exportPullRequest_def gh_pull_file_def gh_pull_record_def)
  qed (use assms(1,4) in \<open>simp_all add: serves_def\<close>)
  moreover have "concat (map (\<lambda>it. [gh_pull_file ?cs it]) its) = map (gh_pull_file ?cs) its" for its by (induction its) simp_all
  ultimately show ?thesis by (simp add: gh_PullRequestExporter_def)
qed

definition TestPullRequestOpenTitle :: string where "TestPullRequestOpenTitle = ''open pull request''"
definition TestPullRequestMergedTitle :: string where "TestPullRequestMergedTitle = ''merged pull request''"
definition TestPullRequestReviewCommentBody :: string where
  "TestPullRequestReviewCommentBody = ''a review comment on the open pull request''"
definition TestPullRequestReviewCommentFile :: string where "TestPullRequestReviewCommentFile = ''README.md''"
definition TestPullRequestReviewCommentLine :: int where "TestPullRequestReviewCommentLine = 1"

definition findPullRequestByTitle :: "pull_request list \<Rightarrow> string \<Rightarrow> pull_request option" where
  "findPullRequestByTitle prs title = find (\<lambda>p. pr_title p = title) prs"

definition open_pull_ok :: "pull_request \<Rightarrow> bool" where
  "open_pull_ok p \<longleftrightarrow>
     pr_state p = ''open'' \<and> pr_author p \<noteq> [] \<and> pr_source_branch p \<noteq> [] \<and> pr_target_branch p \<noteq> [] \<and>
     \<not> is_zero (pr_created_at p) \<and> \<not> is_zero (pr_updated_at p) \<and> pr_closed_at p = None \<and> pr_merged_at p = None \<and>
     (case pr_comments p of
        Some [c] \<Rightarrow> rc_body c = TestPullRequestReviewCommentBody \<and> rc_author c \<noteq> [] \<and> \<not> is_zero (rc_created_at c) \<and>
          rc_file c = TestPullRequestReviewCommentFile \<and> rc_line c = TestPullRequestReviewCommentLine
      | _ \<Rightarrow> False)"

definition merged_pull_ok :: "pull_request \<Rightarrow> bool" where
  "merged_pull_ok p \<longleftrightarrow> pr_state p = ''merged'' \<and> pr_merged_at p \<noteq> None \<and> pr_comments p = Some []"

definition TestPullRequestExporter :: "metadata_exporter \<Rightarrow> string \<Rightarrow> os \<Rightarrow> bool" where
  "TestPullRequestExporter exp dir s \<longleftrightarrow>
     exp_kind exp = MetadataPullRequests \<and>
     exports exp dir s (\<lambda>s1.
       case readPullRequests dir s1 of
         None \<Rightarrow> False
       | Some prs \<Rightarrow>
           (case findPullRequestByTitle prs TestPullRequestOpenTitle of None \<Rightarrow> False | Some p \<Rightarrow> open_pull_ok p) \<and>
           (case findPullRequestByTitle prs TestPullRequestMergedTitle of None \<Rightarrow> False | Some p \<Rightarrow> merged_pull_ok p))"

definition fixture_pulls :: "pull_request list \<Rightarrow> bool" where
  "fixture_pulls ps \<longleftrightarrow>
     TestPullRequestOpenTitle \<in> pr_title ` set ps \<and> TestPullRequestMergedTitle \<in> pr_title ` set ps \<and>
     list_all (\<lambda>p. (pr_title p = TestPullRequestOpenTitle \<longrightarrow> open_pull_ok p) \<and> (pr_title p = TestPullRequestMergedTitle \<longrightarrow> merged_pull_ok p)) ps"

text \<open>The fixture pull requests as the forge serves them, each with its review comments.\<close>

definition fixture_gh_pulls :: "(int \<Rightarrow> ghReviewComment list) \<Rightarrow> ghPullRequest list \<Rightarrow> bool" where
  "fixture_gh_pulls cs its \<longleftrightarrow>
     TestPullRequestOpenTitle \<in> hp_Title ` set its \<and> TestPullRequestMergedTitle \<in> hp_Title ` set its \<and>
     list_all (\<lambda>it.
       (hp_Title it = TestPullRequestOpenTitle \<longrightarrow>
          hp_State it = ''open'' \<and> hp_User it \<noteq> [] \<and> hp_Head it \<noteq> [] \<and> hp_Base it \<noteq> [] \<and>
          \<not> is_zero (hp_CreatedAt it) \<and> \<not> is_zero (hp_UpdatedAt it) \<and> hp_ClosedAt it = None \<and> hp_MergedAt it = None \<and>
          (case cs (hp_Number it) of
             [c] \<Rightarrow> hw_Body c = TestPullRequestReviewCommentBody \<and> hw_User c \<noteq> [] \<and> \<not> is_zero (hw_CreatedAt c) \<and>
               hw_Path c = TestPullRequestReviewCommentFile \<and>
               (hw_Line c = Some TestPullRequestReviewCommentLine \<or> hw_Line c = None \<and> hw_OriginalLine c = Some TestPullRequestReviewCommentLine)
           | _ \<Rightarrow> False)) \<and>
       (hp_Title it = TestPullRequestMergedTitle \<longrightarrow> hp_State it = ''closed'' \<and> hp_MergedAt it \<noteq> None \<and> cs (hp_Number it) = [])) its"

lemma fixture_gh_pulls_converted:
  assumes "fixture_gh_pulls cs its"
  shows "fixture_pulls (map (gh_pull_record cs) its)"
proof -
  have title: "pr_title (gh_pull_record cs it) = hp_Title it" for it
    by (simp add: gh_pull_record_def full_pull_request_def gh_toPullRequest_def)
  have "open_pull_ok (gh_pull_record cs it)" if "it \<in> set its" "hp_Title it = TestPullRequestOpenTitle" for it
    using assms that unfolding fixture_gh_pulls_def list_all_iff single_case
    by (fastforce simp: open_pull_ok_def gh_pull_record_def full_pull_request_def gh_toPullRequest_def gh_toReviewComment_def nil_if_empty_def Let_def)
  moreover have "merged_pull_ok (gh_pull_record cs it)" if "it \<in> set its" "hp_Title it = TestPullRequestMergedTitle" for it
    using assms that unfolding fixture_gh_pulls_def list_all_iff
    by (auto simp: merged_pull_ok_def gh_pull_record_def full_pull_request_def gh_toPullRequest_def nil_if_empty_def)
  ultimately show ?thesis
    using assms unfolding fixture_gh_pulls_def fixture_pulls_def by (auto simp: list_all_iff title image_iff)
qed

text \<open>C25:
  GitHub's pull request exporter meets the specification of a pull request exporter: on a forge
  whose answers hold the fixture pull requests and their review comments, among any others and over
  however many pages, the export finishes and every assertion of the suite holds of what it
  writes into an empty directory: states, branches, dates, and the file and line of a comment. The
  fixtures are conditions on the fields the forge serves: it reports a merged pull request as closed with
  a date of merging, and the line of an outdated comment as its original line.
\<close>

theorem gh_meets_TestPullRequestExporter:
  assumes "serves net (gh_api c) (gh_pullsURL c TestActiveRepoPath) (dec_list dec_ghPullRequest) ps" and "full_pages gh_pageSize ps"
    and "\<And>it. it \<in> set (concat ps) \<Longrightarrow>
      serves net (gh_api c) (gh_reviewsURL c TestActiveRepoPath (hp_Number it)) (dec_list dec_ghReviewComment) (cps (hp_Number it)) \<and>
      full_pages gh_pageSize (cps (hp_Number it))"
    and "distinct (map hp_Number (concat ps))"
    and "fixture_gh_pulls (\<lambda>n. concat (cps n)) (concat ps)"
    and "fresh_dir dir s"
  shows "TestPullRequestExporter (gh_PullRequestExporter net c) dir s"
proof -
  let ?prs = "map (gh_pull_record (\<lambda>n. concat (cps n))) (concat ps)"
  let ?r = "\<lparr>repo_path = TestActiveRepoPath, repo_archived = False, repo_empty = False\<rparr>"
  have number: "pr_number (gh_pull_record cs it) = hp_Number it" for it cs
    by (simp add: gh_pull_record_def gh_toPullRequest_def full_pull_request_def)
  obtain s' where run: "exp_export (gh_PullRequestExporter net c) ?r dir s = Some (Inr (), s')"
    and "with_files dir (map (gh_pull_file (\<lambda>n. concat (cps n))) (concat ps)) s s'"
    using gh_pull_export_total [of net c ?r ps cps dir s] assms(1-3) fresh_writable [OF assms(6)] by auto
  then have "with_files dir (map (\<lambda>p. (pr_number p, MarshalIndent (pull_request_json p))) ?prs) s s'"
    by (simp add: comp_def number gh_pull_file_def [abs_def])
  from read_files_back [OF this, of read_pull_request] obtain prs where read: "readPullRequests dir s' = Some prs" "set prs = set ?prs"
    using assms(4,6) by (auto simp: fresh_dir_def read_pull_request_back readPullRequests_def comp_def number)
  note fits = fixture_gh_pulls_converted [OF assms(5), unfolded fixture_pulls_def list_all_iff]
  have "case findPullRequestByTitle prs TestPullRequestOpenTitle of None \<Rightarrow> False | Some p \<Rightarrow> open_pull_ok p"
    unfolding findPullRequestByTitle_def by (rule find_titled [OF read(2)]) (use fits in blast)+
  moreover have "case findPullRequestByTitle prs TestPullRequestMergedTitle of None \<Rightarrow> False | Some p \<Rightarrow> merged_pull_ok p"
    unfolding findPullRequestByTitle_def by (rule find_titled [OF read(2)]) (use fits in blast)+
  ultimately show ?thesis
    using run read(1) by (simp add: TestPullRequestExporter_def exports_def gh_PullRequestExporter_def)
qed

text \<open>An open pull request with a comment on a line of the diff, and a merged one without.\<close>

definition fixture_pull_json :: "int \<Rightarrow> string \<Rightarrow> string \<Rightarrow> (string \<times> json) list \<Rightarrow> json" where
  "fixture_pull_json n title st fs =
     JObj ([(''number'', JNum n), (''title'', JStr title), (''user'', JObj [(''login'', JStr ''me'')]), (''state'', JStr st),
       (''head'', JObj [(''ref'', JStr ''topic'')]), (''base'', JObj [(''ref'', JStr ''main'')]),
       (''created_at'', JStr ''2024-01-01T00:00:00Z''), (''updated_at'', JStr ''2024-01-02T00:00:00Z'')] @ fs)"

definition fixture_pull_net :: net where
  "fixture_pull_net =
     \<lparr>net_parse = (\<lambda>u. Some (sample_url ''api.github.com'')),
      net_do = (\<lambda>rq. answer 200 (JArr
        (if has_prefix (rq_url rq) ''https://api.github.com/repos/team/active-repo/pulls?'' then
           [fixture_pull_json 1 ''open pull request'' ''open'' [],
            fixture_pull_json 2 ''merged pull request'' ''closed'' [(''closed_at'', JStr ''2024-01-03T00:00:00Z''), (''merged_at'', JStr ''2024-01-03T00:00:00Z'')]]
         else if has_prefix (rq_url rq) ''https://api.github.com/repos/team/active-repo/pulls/1/comments?'' then
           [JObj [(''user'', JObj [(''login'', JStr ''you'')]), (''body'', JStr ''a review comment on the open pull request''),
              (''created_at'', JStr ''2024-01-02T00:00:00Z''), (''path'', JStr ''README.md''), (''line'', JNum 1)]]
         else [])))\<rparr>"

definition fixture_ghPull :: "int \<Rightarrow> string \<Rightarrow> string \<Rightarrow> time option \<Rightarrow> ghPullRequest" where
  "fixture_ghPull n title st merged =
     \<lparr>hp_Number = n, hp_Title = title, hp_Body = [], hp_User = ''me'', hp_State = st, hp_Head = ''topic'', hp_Base = ''main'',
      hp_CreatedAt = ''2024-01-01T00:00:00Z'', hp_UpdatedAt = ''2024-01-02T00:00:00Z'', hp_ClosedAt = merged, hp_MergedAt = merged\<rparr>"

definition fixture_pull_pages :: "ghPullRequest list list" where
  "fixture_pull_pages = [[fixture_ghPull 1 ''open pull request'' ''open'' None,
     fixture_ghPull 2 ''merged pull request'' ''closed'' (Some ''2024-01-03T00:00:00Z'')]]"

definition fixture_reviews :: "int \<Rightarrow> ghReviewComment list list" where
  "fixture_reviews n = [if n = 1 then [\<lparr>hw_User = ''you'', hw_Body = ''a review comment on the open pull request'',
     hw_CreatedAt = ''2024-01-02T00:00:00Z'', hw_Path = ''README.md'', hw_Line = Some 1, hw_OriginalLine = None\<rparr>] else []]"

lemma fixture_reviews_served:
  assumes "it \<in> set (concat fixture_pull_pages)"
  shows "serves fixture_pull_net (gh_api sample_gh) (gh_reviewsURL sample_gh TestActiveRepoPath (hp_Number it)) (dec_list dec_ghReviewComment) (fixture_reviews (hp_Number it)) \<and>
    full_pages gh_pageSize (fixture_reviews (hp_Number it))"
proof -
  have "hp_Number it = 1 \<or> hp_Number it = 2" using assms by (auto simp: fixture_pull_pages_def fixture_ghPull_def)
  moreover have "serves fixture_pull_net (gh_api sample_gh) (gh_reviewsURL sample_gh TestActiveRepoPath 1) (dec_list dec_ghReviewComment) (fixture_reviews 1)" by code_simp
  moreover have "serves fixture_pull_net (gh_api sample_gh) (gh_reviewsURL sample_gh TestActiveRepoPath 2) (dec_list dec_ghReviewComment) (fixture_reviews 2)" by code_simp
  moreover have "full_pages gh_pageSize (fixture_reviews n)" for n by (simp add: full_pages_def fixture_reviews_def gh_pageSize_def)
  ultimately show ?thesis by auto
qed

lemma gh_meets_TestPullRequestExporter_witness: "TestPullRequestExporter (gh_PullRequestExporter fixture_pull_net sample_gh) ''/t/issues'' fixture_dir_os"
proof (rule gh_meets_TestPullRequestExporter [OF _ _ fixture_reviews_served _ _ fixture_fresh])
  show "serves fixture_pull_net (gh_api sample_gh) (gh_pullsURL sample_gh TestActiveRepoPath) (dec_list dec_ghPullRequest) fixture_pull_pages" by code_simp
  show "full_pages gh_pageSize fixture_pull_pages" by (simp add: full_pages_def fixture_pull_pages_def gh_pageSize_def)
  show "distinct (map hp_Number (concat fixture_pull_pages))" by (simp add: fixture_pull_pages_def fixture_ghPull_def)
  show "fixture_gh_pulls (\<lambda>n. concat (fixture_reviews n)) (concat fixture_pull_pages)" by code_simp
qed

end
