(* ===== verification/Release_Suite.thy ===== *)
theory Release_Suite
  imports Export_Suites
begin

text \<open>
  The release exporter from beginning to end: which directories and files an export of releases
  and their assets leaves, and the suite of the release exporters (\<open>testing.go\<close>).
\<close>

section \<open>Entries added\<close>

definition with_entries :: "(fpath \<times> node) list \<Rightarrow> os \<Rightarrow> os \<Rightarrow> bool" where
  "with_entries es s s' \<longleftrightarrow> os_mach s' = os_mach s \<and> look s' = look s ++ map_of (rev es)"

lemma with_entries_reads: "reads_only s s' \<Longrightarrow> with_entries [] s s'"
  by (simp add: with_entries_def reads_only_look) (simp add: reads_only_def)

lemma with_entries_trans: "with_entries es s s1 \<Longrightarrow> with_entries fs s1 s2 \<Longrightarrow> with_entries (es @ fs) s s2"
  by (simp add: with_entries_def)

lemma with_entries_put: "p \<noteq> [] \<Longrightarrow> with_entries [(p, n)] s (put p n s)"
  by (simp add: with_entries_def fun_eq_iff)

text \<open>The last entry for a path is what is there.\<close>

lemma with_entries_look:
  assumes "with_entries es s s'" "(q, n) \<in> set es" "\<And>m. (q, m) \<in> set es \<Longrightarrow> m = n"
  shows "look s' q = Some n"
proof -
  obtain m where "map_of (rev es) q = Some m" using assms(2)
    by (metis map_of_eq_None_iff not_Some_eq set_rev image_eqI fst_conv set_map)
  moreover from this have "m = n" using assms(3) by (auto dest: map_of_SomeD)
  ultimately show ?thesis using assms(1) by (simp add: with_entries_def)
qed

lemma with_entries_other: "with_entries es s s' \<Longrightarrow> q \<notin> fst ` set es \<Longrightarrow> look s' q = look s q"
proof -
  assume w: "with_entries es s s'" and "q \<notin> fst ` set es"
  then have "map_of (rev es) q = None" by (simp add: map_of_eq_None_iff)
  with w show ?thesis by (simp add: with_entries_def map_add_def)
qed

section \<open>A directory of releases\<close>

text \<open>
  A directory that holds nothing in the way of a release: on a machine that fails no call,
  below directories, with only directories for tags and assets and no directory where a file goes.
\<close>

definition release_ready :: "fpath \<Rightarrow> os \<Rightarrow> bool" where
  "release_ready D s \<longleftrightarrow>
     (\<forall>c. fault s c = None) \<and> (\<forall>q. prefix q D \<longrightarrow> look s q = Some Dir) \<and>
     (\<forall>t. look s (D @ [t]) \<in> {None, Some Dir} \<and> look s (D @ [t, ''assets'']) \<in> {None, Some Dir} \<and>
        look s (D @ [t, ''release.json'']) \<noteq> Some Dir \<and> (\<forall>n. look s (D @ [t, ''assets'', n]) \<noteq> Some Dir))"

definition asset_entries :: "fpath \<Rightarrow> string \<Rightarrow> string \<Rightarrow> string \<Rightarrow> (fpath \<times> node) list" where
  "asset_entries D t n body = [(D @ [t], Dir), (D @ [t, ''assets''], Dir), (D @ [t, ''assets'', n], File body)]"

definition record_entries :: "fpath \<Rightarrow> string \<Rightarrow> string \<Rightarrow> (fpath \<times> node) list" where
  "record_entries D t text = [(D @ [t], Dir), (D @ [t, ''release.json''], File text)]"

text \<open>Entries of this kind keep the directory ready for more.\<close>

definition release_entries :: "fpath \<Rightarrow> (fpath \<times> node) list \<Rightarrow> bool" where
  "release_entries D es \<longleftrightarrow> (\<forall>(q, n) \<in> set es. \<exists>t.
     (q = D @ [t] \<and> n = Dir) \<or> (q = D @ [t, ''assets''] \<and> n = Dir) \<or>
     (\<exists>c. q = D @ [t, ''release.json''] \<and> n = File c) \<or> (\<exists>m c. q = D @ [t, ''assets'', m] \<and> n = File c))"

lemma release_entries_append [simp]: "release_entries D (es @ fs) \<longleftrightarrow> release_entries D es \<and> release_entries D fs"
  by (simp only: release_entries_def set_append ball_Un)

lemma release_entries_intros [simp]:
  "release_entries D []" "release_entries D (asset_entries D t n body)" "release_entries D (record_entries D t text)"
  by (auto simp: release_entries_def asset_entries_def record_entries_def)

lemma ready_step:
  assumes w: "with_entries es s s'" and ready: "release_ready D s" and es: "release_entries D es"
  shows "release_ready D s'"
proof -
  have new: "look s' q = look s q \<or> (\<exists>n. look s' q = Some n \<and> (q, n) \<in> set es)" for q
    using w by (auto simp: with_entries_def map_add_def split: option.split dest: map_of_SomeD)
  have shape: "\<exists>t. (q = D @ [t] \<and> n = Dir) \<or> (q = D @ [t, ''assets''] \<and> n = Dir) \<or>
     (\<exists>c. q = D @ [t, ''release.json''] \<and> n = File c) \<or> (\<exists>m c. q = D @ [t, ''assets'', m] \<and> n = File c)" if "(q, n) \<in> set es" for q n
    using es that by (auto simp: release_entries_def)
  have "look s' q = Some Dir" if "prefix q D" for q
  proof -
    have "\<not> (\<exists>n. (q, n) \<in> set es)" using shape that by (fastforce simp: prefix_def)
    with new [of q] ready that show ?thesis by (auto simp: release_ready_def)
  qed
  moreover have "(D @ [t], n) \<in> set es \<Longrightarrow> n = Dir" "(D @ [t, ''assets''], n) \<in> set es \<Longrightarrow> n = Dir"
    "(D @ [t, ''release.json''], n) \<in> set es \<Longrightarrow> n \<noteq> Dir" "(D @ [t, ''assets'', m], n) \<in> set es \<Longrightarrow> n \<noteq> Dir" for t m n
    using shape by fastforce+
  with new ready have "look s' (D @ [t]) \<in> {None, Some Dir}" "look s' (D @ [t, ''assets'']) \<in> {None, Some Dir}"
    "look s' (D @ [t, ''release.json'']) \<noteq> Some Dir" "look s' (D @ [t, ''assets'', m]) \<noteq> Some Dir" for t m
    unfolding release_ready_def by (metis insert_iff option.inject)+
  moreover have "fault s' c = None" for c using w ready by (simp add: with_entries_def release_ready_def fault_def)
  ultimately show ?thesis by (simp add: release_ready_def)
qed

lemma mkdir_total:
  assumes ready: "release_ready D s" and dirs: "\<And>q. q \<in> set ps \<Longrightarrow> look s q \<in> {None, Some Dir}"
    and p: "\<And>q. prefix q p \<longleftrightarrow> prefix q D \<or> q \<in> set ps"
  shows "\<exists>s1. sys_mkdir_all p s = (Inr (), s1) \<and> with_entries (map (\<lambda>q. (q, Dir)) ps) s s1"
proof -
  have "look s q = None \<or> look s q = Some Dir" if "prefix q p" for q
    using dirs [of q] p [of q] ready that by (auto simp: release_ready_def)
  then have "list_ex (\<lambda>q. look s q \<noteq> None \<and> look s q \<noteq> Some Dir) (prefixes p) = False"
    by (auto simp: list_ex_iff)
  then obtain s1 where m: "sys_mkdir_all p s = (Inr (), s1)" using ready by (simp add: sys_mkdir_all_def release_ready_def)
  have "map_of (map (\<lambda>q. (q, Dir)) qs) q = (if q \<in> set qs then Some Dir else None)" for qs :: "fpath list" and q
    by (induction qs) auto
  then have "look s1 = look s ++ map_of (rev (map (\<lambda>q. (q, Dir)) ps))"
    using ready p by (auto simp: fun_eq_iff mkdir_all_ok [OF m] map_add_def rev_map release_ready_def)
  with m mkdir_all_mach [OF m] show ?thesis by (simp add: with_entries_def)
qed

lemma prefix_one: "prefix q (D @ [t]) \<longleftrightarrow> prefix q D \<or> q \<in> set [D @ [t]]"
  by auto

lemma prefix_two: "prefix q (D @ [t, u]) \<longleftrightarrow> prefix q D \<or> q \<in> set [D @ [t], D @ [t, u]]"
  using prefix_snoc [of q "D @ [t]" u] by auto

lemma WriteReleaseAsset_total:
  assumes ready: "release_ready (at_path s dir) s" and body: "st_error body = None" "length (st_data body) \<le> MaxReleaseAssetSize"
  shows "\<exists>s'. WriteReleaseAsset dir tag name body s = (Inr (int (length (st_data body))), s') \<and>
    with_entries (asset_entries (at_path s dir) (sanitizeName tag) (sanitizeName name) (st_data body)) s s'"
proof -
  let ?D = "at_path s dir" and ?t = "sanitizeName tag" and ?p = "asset_file dir tag name s"
  have "look s q \<in> {None, Some Dir}" if "q \<in> set [?D @ [?t], ?D @ [?t, ''assets'']]" for q
    using ready that by (auto simp: release_ready_def)
  from mkdir_total [OF ready this prefix_two]
  obtain s1 where m: "sys_mkdir_all (?D @ [?t, ''assets'']) s = (Inr (), s1)"
    and w1: "with_entries [(?D @ [?t], Dir), (?D @ [?t, ''assets''], Dir)] s s1" by auto
  have at: "asset_file dir tag name s1 = ?p" using w1 by (simp add: with_entries_def asset_file_def at_path_def)
  have "release_entries ?D [(?D @ [?t], Dir), (?D @ [?t, ''assets''], Dir)]" by (auto simp: release_entries_def)
  from ready_step [OF w1 ready this] have ready1: "release_ready ?D s1" .
  have p: "?p = ?D @ [?t, ''assets'', sanitizeName name]" by (simp add: asset_file_def)
  have parent: "look s1 (butlast ?p) = Some Dir" using mkdir_all_ok [OF m] by (simp add: p butlast_append)
  have free: "look s1 ?p \<noteq> Some Dir" and ok: "fault s1 c = None" for c using ready1 by (simp_all add: p release_ready_def)
  have create: "sys_create ?p s1 = (Inr (), put ?p (File []) s1)" using parent free ok by (simp add: sys_create_def)
  have small: "LimitReader body (MaxReleaseAssetSize + 1) = body" using body(2) by (simp add: LimitReader_def)
  have copy: "io_copy ?p body t = ((length (st_data body), None), put ?p (File (st_data body)) t)" if "fault t (SysWrite ?p) = None" for t
    using that body(1) by (simp add: io_copy_def)
  let ?s' = "put ?p (File (st_data body)) (put ?p (File []) s1)"
  have "WriteReleaseAsset dir tag name body s = (Inr (int (length (st_data body))), ?s')"
    unfolding WriteReleaseAsset_def Let_def at_assets at_asset_file m prod.case sum.case at create small
    using body(2) ok by (simp add: copy)
  moreover have "with_entries [(?p, File (st_data body))] s1 ?s'"
    by (simp add: with_entries_def fun_eq_iff p)
  ultimately show ?thesis using with_entries_trans [OF w1] p by (fastforce simp: asset_entries_def)
qed

lemma WriteRelease_total:
  assumes ready: "release_ready (at_path s dir) s"
  shows "\<exists>s'. in_context ctx (WriteRelease dir r s) = (Inr (), s') \<and>
    with_entries (record_entries (at_path s dir) (sanitizeName (r_tag_name r)) (MarshalIndent (release_json (full_release r)))) s s'"
proof -
  let ?D = "at_path s dir" and ?t = "sanitizeName (r_tag_name r)" and ?p = "release_file dir (r_tag_name r) s"
  let ?text = "MarshalIndent (release_json (full_release r))"
  have "look s q \<in> {None, Some Dir}" if "q \<in> set [?D @ [?t]]" for q using ready that by (auto simp: release_ready_def)
  from mkdir_total [OF ready this prefix_one]
  obtain s1 where m: "sys_mkdir_all (?D @ [?t]) s = (Inr (), s1)" and w1: "with_entries [(?D @ [?t], Dir)] s s1" by auto
  have at: "release_file dir (r_tag_name r) s1 = ?p" using w1 by (simp add: with_entries_def release_file_def at_path_def)
  have "release_entries ?D [(?D @ [?t], Dir)]" by (auto simp: release_entries_def)
  from ready_step [OF w1 ready this] have ready1: "release_ready ?D s1" .
  have p: "?p = ?D @ [?t, ''release.json'']" by (simp add: release_file_def)
  have parent: "look s1 (butlast ?p) = Some Dir" using mkdir_all_ok [OF m] by (simp add: p butlast_append)
  have "look s1 ?p \<noteq> Some Dir" "\<And>c. fault s1 c = None" using ready1 by (simp_all add: p release_ready_def)
  with parent have "sys_write_file ?p ?text s1 = (Inr (), put ?p (File ?text) s1)" by (simp add: sys_write_file_def)
  then have "WriteRelease dir r s = (Inr (), put ?p (File ?text) s1)" by (simp add: WriteRelease_alt Let_def m at)
  moreover have "with_entries [(?p, File ?text)] s1 (put ?p (File ?text) s1)" by (rule with_entries_put) (simp add: p)
  ultimately show ?thesis using with_entries_trans [OF w1] p by (fastforce simp: record_entries_def in_context_def)
qed

section \<open>The releases of a GitHub repository\<close>

abbreviation gh_releasesURL :: "gh_client \<Rightarrow> string \<Rightarrow> nat \<Rightarrow> url" where
  "gh_releasesURL c path page \<equiv>
     with_query [(''per_page'', show_nat gh_pageSize), (''page'', show_nat page)]
       (join_path (gh_BaseURL c) (''/repos/'' @ path @ ''/releases''))"

text \<open>A download is answered with a complete body that is not too large.\<close>

definition delivers :: "net \<Rightarrow> (string \<times> string) list \<Rightarrow> string \<Rightarrow> string \<Rightarrow> bool" where
  "delivers net hs u body \<longleftrightarrow>
     (case new_request net u hs of
        Inl _ \<Rightarrow> False
      | Inr rq \<Rightarrow>
          (case net_do net rq of
             Inl _ \<Rightarrow> False
           | Inr resp \<Rightarrow> rs_status resp = 200 \<and> rs_body resp = \<lparr>st_data = body, st_error = None\<rparr> \<and> length body \<le> MaxReleaseAssetSize))"

definition gh_release_record :: "(string \<Rightarrow> string) \<Rightarrow> ghRelease \<Rightarrow> release" where
  "gh_release_record bs it =
     \<lparr>r_tag_name = hl_TagName it, r_name = hl_Name it, r_body = hl_Body it, r_author = hl_Author it, r_created_at = hl_CreatedAt it,
      r_published_at = hl_PublishedAt it, r_assets = Some (map (\<lambda>a. \<lparr>ra_name = ha_Name a, ra_size = int (length (bs (ha_URL a)))\<rparr>) (hl_Assets it))\<rparr>"

definition gh_asset_entries :: "fpath \<Rightarrow> (string \<Rightarrow> string) \<Rightarrow> string \<Rightarrow> ghAsset \<Rightarrow> (fpath \<times> node) list" where
  "gh_asset_entries D bs tag a = asset_entries D (sanitizeName tag) (sanitizeName (ha_Name a)) (bs (ha_URL a))"

definition gh_release_entries :: "fpath \<Rightarrow> (string \<Rightarrow> string) \<Rightarrow> ghRelease \<Rightarrow> (fpath \<times> node) list" where
  "gh_release_entries D bs it =
     concat (map (gh_asset_entries D bs (hl_TagName it)) (hl_Assets it)) @
     record_entries D (sanitizeName (hl_TagName it)) (MarshalIndent (release_json (gh_release_record bs it)))"

lemma release_entries_concat: "(\<And>x. x \<in> set xs \<Longrightarrow> release_entries D (f x)) \<Longrightarrow> release_entries D (concat (map f xs))"
  by (induction xs) simp_all

lemma gh_asset_entries_kind [simp]: "release_entries D (gh_asset_entries D bs tag a)"
  by (simp add: gh_asset_entries_def)

lemma gh_release_entries_kind [simp]: "release_entries D (gh_release_entries D bs it)"
  by (simp add: gh_release_entries_def release_entries_concat)

lemma gh_download_total:
  assumes "release_ready (at_path s dir) s" and "delivers net (gh_headers c ''application/octet-stream'') (ha_URL a) (bs (ha_URL a))"
  shows "\<exists>s'. gh_downloadAsset net c path dir tag a s = (Inr (int (length (bs (ha_URL a)))), s') \<and>
    with_entries (gh_asset_entries (at_path s dir) bs tag a) s s'"
proof -
  obtain resp rs where get: "net_get net (gh_headers c ''application/octet-stream'') (ha_URL a) s = (Inr resp, s\<lparr>os_requests := rs\<rparr>)"
    and resp: "rs_status resp = 200" "rs_body resp = \<lparr>st_data = bs (ha_URL a), st_error = None\<rparr>" "length (bs (ha_URL a)) \<le> MaxReleaseAssetSize"
    using assms(2) by (auto simp: delivers_def net_get_def http_do_def split: sum.splits)
  let ?s = "s\<lparr>os_requests := rs\<rparr>"
  have r: "with_entries [] s ?s" by (rule with_entries_reads) (simp add: reads_only_def)
  have at: "at_path ?s p = at_path s p" for p by (simp add: at_path_def)
  have "release_ready (at_path ?s dir) ?s" using ready_step [OF r assms(1)] by (simp add: at)
  from WriteReleaseAsset_total [OF this, of "rs_body resp" tag "ha_Name a"] resp
  obtain s' where w: "WriteReleaseAsset dir tag (ha_Name a) (rs_body resp) ?s = (Inr (int (length (bs (ha_URL a)))), s')"
    and e: "with_entries (gh_asset_entries (at_path s dir) bs tag a) ?s s'" by (auto simp: gh_asset_entries_def at)
  from w get resp(1) have "gh_downloadAsset net c path dir tag a s = (Inr (int (length (bs (ha_URL a)))), s')"
    by (simp add: gh_downloadAsset_def in_context_def)
  with with_entries_trans [OF r e] show ?thesis by simp
qed

lemma gh_downloads_total:
  assumes "release_ready (at_path s dir) s"
    and "\<And>a. a \<in> set as \<Longrightarrow> delivers net (gh_headers c ''application/octet-stream'') (ha_URL a) (bs (ha_URL a))"
  shows "\<exists>s'. collect_each (\<lambda>a s. case gh_downloadAsset net c path dir tag a s of
                            (Inl e, s1) \<Rightarrow> (Inl e, s1)
                          | (Inr n, s1) \<Rightarrow> (Inr \<lparr>ra_name = ha_Name a, ra_size = n\<rparr>, s1)) as s =
      (Inr (map (\<lambda>a. \<lparr>ra_name = ha_Name a, ra_size = int (length (bs (ha_URL a)))\<rparr>) as), s') \<and>
    with_entries (concat (map (gh_asset_entries (at_path s dir) bs tag) as)) s s'"
  using assms
proof (induction as arbitrary: s)
  case Nil
  then show ?case using with_entries_reads [of s s] by simp
next
  case (Cons a as)
  from gh_download_total [where bs = bs, OF Cons.prems(1)] Cons.prems(2) obtain s1
    where d: "gh_downloadAsset net c path dir tag a s = (Inr (int (length (bs (ha_URL a)))), s1)"
      and e: "with_entries (gh_asset_entries (at_path s dir) bs tag a) s s1" by (metis list.set_intros(1))
  have at: "at_path s1 dir = at_path s dir" using e by (simp add: with_entries_def at_path_def)
  have "release_ready (at_path s1 dir) s1" using ready_step [OF e Cons.prems(1)] by (simp add: at)
  from Cons.IH [OF this] Cons.prems(2) obtain s2
    where c: "collect_each (\<lambda>a s. case gh_downloadAsset net c path dir tag a s of
                            (Inl e, s1) \<Rightarrow> (Inl e, s1)
                          | (Inr n, s1) \<Rightarrow> (Inr \<lparr>ra_name = ha_Name a, ra_size = n\<rparr>, s1)) as s1 =
      (Inr (map (\<lambda>a. \<lparr>ra_name = ha_Name a, ra_size = int (length (bs (ha_URL a)))\<rparr>) as), s2)"
    and e2: "with_entries (concat (map (gh_asset_entries (at_path s dir) bs tag) as)) s1 s2" unfolding at by auto
  from with_entries_trans [OF e e2] d c show ?case by simp
qed

lemma gh_release_total:
  assumes "release_ready (at_path s dir) s"
    and "\<And>a. a \<in> set (hl_Assets it) \<Longrightarrow> delivers net (gh_headers c ''application/octet-stream'') (ha_URL a) (bs (ha_URL a))"
  shows "\<exists>s'. gh_exportRelease net c path dir it s = (Inr (), s') \<and> with_entries (gh_release_entries (at_path s dir) bs it) s s'"
proof -
  let ?as = "map (\<lambda>a. \<lparr>ra_name = ha_Name a, ra_size = int (length (bs (ha_URL a)))\<rparr>) (hl_Assets it)"
  from gh_downloads_total [where bs = bs, OF assms] obtain s1
    where c: "collect_each (\<lambda>a s. case gh_downloadAsset net c path dir (hl_TagName it) a s of
                            (Inl e, s1) \<Rightarrow> (Inl e, s1)
                          | (Inr n, s1) \<Rightarrow> (Inr \<lparr>ra_name = ha_Name a, ra_size = n\<rparr>, s1)) (hl_Assets it) s = (Inr ?as, s1)"
      and e: "with_entries (concat (map (gh_asset_entries (at_path s dir) bs (hl_TagName it)) (hl_Assets it))) s s1" by blast
  have at: "at_path s1 dir = at_path s dir" using e by (simp add: with_entries_def at_path_def)
  have "release_ready (at_path s1 dir) s1"
    using ready_step [OF e assms(1) release_entries_concat] by (simp add: at)
  from WriteRelease_total [OF this, of "''write release '' @ path @ ''#'' @ hl_TagName it" "gh_release_record bs it"]
  obtain s2 where w: "in_context (''write release '' @ path @ ''#'' @ hl_TagName it) (WriteRelease dir (gh_release_record bs it) s1) = (Inr (), s2)"
    and e2: "with_entries (record_entries (at_path s dir) (sanitizeName (hl_TagName it)) (MarshalIndent (release_json (gh_release_record bs it)))) s1 s2"
    by (auto simp: at gh_release_record_def full_release_def)
  from w c have "gh_exportRelease net c path dir it s = (Inr (), s2)"
    by (simp add: gh_exportRelease_def gh_release_record_def)
  with with_entries_trans [OF e e2] show ?thesis by (auto simp: gh_release_entries_def)
qed

lemma gh_release_export_total:
  assumes "serves net (gh_api c) (gh_releasesURL c (repo_path r)) (dec_list dec_ghRelease) ps" and "full_pages gh_pageSize ps"
    and "\<And>it a. it \<in> set (concat ps) \<Longrightarrow> a \<in> set (hl_Assets it) \<Longrightarrow>
      delivers net (gh_headers c ''application/octet-stream'') (ha_URL a) (bs (ha_URL a))"
    and "release_ready (at_path s dir) s"
  shows "\<exists>s'. exp_export (gh_ReleaseExporter net c) r dir s = Some (Inr (), s') \<and>
    with_entries (concat (map (gh_release_entries (at_path s dir) bs) (concat ps))) s s'"
proof -
  let ?path = "repo_path r" and ?D = "at_path s dir"
  let ?fetch = "until_short gh_pageSize (gh_fetchReleasesPage net c ?path)"
  let ?P = "\<lambda>xs (st :: unit \<times> os). with_entries (concat (map (gh_release_entries ?D bs) xs)) s (snd st)"
  let ?f = "acting (\<lambda>it s. Some (gh_exportRelease net c ?path dir it s))"
  have "\<exists>st'. paged ?fetch ?f ((), s) = Some (Inr (), st') \<and> ?P (concat ps) st'"
  proof (rule paged_total [where P = ?P])
    fix p xs and st :: "unit \<times> os" assume p: "p < length ps" and P: "?P xs st"
    from answers_get_json [OF serves_answers [OF assms(1) p], of "snd st"] full_pages_short [OF assms(2) p]
    obtain rs where f: "?fetch (Suc p) (snd st) = (Inr (ps ! p, Suc p = length ps), (snd st)\<lparr>os_requests := rs\<rparr>)"
      by (simp add: until_short_def gh_fetchReleasesPage_def gh_getJSON_def in_context_def gh_pageSize_def) force
    have "with_entries [] (snd st) ((snd st)\<lparr>os_requests := rs\<rparr>)" by (rule with_entries_reads) (simp add: reads_only_def)
    from with_entries_trans [OF P this] f
    show "\<exists>s1. ?fetch (Suc p) (snd st) = (Inr (ps ! p, Suc p = length ps), s1) \<and> ?P xs (fst st, s1)" by auto
  next
    fix xs it ys and st :: "unit \<times> os" assume split: "concat ps = xs @ it # ys" and P: "?P xs st"
    have at: "at_path (snd st) dir = ?D" using P by (simp add: with_entries_def at_path_def)
    have ready: "release_ready (at_path (snd st) dir) (snd st)"
      using ready_step [OF P assms(4) release_entries_concat] by (simp add: at)
    have it: "it \<in> set (concat ps)" unfolding split by simp
    obtain s2 where "gh_exportRelease net c ?path dir it (snd st) = (Inr (), s2)" "with_entries (gh_release_entries ?D bs it) (snd st) s2"
      using gh_release_total [where bs = bs, OF ready assms(3) [OF it]] unfolding at by blast
    with with_entries_trans [OF P] show "\<exists>st'. ?f it st = Some (Inr (), st') \<and> ?P (xs @ [it]) st'" by (simp add: acting_def)
  qed (use assms(1) with_entries_reads [of s s] in \<open>simp_all add: serves_def\<close>)
  then show ?thesis by (auto simp: gh_ReleaseExporter_def acted_def)
qed

section \<open>The suite of every release exporter\<close>

definition read_release_asset :: "json \<Rightarrow> release_asset option" where
  "read_release_asset = dec_struct (\<lambda>fs. do {
     n \<leftarrow> dec_field ''name'' dec_string fs;
     sz \<leftarrow> dec_field ''size'' dec_int fs;
     Some \<lparr>ra_name = n, ra_size = sz\<rparr> })"

definition read_release :: "json \<Rightarrow> release option" where
  "read_release = dec_struct (\<lambda>fs. do {
     t \<leftarrow> dec_field ''tag_name'' dec_string fs;
     n \<leftarrow> dec_field ''name'' dec_string fs;
     b \<leftarrow> dec_field ''body'' dec_string fs;
     a \<leftarrow> dec_field ''author'' dec_string fs;
     ca \<leftarrow> dec_field ''created_at'' dec_string fs;
     pa \<leftarrow> dec_field ''published_at'' (dec_ptr dec_string) fs;
     as \<leftarrow> dec_field ''assets'' (dec_slice read_release_asset) fs;
     Some \<lparr>r_tag_name = t, r_name = n, r_body = b, r_author = a, r_created_at = ca, r_published_at = pa, r_assets = as\<rparr> })"

lemma read_release_back: "read_release (release_json r) = Some r"
proof -
  have "read_release_asset (asset_json a) = Some a" for a
    by (cases a) (simp add: read_release_asset_def asset_json_def dec_field_def)
  from read_slice [of read_release_asset asset_json, OF this] show ?thesis
    by (cases r) (simp add: read_release_def release_json_def dec_field_def omit_nil_def dec_ptr_def split: option.split)
qed

definition TestReleaseTagWithAsset :: string where "TestReleaseTagWithAsset = ''v1.0.0''"
definition TestReleaseTagNoAssets :: string where "TestReleaseTagNoAssets = ''v0.9.0''"
definition TestReleaseAssetName :: string where "TestReleaseAssetName = ''artifact.txt''"
definition TestReleaseAssetContent :: string where "TestReleaseAssetContent = ''release asset content''"

definition readRelease :: "string \<Rightarrow> string \<Rightarrow> os \<Rightarrow> release option" where
  "readRelease dir tag s =
     (case sys_read_file (at_path s (fpjoin [dir, tag, ''release.json''])) s of
        Inl e \<Rightarrow> None
      | Inr data \<Rightarrow> Option.bind (read_json data) read_release)"

definition TestReleaseExporter :: "metadata_exporter \<Rightarrow> string \<Rightarrow> os \<Rightarrow> bool" where
  "TestReleaseExporter exp dir s \<longleftrightarrow>
     exp_kind exp = MetadataReleases \<and>
     exports exp dir s (\<lambda>s1.
       (case readRelease dir TestReleaseTagWithAsset s1 of
          None \<Rightarrow> False
        | Some r \<Rightarrow>
            r_tag_name r = TestReleaseTagWithAsset \<and> r_author r \<noteq> [] \<and> \<not> is_zero (r_created_at r) \<and>
            (case r_assets r of
               Some [a] \<Rightarrow> ra_name a = TestReleaseAssetName \<and> ra_size a = int (length TestReleaseAssetContent)
             | _ \<Rightarrow> False)) \<and>
       sys_read_file (at_path s1 (fpjoin [dir, TestReleaseTagWithAsset, ''assets'', TestReleaseAssetName])) s1 = Inr TestReleaseAssetContent \<and>
       (case readRelease dir TestReleaseTagNoAssets s1 of None \<Rightarrow> False | Some r \<Rightarrow> r_assets r = Some []) \<and>
       \<not> dir_exists s1 (fpjoin [dir, TestReleaseTagNoAssets, ''assets'']))"

lemma fpjoin_more: "a \<noteq> [] \<Longrightarrow> fpjoin [d, a, b] = fpjoin [d, a @ ''/'' @ b]"
  by (simp add: fpjoin_def)

lemma at_suite_paths:
  "at_path s (fpjoin [d, ''v1.0.0'', ''release.json'']) = at_path s d @ [''v1.0.0'', ''release.json'']"
  "at_path s (fpjoin [d, ''v0.9.0'', ''release.json'']) = at_path s d @ [''v0.9.0'', ''release.json'']"
  "at_path s (fpjoin [d, ''v0.9.0'', ''assets'']) = at_path s d @ [''v0.9.0'', ''assets'']"
  "at_path s (fpjoin [d, ''v1.0.0'', ''assets'', ''artifact.txt'']) = at_path s d @ [''v1.0.0'', ''assets'', ''artifact.txt'']"
proof -
  have plain: "plain_rel ''v1.0.0/release.json''" "plain_rel ''v0.9.0/release.json''" "plain_rel ''v0.9.0/assets''" "plain_rel ''v1.0.0/assets/artifact.txt''"
    by code_simp+
  have split: "split_on CHR ''/'' ''v1.0.0/release.json'' = [''v1.0.0'', ''release.json'']" "split_on CHR ''/'' ''v0.9.0/release.json'' = [''v0.9.0'', ''release.json'']"
    "split_on CHR ''/'' ''v0.9.0/assets'' = [''v0.9.0'', ''assets'']" "split_on CHR ''/'' ''v1.0.0/assets/artifact.txt'' = [''v1.0.0'', ''assets'', ''artifact.txt'']"
    by code_simp+
  have join: "fpjoin [d, ''v1.0.0'', ''release.json''] = fpjoin [d, ''v1.0.0/release.json'']" "fpjoin [d, ''v0.9.0'', ''release.json''] = fpjoin [d, ''v0.9.0/release.json'']"
    "fpjoin [d, ''v0.9.0'', ''assets''] = fpjoin [d, ''v0.9.0/assets'']" "fpjoin [d, ''v1.0.0'', ''assets'', ''artifact.txt''] = fpjoin [d, ''v1.0.0/assets/artifact.txt'']"
    by (simp_all add: fpjoin_def)
  show "at_path s (fpjoin [d, ''v1.0.0'', ''release.json'']) = at_path s d @ [''v1.0.0'', ''release.json'']"
    "at_path s (fpjoin [d, ''v0.9.0'', ''release.json'']) = at_path s d @ [''v0.9.0'', ''release.json'']"
    "at_path s (fpjoin [d, ''v0.9.0'', ''assets'']) = at_path s d @ [''v0.9.0'', ''assets'']"
    "at_path s (fpjoin [d, ''v1.0.0'', ''assets'', ''artifact.txt'']) = at_path s d @ [''v1.0.0'', ''assets'', ''artifact.txt'']"
    unfolding at_path_def join by (simp_all only: resolve_fpjoin_plain [OF plain(1)] resolve_fpjoin_plain [OF plain(2)]
        resolve_fpjoin_plain [OF plain(3)] resolve_fpjoin_plain [OF plain(4)] split)
qed

text \<open>Which entries an export of releases adds at each level.\<close>

lemma release_entry_at:
  "(D @ [t, ''release.json''], n) \<in> set (concat (map (gh_release_entries D bs) its)) \<longleftrightarrow>
     (\<exists>it \<in> set its. t = sanitizeName (hl_TagName it) \<and> n = File (MarshalIndent (release_json (gh_release_record bs it))))"
  "(D @ [t, ''assets''], n) \<in> set (concat (map (gh_release_entries D bs) its)) \<longleftrightarrow>
     (\<exists>it \<in> set its. hl_Assets it \<noteq> [] \<and> t = sanitizeName (hl_TagName it) \<and> n = Dir)"
  "(D @ [t, ''assets'', m], n) \<in> set (concat (map (gh_release_entries D bs) its)) \<longleftrightarrow>
     (\<exists>it \<in> set its. \<exists>a \<in> set (hl_Assets it). t = sanitizeName (hl_TagName it) \<and> m = sanitizeName (ha_Name a) \<and> n = File (bs (ha_URL a)))"
proof -
  note entries = gh_release_entries_def gh_asset_entries_def asset_entries_def record_entries_def
  show "(D @ [t, ''release.json''], n) \<in> set (concat (map (gh_release_entries D bs) its)) \<longleftrightarrow>
     (\<exists>it \<in> set its. t = sanitizeName (hl_TagName it) \<and> n = File (MarshalIndent (release_json (gh_release_record bs it))))"
    by (auto simp: entries)
  show "(D @ [t, ''assets''], n) \<in> set (concat (map (gh_release_entries D bs) its)) \<longleftrightarrow>
     (\<exists>it \<in> set its. hl_Assets it \<noteq> [] \<and> t = sanitizeName (hl_TagName it) \<and> n = Dir)"
    by (auto simp: entries neq_Nil_conv)
  show "(D @ [t, ''assets'', m], n) \<in> set (concat (map (gh_release_entries D bs) its)) \<longleftrightarrow>
     (\<exists>it \<in> set its. \<exists>a \<in> set (hl_Assets it). t = sanitizeName (hl_TagName it) \<and> m = sanitizeName (ha_Name a) \<and> n = File (bs (ha_URL a)))" (is "?l \<longleftrightarrow> ?r")
  proof
    assume ?r
    then obtain it a where it: "it \<in> set its" "a \<in> set (hl_Assets it)" "t = sanitizeName (hl_TagName it)"
      "m = sanitizeName (ha_Name a)" "n = File (bs (ha_URL a))" by blast
    then have "(D @ [t, ''assets'', m], n) \<in> set (gh_asset_entries D bs (hl_TagName it) a)" by (simp add: entries)
    with it(2) have "(D @ [t, ''assets'', m], n) \<in> set (gh_release_entries D bs it)" by (auto simp: gh_release_entries_def)
    with it(1) show ?l by auto
  qed (auto simp: entries split: if_splits)
qed

lemma fresh_release_ready:
  assumes "fresh_dir dir s" "wf_os s"
  shows "release_ready (at_path s dir) s"
proof -
  let ?D = "at_path s dir"
  have none: "look s (?D @ t # ts) = None" for t ts
  proof (cases "ts = []")
    case False
    then have "strict_prefix (?D @ [t]) (?D @ t # ts)" by (simp add: strict_prefix_def)
    then show ?thesis using no_child_of_file [OF assms(2), of "?D @ [t]"] assms(1) by (simp add: fresh_dir_def)
  qed (use assms(1) in \<open>simp add: fresh_dir_def\<close>)
  have "look s q = Some Dir" if "prefix q ?D" for q
    using that wf_ancestors [OF assms(2), of ?D Dir q] assms(1) by (cases "q = ?D") (auto simp: fresh_dir_def strict_prefix_def)
  with none assms(1) show ?thesis by (simp add: release_ready_def fresh_dir_def)
qed

definition fixture_releases :: "(string \<Rightarrow> string) \<Rightarrow> ghRelease list \<Rightarrow> bool" where
  "fixture_releases bs its \<longleftrightarrow>
     list_ex (\<lambda>it. hl_TagName it = TestReleaseTagWithAsset \<and> hl_Author it \<noteq> [] \<and> \<not> is_zero (hl_CreatedAt it) \<and>
       (case hl_Assets it of [a] \<Rightarrow> ha_Name a = TestReleaseAssetName \<and> bs (ha_URL a) = TestReleaseAssetContent | _ \<Rightarrow> False)) its \<and>
     list_ex (\<lambda>it. hl_TagName it = TestReleaseTagNoAssets \<and> hl_Assets it = []) its"

text \<open>What an export leaves of one release among others whose directories differ from its own.\<close>

lemma same_release:
  "it = other" if "distinct (map (\<lambda>it. sanitizeName (hl_TagName it)) its)" "it \<in> set its" "other \<in> set its"
    "sanitizeName (hl_TagName it) = sanitizeName (hl_TagName other)"
  using that by (metis (mono_tags, lifting) distinct_map inj_on_def)

lemma released_record:
  assumes w: "with_entries (concat (map (gh_release_entries d bs) its)) s s'"
    and d: "distinct (map (\<lambda>it. sanitizeName (hl_TagName it)) its)" and it: "it \<in> set its"
  shows "look s' (d @ [sanitizeName (hl_TagName it), ''release.json'']) = Some (File (MarshalIndent (release_json (gh_release_record bs it))))"
  by (rule with_entries_look [OF w]; unfold release_entry_at) (use it same_release [OF d it] in blast)+

lemma released_asset:
  assumes w: "with_entries (concat (map (gh_release_entries d bs) its)) s s'"
    and d: "distinct (map (\<lambda>it. sanitizeName (hl_TagName it)) its)" and it: "it \<in> set its" and a: "hl_Assets it = [a]"
  shows "look s' (d @ [sanitizeName (hl_TagName it), ''assets'', sanitizeName (ha_Name a)]) = Some (File (bs (ha_URL a)))"
proof (rule with_entries_look [OF w]; unfold release_entry_at)
  fix m assume "\<exists>other\<in>set its. \<exists>b\<in>set (hl_Assets other). sanitizeName (hl_TagName it) = sanitizeName (hl_TagName other) \<and>
      sanitizeName (ha_Name a) = sanitizeName (ha_Name b) \<and> m = File (bs (ha_URL b))"
  then obtain other b where o: "other \<in> set its" "b \<in> set (hl_Assets other)" "sanitizeName (hl_TagName it) = sanitizeName (hl_TagName other)"
    "m = File (bs (ha_URL b))" by blast
  from same_release [OF d it o(1,3)] o(2,4) a show "m = File (bs (ha_URL a))" by simp
qed (use it a in auto)

lemma released_no_assets:
  assumes w: "with_entries (concat (map (gh_release_entries (at_path s dir) bs) its)) s s'"
    and d: "distinct (map (\<lambda>it. sanitizeName (hl_TagName it)) its)" and f: "fresh_dir dir s" "wf_os s"
    and it: "it \<in> set its" "hl_Assets it = []"
  shows "look s' (at_path s dir @ [sanitizeName (hl_TagName it), ''assets'']) = None"
proof -
  let ?D = "at_path s dir" let ?es = "concat (map (gh_release_entries ?D bs) its)" let ?p = "?D @ [sanitizeName (hl_TagName it), ''assets'']"
  have free: "p \<notin> fst ` E" if "\<And>m. (p, m) \<notin> E" for p :: "string list" and E :: "(string list \<times> node) set"
    using that by auto
  have "?p \<notin> fst ` set ?es"
    by (rule free, unfold release_entry_at) (use it same_release [OF d it(1)] in auto)
  moreover have "look s ?p = None"
    using no_child_of_file [OF f(2), of "?D @ [sanitizeName (hl_TagName it)]" ?p] f(1) by (simp add: fresh_dir_def strict_prefix_def)
  ultimately show ?thesis using with_entries_other [OF w] by simp
qed

text \<open>C26:
  GitHub's release exporter meets the specification of a release exporter: on a forge that serves
  the fixture releases, among any others whose tags give distinct directory names, and delivers their
  assets, the export finishes and every assertion of the suite holds of what it writes into an empty directory: the record with the size of its
  asset, the asset with its exact content, and no directory of assets for a release without any.
\<close>

theorem gh_meets_TestReleaseExporter:
  assumes "serves net (gh_api c) (gh_releasesURL c TestActiveRepoPath) (dec_list dec_ghRelease) ps" and "full_pages gh_pageSize ps"
    and "\<And>it a. it \<in> set (concat ps) \<Longrightarrow> a \<in> set (hl_Assets it) \<Longrightarrow>
      delivers net (gh_headers c ''application/octet-stream'') (ha_URL a) (bs (ha_URL a))"
    and "distinct (map (\<lambda>it. sanitizeName (hl_TagName it)) (concat ps))"
    and "fixture_releases bs (concat ps)"
    and "fresh_dir dir s" and "wf_os s"
  shows "TestReleaseExporter (gh_ReleaseExporter net c) dir s"
proof -
  let ?r = "\<lparr>repo_path = TestActiveRepoPath, repo_archived = False, repo_empty = False\<rparr>" and ?D = "at_path s dir"
  let ?es = "concat (map (gh_release_entries ?D bs) (concat ps))"
  have "\<exists>s'. exp_export (gh_ReleaseExporter net c) ?r dir s = Some (Inr (), s') \<and> with_entries ?es s s'"
    by (rule gh_release_export_total [OF _ assms(2) _ fresh_release_ready [OF assms(6,7)]]) (use assms(1,3) in simp_all)
  then obtain s' where run: "exp_export (gh_ReleaseExporter net c) ?r dir s = Some (Inr (), s')" and w: "with_entries ?es s s'" by blast
  have at: "at_path s' p = at_path s p" "fault s' x = None" for p x
    using w assms(6) by (simp_all add: with_entries_def at_path_def fault_def fresh_dir_def)
  have names: "sanitizeName ''v1.0.0'' = ''v1.0.0''" "sanitizeName ''v0.9.0'' = ''v0.9.0''" "sanitizeName ''artifact.txt'' = ''artifact.txt''" by code_simp+
  from assms(5) obtain w1 a where w1: "w1 \<in> set (concat ps)" "hl_TagName w1 = ''v1.0.0''" "hl_Author w1 \<noteq> []" "\<not> is_zero (hl_CreatedAt w1)"
    and a: "hl_Assets w1 = [a]" "ha_Name a = ''artifact.txt''" "bs (ha_URL a) = TestReleaseAssetContent"
    by (auto simp: fixture_releases_def list_ex_iff single_case TestReleaseTagWithAsset_def TestReleaseAssetName_def)
  from assms(5) obtain w0 where w0: "w0 \<in> set (concat ps)" "hl_TagName w0 = ''v0.9.0''" "hl_Assets w0 = []"
    by (auto simp: fixture_releases_def list_ex_iff TestReleaseTagNoAssets_def)
  note released_record [OF w assms(4) w1(1)] released_record [OF w assms(4) w0(1)] released_asset [OF w assms(4) w1(1) a(1)]
    released_no_assets [OF w assms(4,6,7) w0(1,3)]
  then show ?thesis
    using run w1 w0 a
    by (simp add: TestReleaseExporter_def exports_def gh_ReleaseExporter_def TestReleaseTagWithAsset_def TestReleaseTagNoAssets_def
        TestReleaseAssetName_def at at_suite_paths sys_read_file_def gh_release_record_def dir_exists_def readRelease_def names
        read_json_back read_release_back)
qed

text \<open>A release with an asset and one without, and the asset's content.\<close>

definition fixture_release_json :: "string \<Rightarrow> json list \<Rightarrow> json" where
  "fixture_release_json tag as =
     JObj [(''tag_name'', JStr tag), (''name'', JStr tag), (''author'', JObj [(''login'', JStr ''me'')]), (''created_at'', JStr ''2024-01-01T00:00:00Z''),
       (''assets'', JArr as)]"

definition fixture_release_net :: net where
  "fixture_release_net =
     \<lparr>net_parse = (\<lambda>u. Some (sample_url ''api.github.com'')),
      net_do = (\<lambda>rq.
        if rq_url rq = ''https://api.github.com/assets/7'' then
          Inr \<lparr>rs_status = 200, rs_headers = [], rs_json = None, rs_body = \<lparr>st_data = ''release asset content'', st_error = None\<rparr>\<rparr>
        else answer 200 (JArr
          [fixture_release_json ''v1.0.0'' [JObj [(''name'', JStr ''artifact.txt''), (''size'', JNum 21), (''url'', JStr ''https://api.github.com/assets/7'')]],
           fixture_release_json ''v0.9.0'' []]))\<rparr>"

definition fixture_ghRelease :: "string \<Rightarrow> ghAsset list \<Rightarrow> ghRelease" where
  "fixture_ghRelease tag as =
     \<lparr>hl_TagName = tag, hl_Name = tag, hl_Body = [], hl_Author = ''me'', hl_CreatedAt = ''2024-01-01T00:00:00Z'', hl_PublishedAt = None, hl_Assets = as\<rparr>"

definition fixture_release_pages :: "ghRelease list list" where
  "fixture_release_pages =
     [[fixture_ghRelease ''v1.0.0'' [\<lparr>ha_Name = ''artifact.txt'', ha_Size = 21, ha_URL = ''https://api.github.com/assets/7''\<rparr>], fixture_ghRelease ''v0.9.0'' []]]"

lemma gh_meets_TestReleaseExporter_witness: "TestReleaseExporter (gh_ReleaseExporter fixture_release_net sample_gh) ''/t/issues'' fixture_dir_os"
proof (rule gh_meets_TestReleaseExporter [where bs = "\<lambda>_. TestReleaseAssetContent", OF _ _ _ _ _ fixture_fresh])
  show "serves fixture_release_net (gh_api sample_gh) (gh_releasesURL sample_gh TestActiveRepoPath) (dec_list dec_ghRelease) fixture_release_pages" by code_simp
  show "full_pages gh_pageSize fixture_release_pages" by (simp add: full_pages_def fixture_release_pages_def gh_pageSize_def)
  show "delivers fixture_release_net (gh_headers sample_gh ''application/octet-stream'') (ha_URL a) TestReleaseAssetContent"
    if "it \<in> set (concat fixture_release_pages)" "a \<in> set (hl_Assets it)" for it a
  proof -
    have "ha_URL a = ''https://api.github.com/assets/7''" using that by (auto simp: fixture_release_pages_def fixture_ghRelease_def)
    then show ?thesis
      by (simp add: delivers_def new_request_def fixture_release_net_def TestReleaseAssetContent_def MaxReleaseAssetSize_def)
  qed
  show "distinct (map (\<lambda>it. sanitizeName (hl_TagName it)) (concat fixture_release_pages))" by code_simp
  show "fixture_releases (\<lambda>_. TestReleaseAssetContent) (concat fixture_release_pages)" by code_simp
  show "wf_os fixture_dir_os"
    by (auto simp: wf_os_def look_def fixture_dir_os_def quiet_os_def quiet_machine_def plain_name_def split: if_splits)
qed

end
