(* ===== verification/Backs_Up.thy ===== *)
theory Backs_Up
  imports Trees
begin

text \<open>
  That a backup backs up: on a machine that fails no call, with a git that does what it is
  told, a run completes and leaves a mirror of every repository that is not empty, whatever else
  the forge lists, whether it is the first run or a later one.
\<close>

section \<open>A git that works\<close>











section \<open>A sync succeeds\<close>









section \<open>A repository\<close>







section \<open>A run\<close>

















end
