(* ===== verification/Spec2Isabelle.thy ===== *)
theory Spec2Isabelle
  imports Findings Run_Concurrent Json_Read Preview Config_Init Acceptance Program Trees Release_Suite Backs_Up
begin

text \<open>
  backup-git-repos mirrors every git repository of the configured forges (Forgejo, GitLab, GitHub)
  below a destination directory, writes archives of those selected, exports issues, releases and
  pull requests as JSON files, and prunes what a forge no longer lists. This library models the
  whole pipeline, from the command line to the system calls, and proves what it promises:
  that it keeps to its directories, that a failure leaves the last good backup in place, that
  pruning only removes what is gone, that listings are complete, that tokens stay where they
  belong, and that concurrency changes nothing.

  The parts of the program and how they interact. \<open>cmd/backup-git-repos/main.go\<close> wires a forge's
  client into a \<open>backup.Runner\<close> and hands the constructor to the command line
  (\<open>internal/backup/cli.go\<close>), which loads the configuration (\<open>config.go\<close>) and runs, lists or
  previews each forge. \<open>Runner.Run\<close> (\<open>run.go\<close>) asks the forge's \<open>Lister\<close> for the repositories, scans the
  destination for stale mirrors, lets a pool of workers mirror (\<open>mirror.go\<close>, \<open>mirror_lfs.go\<close>), export
  (\<open>metadata.go\<close> and the exporters of the clients) and archive (\<open>archive.go\<close>) each one, and prunes.

  \<^bold>\<open>Foundations.\<close>
  \<^item> \<open>Prelude\<close>: the collections of framing and invariant lemmas, Go's loops as combinators (the page
    loop is a \<open>partial_function\<close>, so a listing that never ends is \<open>None\<close>), strings and decimal numbers.
  \<^item> \<open>GoPath\<close>: \<open>path/filepath\<close>; \<open>FileSystem\<close>: the machine, a record of a tree of entries, logs, output,
    executed commands and sent requests, whose system calls fail wherever \<open>m_fault\<close> says, and the error
    values of the program; \<open>GoUrl\<close>: \<open>net/url\<close>, base64 and \<open>internal/httpauth\<close>; \<open>Json\<close>: the writer and
    the struct decoding of \<open>encoding/json\<close>. These translate the standard library as the code uses it.
  \<^item> \<open>Forge\<close>: the data the parts exchange (\<open>repo.go\<close> and the types of \<open>run.go\<close>) and the contracts of the three
    adapters as locales: a lister only reads, a mirrorer keeps to the mirror's directory and its
    partial twin, an exporter keeps to its directory.

  \<^bold>\<open>The pipeline.\<close>
  \<^item> \<open>Mirror\<close> (\<open>mirror.go\<close>, \<open>mirror_lfs.go\<close>): git and git-lfs are a parameter that maps a command line and
    the directory it works in to a result; the lemmas say which commands run with which environment
    and that a first clone is all or nothing.
  \<^item> \<open>Archive\<close> (\<open>archive.go\<close>): the entries, their normalised headers and the rename at the end; the encoding
    of tar and gzip is a parameter. All or nothing, and reproducible.
  \<^item> \<open>Stale\<close>, \<open>Prune\<close> (\<open>run.go\<close>): the scan of the two trees and the removal. The stale paths are characterised
    exactly, and pruning removes all of them and nothing else.
  \<^item> \<open>Metadata\<close> (\<open>metadata.go\<close>): kinds, records, names and file writes; \<open>Json_Read\<close> reads the files back.
    Its reader takes fuel for the number of values, and a text always has more characters than values
    (\<open>weight_length\<close>), so \<open>read_json\<close> starts with the length of the text.
  \<^item> \<open>Run\<close> (\<open>run.go\<close>): one repository, the counters, and a whole run over the sequential schedule, under the
    contract \<open>runner_contract\<close>; \<open>Run_Concurrent\<close>: the loop, the workers under the limit, their atomic additions and
    the lock of the progress calls, as a step relation over all schedules and outcomes, with the sequential
    run as the abstract specification it refines. The locale \<open>tally\<close> is one counter's conservation law.
    Where the exporters return, the pool is totally correct (\<open>pool_ends_right\<close>): every schedule is short, and the
    only states it can stop in are finished ones with the sequential counters and the lock free.
  \<^item> \<open>Backs_Up\<close>: on a machine that fails no call, with a git that does what it is told (\<open>git_works\<close>, which says
    what the code relies on: a clone and an update leave a directory with a \<open>HEAD\<close>), a run leaves a mirror of
    every repository that is not empty. The other theorems are about what a run must not do; this one
    is about what it must.
  \<^item> \<open>Findings\<close>: runs that delete what they should keep, in general and on an instance.

  \<^bold>\<open>The forges.\<close>
  \<^item> \<open>Http\<close> holds what the clients share: requests, paging, and what it means that a forge serves some
    data. Its \<open>written\<close> is the least relation of what an exporter may do, and \<open>file_exporter\<close> the locale of the
    exporters that do only that. \<open>Forgejo\<close>, \<open>GitHub\<close> and \<open>GitLab\<close> (\<open>internal/forgejo\<close>, \<open>internal/github\<close>, \<open>internal/gitlab\<close>) model each client, its
    listing and its exporters. A forge is a parameter \<open>net\<close> that answers requests; every client is an
    interpretation of the contracts of \<open>Forge\<close>. Listings are complete on a forge that serves its data.

  \<^bold>\<open>The program.\<close>
  \<^item> \<open>Config\<close> (\<open>config.go\<close>), \<open>Cli\<close> (\<open>cli.go\<close>, \<open>cli_config.go\<close>, \<open>cli_progress.go\<close>), \<open>Program\<close> (\<open>main.go\<close>): loading and
    validating the configuration, the commands, and the composition root, whose runners keep
    \<open>runner_contract\<close>; \<open>Config_Init\<close> and \<open>Preview\<close> hold what is proved of the first start and of dry runs.
  \<^item> \<open>Acceptance\<close> (\<open>testing.go\<close>): the specifications the repository ships for every lister and every backup, as
    predicates, that the GitHub client meets the first on every forge that serves the fixtures, and that
    the second holds of the suite's own fixture run. \<open>Export_Suites\<close> and \<open>Release_Suite\<close> do the
    same for the three exporters: the total effect of the GitHub exports (they return, and leave exactly the
    known files), and the suites \<open>TestIssueExporter\<close>, \<open>TestPullRequestExporter\<close> and \<open>TestReleaseExporter\<close> from it,
    with the fixtures as conditions on the fields the forge serves.
  \<^item> \<open>Trees\<close>: the type invariant \<open>wf_os\<close> of the disk through every component, under the contract
    \<open>tree_contract\<close>, and over sequences of invocations of the program; and, over it, that a backup of all
    the forges of a configuration stays with those it is asked for.

  \<^bold>\<open>Simplifications, and what is not modelled.\<close> Integers are unbounded: the counters are \<open>atomic.Int64\<close> and the
  numbers of a forge are \<open>int\<close>; no count comes near their limits, and a number in a JSON answer that does not fit is
  a decoding error of the library. Times are their RFC 3339 texts. Timeouts, cancellation and signals reach the
  program as errors of the adapters, which are arbitrary here. A worker's calls to the system do not interleave
  with those of other workers: \<open>Run\<close> orders them one repository after the other, and \<open>Run_Concurrent\<close> takes each
  repository's outcome as given; \<open>Run_touches_only_its_own\<close> says which entries each repository can touch at all. The
  concurrent lookups of one page of GitLab projects are made in page order, the order their results are
  put in. \<open>net/http\<close> follows redirects itself: the parameter \<open>net\<close> gives the final answer to a request, and
  which headers the library repeats on the way is its own. The YAML parser, the shell of \<open>token_command\<close>, cobra's parsing of the command line, viper's merging of
  flags, environment and file, and the man page generator are outside the repository: they are parameters.
  Error texts on the standard error output are not kept, the error values are.
\<close>

end
